(* ===== verification/Prelude.thy ===== *)
theory Prelude
  imports Main "HOL-Library.Char_ord" "HOL-Library.List_Lexorder"
begin

text \<open>
  Shared material of the development: the Go string operations the service uses
  (package strings of the standard library, on byte strings), the optional-string helpers of
  the transport, the result type of fallible code (a sum whose left side is the error) and the
  generic lemmas and lemma collections the component theories share.

  A Go string is a byte sequence; it is modelled as a \<^typ>\<open>string\<close>, whose characters are
  bytes, so \<^const>\<open>length\<close> is Go's len.
\<close>

named_theorems go_string \<open>defining equations of the modelled Go string operations\<close>
named_theorems handler_defs \<open>definitions of request handlers and middleware\<close>
named_theorems conv_defs \<open>definitions of message conversions\<close>

section \<open>Go string operations\<close>

definition HasPrefix :: "string \<Rightarrow> string \<Rightarrow> bool" where
  "HasPrefix s p \<longleftrightarrow> take (length p) s = p"

definition TrimPrefix :: "string \<Rightarrow> string \<Rightarrow> string" where
  "TrimPrefix s p = (if HasPrefix s p then drop (length p) s else s)"

text \<open>\<open>strings.Cut\<close> around a one-byte separator: before, after, found.\<close>

fun Cut :: "string \<Rightarrow> char \<Rightarrow> string \<times> string \<times> bool" where
  "Cut [] sep = ([], [], False)"
| "Cut (c # cs) sep =
     (if c = sep then ([], cs, True)
      else (case Cut cs sep of (b, a, f) \<Rightarrow> (c # b, a, f)))"

text \<open>\<open>strings.Split\<close> on a one-byte separator: never empty, always one part more than separators.\<close>

fun Split :: "char \<Rightarrow> string \<Rightarrow> string list" where
  "Split sep [] = [[]]"
| "Split sep (c # cs) =
     (if c = sep then [] # Split sep cs
      else (case Split sep cs of [] \<Rightarrow> [[c]] | p # ps \<Rightarrow> (c # p) # ps))"

fun Join :: "char \<Rightarrow> string list \<Rightarrow> string" where
  "Join sep [] = []"
| "Join sep [p] = p"
| "Join sep (p # q # ps) = p @ sep # Join sep (q # ps)"

definition Count :: "char \<Rightarrow> string \<Rightarrow> nat" where
  "Count c s = length (filter (\<lambda>x. x = c) s)"

text \<open>
  \<open>strings.ToLower\<close> and \<open>strings.ToUpper\<close> on ASCII; the service applies them to protocol
  enum names and contract words only, which are ASCII. Other bytes are left alone.
\<close>

definition char_code :: "char \<Rightarrow> nat" where
  "char_code c = of_char c"

definition between :: "char \<Rightarrow> char \<Rightarrow> char \<Rightarrow> bool" where
  "between lo hi c \<longleftrightarrow> char_code lo \<le> char_code c \<and> char_code c \<le> char_code hi"

definition lower_char :: "char \<Rightarrow> char" where
  "lower_char c = (if between CHR ''A'' CHR ''Z'' c then char_of (char_code c + 32) else c)"

definition upper_char :: "char \<Rightarrow> char" where
  "upper_char c = (if between CHR ''a'' CHR ''z'' c then char_of (char_code c - 32) else c)"

definition ToLower :: "string \<Rightarrow> string" where
  "ToLower s = map lower_char s"

definition ToUpper :: "string \<Rightarrow> string" where
  "ToUpper s = map upper_char s"

lemmas [go_string] = HasPrefix_def TrimPrefix_def Count_def ToLower_def ToUpper_def

lemma HasPrefix_append [simp]: "HasPrefix (p @ s) p"
  by (simp add: HasPrefix_def)

lemma HasPrefixE [elim?]:
  assumes "HasPrefix s p"
  obtains t where "s = p @ t"
  using assms by (metis HasPrefix_def append_take_drop_id)

lemma HasPrefix_iff: "HasPrefix s p \<longleftrightarrow> (\<exists>t. s = p @ t)"
  by (auto elim: HasPrefixE)

lemma TrimPrefix_append [simp]: "TrimPrefix (p @ s) p = s"
  by (simp add: TrimPrefix_def)

lemma Split_not_Nil [simp]: "Split sep s \<noteq> []"
  by (induction s) (auto split: list.splits)

lemma Join_Split [simp]: "Join sep (Split sep s) = s"
proof (induction s)
  case (Cons c cs)
  show ?case
  proof (cases "Split sep cs")
    case (Cons p ps)
    with Cons.IH show ?thesis by (cases ps) auto
  qed simp
qed simp

lemma Split_no_sep: "p \<in> set (Split sep s) \<Longrightarrow> sep \<notin> set p"
proof (induction s arbitrary: p)
  case (Cons c cs)
  then show ?case
    by (cases "Split sep cs") (auto split: if_splits)
qed simp

lemma Split_plain: "sep \<notin> set p \<Longrightarrow> Split sep p = [p]"
  by (induction p) auto

lemma Split_append_sep: "sep \<notin> set p \<Longrightarrow> Split sep (p @ sep # s) = p # Split sep s"
  by (induction p) auto

lemma Split_Join: "ps \<noteq> [] \<Longrightarrow> (\<And>p. p \<in> set ps \<Longrightarrow> sep \<notin> set p) \<Longrightarrow> Split sep (Join sep ps) = ps"
  by (induction sep ps rule: Join.induct) (auto simp: Split_plain Split_append_sep)

lemma length_Split: "length (Split sep s) = Suc (Count sep s)"
  by (induction s) (auto simp: Count_def split: list.splits)

lemma Cut_prefix: "Cut s sep = (b, a, f) \<Longrightarrow> sep \<notin> set b \<and> s = (if f then b @ sep # a else b)"
  by (induction s arbitrary: b a f) (auto split: if_splits prod.splits)

lemma Cut_at: "sep \<notin> set b \<Longrightarrow> Cut (b @ sep # a) sep = (b, a, True)"
  by (induction b) auto

lemma Cut_plain: "sep \<notin> set b \<Longrightarrow> Cut b sep = (b, [], False)"
  by (induction b) auto

subsection \<open>Case conversion\<close>

definition is_lower_word :: "string \<Rightarrow> bool" where
  "is_lower_word w \<longleftrightarrow> (\<forall>c \<in> set w. \<not> between CHR ''A'' CHR ''Z'' c)"

lemma char_code_less [simp]: "char_code c < 256"
  by (simp add: char_code_def)

lemma char_code_char_of [simp]: "char_code (char_of n) = n mod 256"
  by (simp add: char_code_def)

lemma char_of_char_code [simp]: "char_of (char_code c) = c"
  by (simp add: char_code_def)

lemma char_code_inj: "char_code c = char_code d \<Longrightarrow> c = d"
  by (metis char_of_char_code)

lemma lower_upper_char:
  "\<not> between CHR ''A'' CHR ''Z'' c \<Longrightarrow> lower_char (upper_char c) = c"
  by (auto simp: lower_char_def upper_char_def between_def char_code_def)

lemma ToLower_ToUpper: "is_lower_word w \<Longrightarrow> ToLower (ToUpper w) = w"
  by (induction w) (auto simp: ToLower_def ToUpper_def is_lower_word_def lower_upper_char)

section \<open>Optional strings of the transport\<close>

text \<open>\<open>optStr\<close> turns an empty string into an absent member, \<open>deref\<close> reads an absent one as empty.\<close>

definition optStr :: "string \<Rightarrow> string option" where
  "optStr s = (if s = [] then None else Some s)"

definition deref :: "string option \<Rightarrow> string" where
  "deref s = (case s of None \<Rightarrow> [] | Some v \<Rightarrow> v)"

lemma deref_simps [simp]: "deref None = []" "deref (Some v) = v"
  by (simp_all add: deref_def)

lemma optStr_simps [simp]: "optStr [] = None" "optStr s = None \<longleftrightarrow> s = []"
  by (simp_all add: optStr_def)

lemma deref_optStr [simp]: "deref (optStr s) = s"
  by (simp add: deref_def optStr_def)

lemma optStr_deref: "v \<noteq> Some [] \<Longrightarrow> optStr (deref v) = v"
  by (cases v) (auto simp: optStr_def)

section \<open>Results of fallible code\<close>

text \<open>
  A Go function with an error result is a value of \<open>'e + 'a\<close>: \<^const>\<open>Inl\<close> is a non-nil
  error, \<^const>\<open>Inr\<close> the value with a nil error. \<open>bindR\<close> is the early return of
  \<open>if err != nil\<close>.
\<close>

definition bindR :: "'e + 'a \<Rightarrow> ('a \<Rightarrow> 'e + 'b) \<Rightarrow> 'e + 'b" where
  "bindR r f = (case r of Inl e \<Rightarrow> Inl e | Inr v \<Rightarrow> f v)"

lemma bindR_simps [simp]: "bindR (Inl e) f = Inl e" "bindR (Inr v) f = f v"
  by (simp_all add: bindR_def)

lemma bindR_Inr [simp]: "bindR r f = Inr w \<longleftrightarrow> (\<exists>v. r = Inr v \<and> f v = Inr w)"
  by (cases r) auto

lemma bindR_Inl: "bindR r f = Inl e \<longleftrightarrow> r = Inl e \<or> (\<exists>v. r = Inr v \<and> f v = Inl e)"
  by (cases r) auto

definition mapR :: "('a \<Rightarrow> 'b) \<Rightarrow> 'e + 'a \<Rightarrow> 'e + 'b" where
  "mapR f r = (case r of Inl e \<Rightarrow> Inl e | Inr v \<Rightarrow> Inr (f v))"

lemma mapR_simps [simp]: "mapR f (Inl e) = Inl e" "mapR f (Inr v) = Inr (f v)"
  by (simp_all add: mapR_def)

lemma mapR_Inr [simp]: "mapR f r = Inr w \<longleftrightarrow> (\<exists>v. r = Inr v \<and> w = f v)"
  by (cases r) auto

lemma mapR_Inl [simp]: "mapR f r = Inl e \<longleftrightarrow> r = Inl e"
  by (cases r) auto

section \<open>Numbers in decimal\<close>

text \<open>The canonical decimal form of a natural number, as the contract's sequences and sizes use it.\<close>

definition digit_char :: "nat \<Rightarrow> char" where
  "digit_char d = char_of (48 + d)"

function dec :: "nat \<Rightarrow> string" where
  "dec n = (if n < 10 then [digit_char n] else dec (n div 10) @ [digit_char (n mod 10)])"
  by pat_completeness auto
termination
  by (relation "measure id") auto

declare dec.simps [simp del]

definition is_digit :: "char \<Rightarrow> bool" where
  "is_digit c = between CHR ''0'' CHR ''9'' c"

definition digit_val :: "char \<Rightarrow> nat" where
  "digit_val c = char_code c - 48"

definition undec :: "string \<Rightarrow> nat" where
  "undec s = foldl (\<lambda>n c. 10 * n + digit_val c) 0 s"

lemma digit_char_0 [simp]: "digit_char 0 = CHR ''0''"
  by code_simp

lemma digit_val_char [simp]: "d < 10 \<Longrightarrow> digit_val (digit_char d) = d"
  by (simp add: digit_val_def digit_char_def)

lemma is_digit_char [simp]: "d < 10 \<Longrightarrow> is_digit (digit_char d)"
  by (simp add: is_digit_def between_def digit_char_def) (simp add: char_code_def)

lemma digit_char_val: "is_digit c \<Longrightarrow> digit_char (digit_val c) = c"
  by (simp add: is_digit_def between_def digit_val_def digit_char_def char_code_def)

lemma digit_val_less: "is_digit c \<Longrightarrow> digit_val c < 10"
  unfolding is_digit_def between_def digit_val_def by (simp add: char_code_def, linarith)

lemma undec_snoc [simp]: "undec (s @ [c]) = 10 * undec s + digit_val c"
  by (simp add: undec_def)

lemma undec_Nil [simp]: "undec [] = 0"
  by (simp add: undec_def)

lemma undec_dec [simp]: "undec (dec n) = n"
proof (induction n rule: dec.induct)
  case (1 n)
  show ?case
  proof (cases "n < 10")
    case True
    then have "undec (dec n) = undec ([] @ [digit_char n])" by (simp add: dec.simps [of n])
    also have "\<dots> = n" using True by (simp only: undec_snoc undec_Nil digit_val_char)
    finally show ?thesis .
  next
    case False
    with 1 show ?thesis by (simp add: dec.simps [of n])
  qed
qed

lemma dec_inj: "dec m = dec n \<Longrightarrow> m = n"
  by (metis undec_dec)

lemma dec_not_Nil [simp]: "dec n \<noteq> []"
  by (simp add: dec.simps [of n])

lemma dec_digits: "c \<in> set (dec n) \<Longrightarrow> is_digit c"
proof (induction n rule: dec.induct)
  case (1 n)
  then show ?case by (cases "n < 10") (auto simp: dec.simps [of n])
qed

section \<open>Step relations\<close>

text \<open>
  A machine is a step relation with the states it can be in. Every step relation of the development is an
  instance: a run stays in these states, and a measure that some step lowers leads to a goal.
\<close>

locale machine =
  fixes move :: "'s \<Rightarrow> 's \<Rightarrow> bool"
    and possible :: "'s \<Rightarrow> bool"
  assumes moves_possible: "possible s \<Longrightarrow> move s t \<Longrightarrow> possible t"
begin

lemma run_possible: "possible s \<Longrightarrow> move\<^sup>*\<^sup>* s t \<Longrightarrow> possible t"
  by (rotate_tac, induction rule: rtranclp_induct) (auto intro: moves_possible)

lemma run_steps_possible: "possible s \<Longrightarrow> (move ^^ n) s t \<Longrightarrow> possible t"
  using run_possible by (blast dest: relpowp_imp_rtranclp)

lemma descends:
  assumes "possible s" "P s"
    and "\<And>s. possible s \<Longrightarrow> P s \<Longrightarrow> \<not> Q s \<Longrightarrow> \<exists>t. move s t \<and> P t \<and> work t < (work s :: nat)"
  shows "\<exists>t. move\<^sup>*\<^sup>* s t \<and> Q t"
  using assms(1,2)
proof (induction "work s" arbitrary: s rule: less_induct)
  case less
  show ?case
  proof (cases "Q s")
    case False
    with assms(3) less.prems obtain t where t: "move s t" "P t" "work t < work s" by blast
    with less.hyps less.prems(1) moves_possible obtain u where "move\<^sup>*\<^sup>* t u" "Q u" by blast
    with t(1) show ?thesis by (meson converse_rtranclp_into_rtranclp)
  qed blast
qed

end

end
