(* ===== verification/Regex.thy ===== *)
theory Regex
  imports Prelude
begin

text \<open>
  The regular expressions the service validates with (package regexp of the standard library),
  as an abstract syntax with an executable matcher and its language, and the five patterns of
  the source: the canonical sequence of a cursor (sse.go), the role name (oidcauth.go), the DNS
  label and trust domain of a workload identity (spiffe.go) and the schema keyword
  (validation.go). Every pattern is anchored with ^ and $, and Go's $ without the m flag matches
  only at the end of the text, so a match is membership of the whole string in the language.
  All classes are ASCII, so matching bytes and matching runes agree.
\<close>

section \<open>Syntax, language, matcher\<close>

datatype rx =
    Eps
  | Cls "char \<Rightarrow> bool"
  | Seq rx rx
  | Alt rx rx
  | Rep nat nat rx
  | Star rx

text \<open>\<open>Rep lo hi r\<close> is \<open>r{lo,hi}\<close>; an optional group is \<open>r{0,1}\<close>.\<close>

fun lang :: "rx \<Rightarrow> string set" where
  "lang Eps = {[]}"
| "lang (Cls P) = {[c] | c. P c}"
| "lang (Seq r q) = {u @ v | u v. u \<in> lang r \<and> v \<in> lang q}"
| "lang (Alt r q) = lang r \<union> lang q"
| "lang (Rep lo hi r) = {concat us | us. set us \<subseteq> lang r \<and> lo \<le> length us \<and> length us \<le> hi}"
| "lang (Star r) = {concat us | us. set us \<subseteq> lang r}"

text \<open>
  The matcher computes the suffixes that remain after a match at the start of the text; a star
  iterates only over strictly shorter suffixes, which is why it stops.
\<close>

primrec weight :: "rx \<Rightarrow> nat" where
  "weight Eps = 0"
| "weight (Cls P) = 0"
| "weight (Seq r q) = Suc (weight r + weight q)"
| "weight (Alt r q) = Suc (weight r + weight q)"
| "weight (Rep lo hi r) = Suc (hi + weight r)"
| "weight (Star r) = Suc (weight r)"

function ends :: "rx \<Rightarrow> string \<Rightarrow> string list" where
  "ends Eps s = [s]"
| "ends (Cls P) s = (case s of [] \<Rightarrow> [] | c # cs \<Rightarrow> if P c then [cs] else [])"
| "ends (Seq r q) s = remdups (concat (map (ends q) (ends r s)))"
| "ends (Alt r q) s = remdups (ends r s @ ends q s)"
| "ends (Rep lo 0 r) s = (if lo = 0 then [s] else [])"
| "ends (Rep lo (Suc hi) r) s =
     remdups ((if lo = 0 then [s] else []) @ concat (map (ends (Rep (lo - 1) hi r)) (ends r s)))"
| "ends (Star r) s =
     remdups (s # concat (map (ends (Star r)) (filter (\<lambda>t. length t < length s) (ends r s))))"
  by pat_completeness auto
termination
  by (relation "inv_image (less_than <*lex*> less_than) (\<lambda>(r, s). (weight r, length s))") auto

declare ends.simps(7) [simp del]

definition matches :: "rx \<Rightarrow> string \<Rightarrow> bool" where
  "matches r s \<longleftrightarrow> [] \<in> set (ends r s)"

section \<open>The matcher decides the language\<close>

lemma rep_zero: "s \<in> lang (Rep lo 0 r) \<longleftrightarrow> lo = 0 \<and> s = []"
  by auto

lemma rep_Suc:
  "s \<in> lang (Rep lo (Suc hi) r) \<longleftrightarrow>
     (lo = 0 \<and> s = []) \<or> (\<exists>u v. s = u @ v \<and> u \<in> lang r \<and> v \<in> lang (Rep (lo - 1) hi r))"
  (is "?L \<longleftrightarrow> ?A \<or> ?B")
proof
  assume ?L
  then obtain us where us: "s = concat us" "set us \<subseteq> lang r" "lo \<le> length us" "length us \<le> Suc hi"
    by auto
  show "?A \<or> ?B"
  proof (cases us)
    case Nil
    with us show ?thesis by simp
  next
    case (Cons u vs)
    with us have "u \<in> lang r" "concat vs \<in> lang (Rep (lo - 1) hi r)" "s = u @ concat vs"
      by auto
    then show ?thesis by blast
  qed
next
  assume "?A \<or> ?B"
  then show ?L
  proof
    assume ?A
    then show ?L by (auto intro: exI [of _ "[]"])
  next
    assume ?B
    then obtain u us where "s = u @ concat us" "u \<in> lang r" "set us \<subseteq> lang r"
      "lo - 1 \<le> length us" "length us \<le> hi" by auto
    then have "s = concat (u # us) \<and> set (u # us) \<subseteq> lang r \<and> lo \<le> length (u # us) \<and> length (u # us) \<le> Suc hi"
      by auto
    then show ?L unfolding lang.simps by blast
  qed
qed

text \<open>A star match may always be taken to consume something in each round.\<close>

lemma star_step:
  "s \<in> lang (Star r) \<longleftrightarrow>
     s = [] \<or> (\<exists>u v. s = u @ v \<and> u \<noteq> [] \<and> u \<in> lang r \<and> v \<in> lang (Star r))"
  (is "?L \<longleftrightarrow> ?R")
proof
  assume ?L
  then obtain us where "s = concat us" "set us \<subseteq> lang r" by auto
  then show ?R
  proof (induction us arbitrary: s)
    case (Cons u us)
    show ?case
    proof (cases "u = []")
      case True
      with Cons show ?thesis by auto
    next
      case False
      with Cons.prems show ?thesis by auto
    qed
  qed simp
next
  assume ?R
  then show ?L
  proof
    assume "s = []"
    then show ?L by (auto intro: exI [of _ "[]"])
  next
    assume "\<exists>u v. s = u @ v \<and> u \<noteq> [] \<and> u \<in> lang r \<and> v \<in> lang (Star r)"
    then obtain u us where "s = concat (u # us)" "set (u # us) \<subseteq> lang r" by auto
    then show ?L unfolding lang.simps by blast
  qed
qed

definition splits_off :: "rx \<Rightarrow> string \<Rightarrow> string set" where
  "splits_off r s = {t. \<exists>u. u \<in> lang r \<and> s = u @ t}"

lemma splits_off_rep_Suc:
  "splits_off (Rep lo (Suc hi) r) s =
     (if lo = 0 then {s} else {}) \<union> (\<Union>t \<in> splits_off r s. splits_off (Rep (lo - 1) hi r) t)"
  unfolding splits_off_def rep_Suc by (auto simp del: lang.simps) (metis append_assoc)+

lemma splits_off_star:
  "splits_off (Star r) s =
     insert s (\<Union>t \<in> {t \<in> splits_off r s. length t < length s}. splits_off (Star r) t)"
  (is "?L = ?R")
proof
  show "?L \<subseteq> ?R"
  proof
    fix t
    assume "t \<in> ?L"
    then obtain w where w: "w \<in> lang (Star r)" "s = w @ t" by (auto simp: splits_off_def)
    from star_step [THEN iffD1, OF w(1)] show "t \<in> ?R"
    proof
      assume "w = []"
      with w show ?thesis by simp
    next
      assume "\<exists>u v. w = u @ v \<and> u \<noteq> [] \<and> u \<in> lang r \<and> v \<in> lang (Star r)"
      then obtain u v where "w = u @ v" "u \<noteq> []" "u \<in> lang r" "v \<in> lang (Star r)" by blast
      with w(2) have "v @ t \<in> splits_off r s" "length (v @ t) < length s" "t \<in> splits_off (Star r) (v @ t)"
        by (auto simp: splits_off_def simp del: lang.simps)
      then show ?thesis by blast
    qed
  qed
next
  show "?R \<subseteq> ?L"
  proof
    fix t
    assume "t \<in> ?R"
    then consider "t = s" | u v where "u \<in> lang r" "v \<in> lang (Star r)" "s = u @ v @ t" "u \<noteq> []"
      by (auto simp: splits_off_def simp del: lang.simps)
    then show "t \<in> ?L"
    proof cases
      case 1
      have "[] \<in> lang (Star r)" by (rule star_step [of "[]" r, THEN iffD2]) simp
      with 1 show ?thesis unfolding splits_off_def by (metis (mono_tags, lifting) append_Nil mem_Collect_eq)
    next
      case 2
      then have "\<exists>a b. u @ v = a @ b \<and> a \<noteq> [] \<and> a \<in> lang r \<and> b \<in> lang (Star r)" by blast
      then have "u @ v \<in> lang (Star r)" by (rule star_step [of "u @ v" r, THEN iffD2, OF disjI2])
      moreover have "s = (u @ v) @ t" using 2 by simp
      ultimately show ?thesis unfolding splits_off_def by (intro CollectI exI [of _ "u @ v"] conjI)
    qed
  qed
qed

lemma splits_off_seq: "splits_off (Seq r q) s = (\<Union>t \<in> splits_off r s. splits_off q t)"
proof
  show "splits_off (Seq r q) s \<subseteq> (\<Union>t \<in> splits_off r s. splits_off q t)"
  proof
    fix t
    assume "t \<in> splits_off (Seq r q) s"
    then obtain u v where "u \<in> lang r" "v \<in> lang q" "s = u @ v @ t" by (auto simp: splits_off_def)
    then have "v @ t \<in> splits_off r s" "t \<in> splits_off q (v @ t)" by (auto simp: splits_off_def)
    then show "t \<in> (\<Union>t \<in> splits_off r s. splits_off q t)" by blast
  qed
next
  show "(\<Union>t \<in> splits_off r s. splits_off q t) \<subseteq> splits_off (Seq r q) s"
    by (fastforce simp: splits_off_def)
qed

lemma set_ends: "set (ends r s) = splits_off r s"
proof (induction r s rule: ends.induct)
  case (2 P s)
  then show ?case by (cases s) (auto simp: splits_off_def)
next
  case (3 r q s)
  then have "set (ends (Seq r q) s) = (\<Union>t \<in> splits_off r s. splits_off q t)" by auto
  also have "\<dots> = splits_off (Seq r q) s"
    by (rule splits_off_seq [symmetric])
  finally show ?case .
next
  case (5 lo r s)
  then show ?case by (auto simp: splits_off_def rep_zero simp del: lang.simps)
next
  case (6 lo hi r s)
  then have "set (ends (Rep lo (Suc hi) r) s) =
    (if lo = 0 then {s} else {}) \<union> (\<Union>t \<in> splits_off r s. splits_off (Rep (lo - 1) hi r) t)" by auto
  then show ?case by (simp only: splits_off_rep_Suc)
next
  case (7 r s)
  then have "set (ends (Star r) s) =
    insert s (\<Union>t \<in> {t \<in> splits_off r s. length t < length s}. splits_off (Star r) t)"
    unfolding ends.simps(7) [of r s] by auto
  then show ?case by (simp only: splits_off_star [of r s])
next
  case (1 s)
  show ?case by (auto simp: splits_off_def)
next
  case (4 r q s)
  then show ?case by (auto simp: splits_off_def)
qed

lemma matches_lang: "matches r s \<longleftrightarrow> s \<in> lang r"
  by (auto simp: matches_def set_ends splits_off_def)

section \<open>Languages of the shapes the patterns use\<close>

lemma lang_rep_cls: "lang (Rep lo hi (Cls P)) = {s. lo \<le> length s \<and> length s \<le> hi \<and> list_all P s}"
  (is "?L = ?R")
proof
  have "set us \<subseteq> {[c] | c. P c} \<Longrightarrow> length (concat us) = length us \<and> list_all P (concat us)" for us
    by (induction us) auto
  then show "?L \<subseteq> ?R" by auto
next
  show "?R \<subseteq> ?L"
  proof
    fix s
    assume "s \<in> ?R"
    then have "s = concat (map (\<lambda>c. [c]) s) \<and> set (map (\<lambda>c. [c]) s) \<subseteq> lang (Cls P) \<and>
        lo \<le> length (map (\<lambda>c. [c]) s) \<and> length (map (\<lambda>c. [c]) s) \<le> hi"
      by (auto simp: list_all_iff)
    then show "s \<in> ?L" unfolding lang.simps(5) by blast
  qed
qed

lemma lang_cls_seq: "s \<in> lang (Seq (Cls P) r) \<longleftrightarrow> (\<exists>c t. s = c # t \<and> P c \<and> t \<in> lang r)"
  by auto (metis append_Cons append_Nil)

lemma lang_seq_cls: "s \<in> lang (Seq r (Cls P)) \<longleftrightarrow> (\<exists>m d. s = m @ [d] \<and> m \<in> lang r \<and> P d)"
  by auto

lemma lang_opt: "lang (Rep 0 1 r) = insert [] (lang r)"
proof -
  have "s \<in> lang (Rep 0 (Suc 0) r) \<longleftrightarrow> s = [] \<or> s \<in> lang r" for s
    unfolding rep_Suc by auto
  then show ?thesis unfolding One_nat_def by blast
qed

end
