(* ===== verification/Patterns.thy ===== *)
theory Patterns
  imports Regex
begin

text \<open>
  The validation patterns of the source and what each accepts, in words a reader can check
  without the regular expression: a canonical sequence is the decimal form of a number below
  10^20, a DNS label has 1 to 63 letters, digits and inner hyphens, a trust domain is a
  dot-separated list of labels.
\<close>

definition class_azn :: "char \<Rightarrow> bool" where
  "class_azn c \<longleftrightarrow> between CHR ''a'' CHR ''z'' c \<or> between CHR ''0'' CHR ''9'' c"

definition class_azn_hyphen :: "char \<Rightarrow> bool" where
  "class_azn_hyphen c \<longleftrightarrow> c = CHR ''-'' \<or> class_azn c"

definition class_role :: "char \<Rightarrow> bool" where
  "class_role c \<longleftrightarrow> class_azn c \<or> c = CHR ''_'' \<or> c = CHR ''-''"

definition class_letter :: "char \<Rightarrow> bool" where
  "class_letter c \<longleftrightarrow> between CHR ''A'' CHR ''Z'' c \<or> between CHR ''a'' CHR ''z'' c"

definition class_nonzero :: "char \<Rightarrow> bool" where
  "class_nonzero c \<longleftrightarrow> between CHR ''1'' CHR ''9'' c"

definition sequencePattern :: rx where
  "sequencePattern = Alt (Cls (\<lambda>c. c = CHR ''0'')) (Seq (Cls class_nonzero) (Rep 0 19 (Cls is_digit)))"

definition role :: rx where
  "role = Seq (Cls (between CHR ''a'' CHR ''z'')) (Rep 0 63 (Cls class_role))"

definition label :: rx where
  "label = Seq (Cls class_azn) (Rep 0 1 (Seq (Rep 0 61 (Cls class_azn_hyphen)) (Cls class_azn)))"

definition trustDomain :: rx where
  "trustDomain = Seq label (Star (Seq (Cls (\<lambda>c. c = CHR ''.'')) label))"

definition schemaKeyword :: rx where
  "schemaKeyword = Rep 1 32 (Cls class_letter)"

lemmas class_defs = class_azn_def class_azn_hyphen_def class_role_def class_letter_def
  class_nonzero_def is_digit_def between_def

section \<open>Canonical sequences\<close>

lemma class_nonzero_iff: "class_nonzero c \<longleftrightarrow> is_digit c \<and> c \<noteq> CHR ''0''"
proof -
  have "char_code c = 48 \<longleftrightarrow> c = CHR ''0''"
    using char_code_inj [of c "CHR ''0''"] by (auto simp: char_code_def)
  then show ?thesis by (auto simp: class_defs char_code_def)
qed

lemma matches_sequence:
  "matches sequencePattern s \<longleftrightarrow>
     s = ''0'' \<or> (\<exists>c t. s = c # t \<and> class_nonzero c \<and> length t \<le> 19 \<and> list_all is_digit t)"
  unfolding matches_lang sequencePattern_def lang.simps(4) Un_iff lang_cls_seq lang_rep_cls by auto

lemma dec_undec:
  "is_digit c \<Longrightarrow> c \<noteq> CHR ''0'' \<Longrightarrow> list_all is_digit t \<Longrightarrow> dec (undec (c # t)) = c # t \<and> 0 < undec (c # t)"
proof (induction t rule: rev_induct)
  case Nil
  then have "digit_val c \<noteq> 0"
    using digit_char_val [of c] by (metis digit_char_0)
  moreover have "undec [c] = digit_val c" using undec_snoc [of "[]" c] by simp
  ultimately show ?case
    using Nil digit_val_less [of c] digit_char_val [of c] by (simp add: dec.simps)
next
  case (snoc d t)
  then have IH: "dec (undec (c # t)) = c # t" "0 < undec (c # t)" and d: "is_digit d" by auto
  have eq: "undec (c # t @ [d]) = 10 * undec (c # t) + digit_val d"
    using undec_snoc [of "c # t" d] by simp
  have "digit_val d < 10" using d by (rule digit_val_less)
  then have "(10 * undec (c # t) + digit_val d) div 10 = undec (c # t)"
    "(10 * undec (c # t) + digit_val d) mod 10 = digit_val d" "\<not> 10 * undec (c # t) + digit_val d < 10"
    using IH(2) by auto
  then have "dec (undec (c # t @ [d])) = dec (undec (c # t)) @ [digit_char (digit_val d)]"
    unfolding eq by (subst dec.simps) simp
  then show ?case using IH d eq by (simp add: digit_char_val)
qed

lemma undec_bound: "list_all is_digit s \<Longrightarrow> undec s < 10 ^ length s"
proof (induction s rule: rev_induct)
  case (snoc c s)
  then show ?case using digit_val_less [of c] by simp
qed simp

lemma dec_shape:
  "0 < n \<Longrightarrow> n < 10 ^ Suc k \<Longrightarrow> \<exists>c t. dec n = c # t \<and> class_nonzero c \<and> length t \<le> k \<and> list_all is_digit t"
proof (induction n arbitrary: k rule: dec.induct)
  case (1 n)
  show ?case
  proof (cases "n < 10")
    case True
    have "char_code (digit_char n) = 48 + n" using True by (simp add: digit_char_def)
    with True 1 have "class_nonzero (digit_char n)"
      by (simp add: class_nonzero_def between_def char_code_def)
    with True show ?thesis by (simp add: dec.simps [of n])
  next
    case False
    then obtain k' where k: "k = Suc k'" using 1(3) by (cases k) auto
    have "n div 10 < 10 ^ Suc k'" "0 < n div 10" using 1 False k by auto
    then obtain c t where ct: "dec (n div 10) = c # t" "class_nonzero c" "length t \<le> k'" "list_all is_digit t"
      using 1(1) [OF False] by blast
    have "dec n = c # t @ [digit_char (n mod 10)]" using False ct by (simp add: dec.simps [of n])
    moreover have "length (t @ [digit_char (n mod 10)]) \<le> k" "list_all is_digit (t @ [digit_char (n mod 10)])"
      using ct k by auto
    ultimately show ?thesis using ct(2) by blast
  qed
qed

lemma matches_sequence_iff: "matches sequencePattern s \<longleftrightarrow> (\<exists>n < 10 ^ 20. s = dec n)"
proof
  assume "matches sequencePattern s"
  then consider "s = ''0''" | c t where "s = c # t" "class_nonzero c" "length t \<le> 19" "list_all is_digit t"
    unfolding matches_sequence by blast
  then show "\<exists>n < 10 ^ 20. s = dec n"
  proof cases
    case 1
    have "dec 0 = ''0''" by (simp add: dec.simps)
    with 1 show ?thesis by (metis zero_less_power zero_less_numeral)
  next
    case 2
    then have "is_digit c" "c \<noteq> CHR ''0''" by (auto simp: class_nonzero_iff)
    then have "dec (undec s) = s" using dec_undec 2 by blast
    moreover have "undec s < 10 ^ length s" using 2 \<open>is_digit c\<close> by (intro undec_bound) simp
    moreover have "(10::nat) ^ length s \<le> 10 ^ 20" using 2 by (intro power_increasing) auto
    ultimately show ?thesis by (metis order_less_le_trans)
  qed
next
  assume "\<exists>n < 10 ^ 20. s = dec n"
  then obtain n where n: "n < 10 ^ 20" "s = dec n" by blast
  show "matches sequencePattern s"
  proof (cases "n = 0")
    case True
    with n show ?thesis by (simp add: matches_sequence dec.simps [of 0])
  next
    case False
    with n dec_shape [of n 19] show ?thesis unfolding matches_sequence by auto
  qed
qed

section \<open>DNS labels and trust domains\<close>

lemma lang_cls_iff: "s \<in> lang (Cls P) \<longleftrightarrow> (\<exists>c. s = [c] \<and> P c)"
  by auto

lemma lang_label:
  "lang label = {s. s \<noteq> [] \<and> length s \<le> 63 \<and> class_azn (hd s) \<and> class_azn (last s) \<and> list_all class_azn_hyphen s}"
  (is "?L = ?R")
proof -
  have sub: "class_azn c \<Longrightarrow> class_azn_hyphen c" for c by (simp add: class_azn_hyphen_def)
  have "s \<in> ?L \<longleftrightarrow> (\<exists>c. class_azn c \<and> (s = [c] \<or> (\<exists>m d. s = c # m @ [d] \<and> length m \<le> 61 \<and> list_all class_azn_hyphen m \<and> class_azn d)))" for s
    unfolding label_def lang_cls_seq lang_opt insert_iff lang_seq_cls lang_rep_cls by auto
  also have "\<dots> s \<longleftrightarrow> s \<in> ?R" for s
  proof
    assume "\<exists>c. class_azn c \<and> (s = [c] \<or> (\<exists>m d. s = c # m @ [d] \<and> length m \<le> 61 \<and> list_all class_azn_hyphen m \<and> class_azn d))"
    then show "s \<in> ?R" using sub by auto
  next
    assume R: "s \<in> ?R"
    then obtain c t where s: "s = c # t" by (cases s) auto
    show "\<exists>c. class_azn c \<and> (s = [c] \<or> (\<exists>m d. s = c # m @ [d] \<and> length m \<le> 61 \<and> list_all class_azn_hyphen m \<and> class_azn d))"
    proof (cases t rule: rev_cases)
      case Nil
      with R s show ?thesis by auto
    next
      case (snoc m d)
      with R s show ?thesis by auto
    qed
  qed
  finally show ?thesis by blast
qed

lemma matches_label:
  "matches label s \<longleftrightarrow>
     s \<noteq> [] \<and> length s \<le> 63 \<and> class_azn (hd s) \<and> class_azn (last s) \<and> list_all class_azn_hyphen s"
  by (simp add: matches_lang lang_label)

lemma label_chars: "matches label s \<Longrightarrow> c \<in> set s \<Longrightarrow> class_azn_hyphen c"
  by (auto simp: matches_label list_all_iff)

lemma label_no_special:
  assumes "matches label s"
  shows "CHR ''.'' \<notin> set s" "CHR ''/'' \<notin> set s" "CHR '':'' \<notin> set s" "CHR ''*'' \<notin> set s"
proof -
  have "\<not> class_azn_hyphen CHR ''.''" "\<not> class_azn_hyphen CHR ''/''" "\<not> class_azn_hyphen CHR '':''"
    "\<not> class_azn_hyphen CHR ''*''"
    by (simp_all add: class_defs char_code_def)
  then show "CHR ''.'' \<notin> set s" "CHR ''/'' \<notin> set s" "CHR '':'' \<notin> set s" "CHR ''*'' \<notin> set s"
    using label_chars [OF assms] by blast+
qed

lemma lang_dotted:
  "s \<in> lang (Star (Seq (Cls (\<lambda>c. c = CHR ''.'')) label)) \<longleftrightarrow>
     (\<exists>ps. s = concat (map (\<lambda>p. CHR ''.'' # p) ps) \<and> set ps \<subseteq> lang label)"
  (is "?L \<longleftrightarrow> ?R")
proof
  assume ?L
  then obtain us where "s = concat us" "set us \<subseteq> lang (Seq (Cls (\<lambda>c. c = CHR ''.'')) label)"
    unfolding lang.simps(6) by blast
  then show ?R
  proof (induction us arbitrary: s)
    case Nil
    then show ?case by (auto intro: exI [of _ "[]"])
  next
    case (Cons u us)
    then obtain p where u: "u = CHR ''.'' # p" "p \<in> lang label" by auto
    from Cons obtain ps where "concat us = concat (map (\<lambda>p. CHR ''.'' # p) ps)" "set ps \<subseteq> lang label"
      by (auto simp del: lang.simps)
    with u Cons.prems have "s = concat (map (\<lambda>p. CHR ''.'' # p) (p # ps)) \<and> set (p # ps) \<subseteq> lang label" by simp
    then show ?case by blast
  qed
next
  assume ?R
  then obtain ps where "s = concat (map (\<lambda>p. CHR ''.'' # p) ps)" "set ps \<subseteq> lang label" by blast
  then show ?L unfolding lang.simps(6) by (intro CollectI exI [of _ "map (\<lambda>p. CHR ''.'' # p) ps"]) auto
qed

lemma Join_dots: "Join sep (p # ps) = p @ concat (map (\<lambda>q. sep # q) ps)"
  by (induction ps arbitrary: p) auto

lemma matches_trustDomain:
  "matches trustDomain s \<longleftrightarrow> (\<forall>p \<in> set (Split CHR ''.'' s). matches label p)"
proof
  assume "matches trustDomain s"
  then obtain p ps where "s = Join CHR ''.'' (p # ps)" and lab: "set (p # ps) \<subseteq> lang label"
    unfolding matches_lang trustDomain_def lang.simps(3) lang_dotted Join_dots by auto
  moreover from lab have nodot: "q \<in> set (p # ps) \<Longrightarrow> CHR ''.'' \<notin> set q" for q
    using label_no_special [unfolded matches_lang] by blast
  ultimately have "Split CHR ''.'' s = p # ps" using Split_Join [of "p # ps" "CHR ''.''"] by simp
  with lab show "\<forall>p \<in> set (Split CHR ''.'' s). matches label p" by (auto simp: matches_lang)
next
  assume lab: "\<forall>p \<in> set (Split CHR ''.'' s). matches label p"
  obtain p ps where sp: "Split CHR ''.'' s = p # ps" by (cases "Split CHR ''.'' s") auto
  have "s = p @ concat (map (\<lambda>q. CHR ''.'' # q) ps)"
    using Join_Split [of "CHR ''.''" s] unfolding sp Join_dots by simp
  moreover have "set (p # ps) \<subseteq> lang label" using lab sp by (auto simp: matches_lang)
  ultimately show "matches trustDomain s"
    unfolding matches_lang trustDomain_def lang.simps(3) lang_dotted by auto
qed

lemma trustDomain_no_special:
  assumes "matches trustDomain s"
  shows "CHR ''/'' \<notin> set s" "CHR '':'' \<notin> set s" "s \<noteq> []"
proof -
  have parts: "c \<in> set s \<Longrightarrow> c \<noteq> CHR ''.'' \<Longrightarrow> \<exists>p \<in> set (Split CHR ''.'' s). c \<in> set p" for c
  proof (induction s)
    case (Cons a s)
    then show ?case by (cases "Split CHR ''.'' s") (auto split: if_splits)
  qed simp
  from assms have "\<forall>p \<in> set (Split CHR ''.'' s). matches label p" by (simp only: matches_trustDomain)
  with parts label_no_special show "CHR ''/'' \<notin> set s" "CHR '':'' \<notin> set s" by fastforce+
  show "s \<noteq> []" using assms by (auto simp: matches_trustDomain matches_label)
qed

section \<open>Role names and schema keywords\<close>

lemma matches_role:
  "matches role s \<longleftrightarrow>
     (\<exists>c t. s = c # t \<and> between CHR ''a'' CHR ''z'' c \<and> length t \<le> 63 \<and> list_all class_role t)"
  unfolding matches_lang role_def lang_cls_seq lang_rep_cls by auto

lemma matches_schemaKeyword:
  "matches schemaKeyword s \<longleftrightarrow> 1 \<le> length s \<and> length s \<le> 32 \<and> list_all class_letter s"
  by (simp add: matches_lang schemaKeyword_def lang_rep_cls del: lang.simps(5))

end
