(* ===== verification/Json.thy ===== *)
theory Json
  imports Patterns
begin

text \<open>
  Request bodies: the strict decoding of internal/transport/http/server.go (strictDecode,
  decodeValue, jsonError) and the canonical digest of internal/application/principal.go
  (CanonicalDigest).

  The standard library's encoding/json.Decoder is modelled at the level of lexemes: the bytes
  of a body, split by the library's scanner into delimiters, complete scalars and, where the
  scanner refuses, a bad lexeme; every lexeme carries the byte offset it starts at. On lexemes
  the decoder's own token state machine (Token, More, tokenState, tokenStack) is written out,
  because decodeValue relies on it for the placement of commas and colons. Token's loop over a
  comma or a colon is recursion on the input; decodeValue is called with fuel, and
  \<open>strictDecode\<close> gives it one unit more than twice the number of lexemes, which is enough
  (\<open>decode_no_fuel_error\<close>): every value consumes a lexeme, and at most two nested calls
  happen per lexeme.

  A JSON object is the list of its members in the order of the document; Go's map has no order,
  so only facts that do not depend on it are claimed of an object (\<open>same_doc\<close>).
\<close>

section \<open>Documents and lexemes\<close>

datatype json =
    JNull
  | JBool bool
  | JNum string
  | JStr string
  | JArr "json list"
  | JObj "(string \<times> json) list"

datatype json_err =
    SyntaxErr nat
  | EOF
  | UnexpectedEOF
  | DuplicateMember
  | UnexpectedDelim
  | OutOfFuel

datatype lexeme =
    LBrace | RBrace | LBrack | RBrack | Comma | Colon
  | LStr string
  | LNum string
  | LBool bool
  | LNull
  | LBad bool "nat option"

type_synonym input = "(nat \<times> lexeme) list"

text \<open>
  \<open>LBad q e\<close>: bytes at which reading a scalar fails, with a syntax error at an offset or,
  for \<^const>\<open>None\<close>, because the body ends; \<open>q\<close> says that they start with a quote.
\<close>

definition bad_error :: "nat option \<Rightarrow> json_err" where
  "bad_error e = (case e of None \<Rightarrow> UnexpectedEOF | Some off \<Rightarrow> SyntaxErr off)"

section \<open>The decoder's token machine\<close>

datatype tstate =
    TopValue | ArrayStart | ArrayValue | ArrayComma | ObjectStart | ObjectKey | ObjectColon
  | ObjectValue | ObjectComma

record decoder =
  toks :: input
  tokenState :: tstate
  tokenStack :: "tstate list"

datatype token = Delim lexeme | Scalar json

definition valueAllowed :: "tstate \<Rightarrow> bool" where
  "valueAllowed st \<longleftrightarrow> st \<in> {TopValue, ArrayStart, ArrayValue, ObjectValue}"

fun valueEnd :: "tstate \<Rightarrow> tstate" where
  "valueEnd ArrayStart = ArrayComma"
| "valueEnd ArrayValue = ArrayComma"
| "valueEnd ObjectValue = ObjectComma"
| "valueEnd st = st"

definition emit_scalar :: "nat \<Rightarrow> json \<Rightarrow> input \<Rightarrow> tstate \<Rightarrow> tstate list \<Rightarrow> json_err + token \<times> decoder" where
  "emit_scalar off v rest st stk =
     (if valueAllowed st then Inr (Scalar v, \<lparr>toks = rest, tokenState = valueEnd st, tokenStack = stk\<rparr>)
      else Inl (SyntaxErr off))"

definition open_delim :: "nat \<Rightarrow> lexeme \<Rightarrow> tstate \<Rightarrow> input \<Rightarrow> tstate \<Rightarrow> tstate list \<Rightarrow> json_err + token \<times> decoder" where
  "open_delim off l start rest st stk =
     (if valueAllowed st then Inr (Delim l, \<lparr>toks = rest, tokenState = start, tokenStack = st # stk\<rparr>)
      else Inl (SyntaxErr off))"

definition close_delim :: "nat \<Rightarrow> lexeme \<Rightarrow> tstate set \<Rightarrow> input \<Rightarrow> tstate \<Rightarrow> tstate list \<Rightarrow> json_err + token \<times> decoder" where
  "close_delim off l ok rest st stk =
     (if st \<in> ok then
        (case stk of
           [] \<Rightarrow> Inl (SyntaxErr off)
         | outer # below \<Rightarrow> Inr (Delim l, \<lparr>toks = rest, tokenState = valueEnd outer, tokenStack = below\<rparr>))
      else Inl (SyntaxErr off))"

fun Token_at :: "input \<Rightarrow> tstate \<Rightarrow> tstate list \<Rightarrow> json_err + token \<times> decoder" where
  "Token_at [] st stk = Inl EOF"
| "Token_at ((off, LBrack) # rest) st stk = open_delim off LBrack ArrayStart rest st stk"
| "Token_at ((off, RBrack) # rest) st stk = close_delim off RBrack {ArrayStart, ArrayComma} rest st stk"
| "Token_at ((off, LBrace) # rest) st stk = open_delim off LBrace ObjectStart rest st stk"
| "Token_at ((off, RBrace) # rest) st stk = close_delim off RBrace {ObjectStart, ObjectComma} rest st stk"
| "Token_at ((off, Colon) # rest) st stk =
     (if st = ObjectColon then Token_at rest ObjectValue stk else Inl (SyntaxErr off))"
| "Token_at ((off, Comma) # rest) st stk =
     (if st = ArrayComma then Token_at rest ArrayValue stk
      else if st = ObjectComma then Token_at rest ObjectKey stk
      else Inl (SyntaxErr off))"
| "Token_at ((off, LStr s) # rest) st stk =
     (if st = ObjectStart \<or> st = ObjectKey
      then Inr (Scalar (JStr s), \<lparr>toks = rest, tokenState = ObjectColon, tokenStack = stk\<rparr>)
      else emit_scalar off (JStr s) rest st stk)"
| "Token_at ((off, LNum n) # rest) st stk = emit_scalar off (JNum n) rest st stk"
| "Token_at ((off, LBool b) # rest) st stk = emit_scalar off (JBool b) rest st stk"
| "Token_at ((off, LNull) # rest) st stk = emit_scalar off JNull rest st stk"
| "Token_at ((off, LBad q e) # rest) st stk =
     (if valueAllowed st \<or> (q \<and> (st = ObjectStart \<or> st = ObjectKey)) then Inl (bad_error e) else Inl (SyntaxErr off))"

definition Token :: "decoder \<Rightarrow> json_err + token \<times> decoder" where
  "Token d = Token_at (toks d) (tokenState d) (tokenStack d)"

definition More :: "decoder \<Rightarrow> bool" where
  "More d = (case toks d of [] \<Rightarrow> False | (off, l) # rest \<Rightarrow> l \<noteq> RBrack \<and> l \<noteq> RBrace)"

definition NewDecoder :: "input \<Rightarrow> decoder" where
  "NewDecoder ls = \<lparr>toks = ls, tokenState = TopValue, tokenStack = []\<rparr>"

section \<open>decodeValue and strictDecode\<close>

definition key_of :: "token \<Rightarrow> string" where
  "key_of t = (case t of Scalar (JStr s) \<Rightarrow> s | _ \<Rightarrow> [])"

fun decodeValue :: "nat \<Rightarrow> decoder \<Rightarrow> json_err + json \<times> decoder"
  and decodeMembers :: "nat \<Rightarrow> (string \<times> json) list \<Rightarrow> decoder \<Rightarrow> json_err + (string \<times> json) list \<times> decoder"
  and decodeElements :: "nat \<Rightarrow> json list \<Rightarrow> decoder \<Rightarrow> json_err + json list \<times> decoder" where
  "decodeValue 0 d = Inl OutOfFuel"
| "decodeValue (Suc n) d =
     bindR (Token d) (\<lambda>(t, d1).
       case t of
         Delim LBrace \<Rightarrow> bindR (decodeMembers n [] d1) (\<lambda>(ms, d2). mapR (\<lambda>(_, d3). (JObj ms, d3)) (Token d2))
       | Delim LBrack \<Rightarrow> bindR (decodeElements n [] d1) (\<lambda>(vs, d2). mapR (\<lambda>(_, d3). (JArr vs, d3)) (Token d2))
       | Delim _ \<Rightarrow> Inl UnexpectedDelim
       | Scalar v \<Rightarrow> Inr (v, d1))"
| "decodeMembers 0 obj d = Inl OutOfFuel"
| "decodeMembers (Suc n) obj d =
     (if More d then
        bindR (Token d) (\<lambda>(kt, d1).
          if key_of kt \<in> fst ` set obj then Inl DuplicateMember
          else bindR (decodeValue n d1) (\<lambda>(v, d2). decodeMembers n (obj @ [(key_of kt, v)]) d2))
      else Inr (obj, d))"
| "decodeElements 0 arr d = Inl OutOfFuel"
| "decodeElements (Suc n) arr d =
     (if More d then bindR (decodeValue n d) (\<lambda>(v, d1). decodeElements n (arr @ [v]) d1)
      else Inr (arr, d))"

text \<open>The refusals of strictDecode, with the messages jsonError and strictDecode give them.\<close>

definition jsonError :: "json_err \<Rightarrow> string" where
  "jsonError e =
     (case e of
        DuplicateMember \<Rightarrow> ''invalid JSON: duplicate member''
      | SyntaxErr off \<Rightarrow> ''invalid JSON at byte '' @ dec off
      | _ \<Rightarrow> ''invalid JSON'')"

definition strictDecode :: "input \<Rightarrow> string + json" where
  "strictDecode ls =
     (case decodeValue (Suc (2 * length ls)) (NewDecoder ls) of
        Inl e \<Rightarrow> Inl (jsonError e)
      | Inr (v, d) \<Rightarrow>
          if Token d = Inl EOF then Inr v else Inl ''invalid JSON: trailing data after the document'')"

section \<open>Rendering\<close>

text \<open>The lexemes of a document, in order, without insignificant white space.\<close>

fun sep_by :: "lexeme \<Rightarrow> lexeme list list \<Rightarrow> lexeme list" where
  "sep_by s [] = []"
| "sep_by s [x] = x"
| "sep_by s (x # y # ys) = x @ s # sep_by s (y # ys)"

fun render :: "json \<Rightarrow> lexeme list" where
  "render JNull = [LNull]"
| "render (JBool b) = [LBool b]"
| "render (JNum n) = [LNum n]"
| "render (JStr s) = [LStr s]"
| "render (JArr vs) = LBrack # sep_by Comma (map render vs) @ [RBrack]"
| "render (JObj ms) = LBrace # sep_by Comma (map (\<lambda>(k, v). LStr k # Colon # render v) ms) @ [RBrace]"

text \<open>No object of the document has a member twice.\<close>

fun strict_doc :: "json \<Rightarrow> bool" where
  "strict_doc (JArr vs) = list_all strict_doc vs"
| "strict_doc (JObj ms) = (distinct (map fst ms) \<and> list_all (\<lambda>(k, v). strict_doc v) ms)"
| "strict_doc _ = True"

section \<open>The decoder accepts exactly the duplicate-free documents\<close>

text \<open>What precedes a value in a token state, and the state after it.\<close>

fun lead :: "tstate \<Rightarrow> lexeme list" where
  "lead ArrayComma = [Comma]"
| "lead ObjectColon = [Colon]"
| "lead st = []"

fun after :: "tstate \<Rightarrow> tstate" where
  "after ArrayComma = ArrayComma"
| "after ObjectColon = ObjectComma"
| "after st = valueEnd st"

definition value_pos :: "tstate \<Rightarrow> bool" where
  "value_pos st \<longleftrightarrow> valueAllowed st \<or> st = ArrayComma \<or> st = ObjectColon"

definition dec_at :: "input \<Rightarrow> tstate \<Rightarrow> tstate list \<Rightarrow> decoder" where
  "dec_at ls st stk = \<lparr>toks = ls, tokenState = st, tokenStack = stk\<rparr>"

lemma dec_at_sel [simp]:
  "toks (dec_at ls st stk) = ls" "tokenState (dec_at ls st stk) = st" "tokenStack (dec_at ls st stk) = stk"
  by (simp_all add: dec_at_def)

lemma dec_at_cases: obtains ls st stk where "d = dec_at ls st stk"
  by (cases d) (simp add: dec_at_def)

lemma Token_dec_at [simp]: "Token (dec_at ls st stk) = Token_at ls st stk"
  by (simp add: Token_def)

text \<open>Token consumes at least one lexeme.\<close>

lemma Token_at_shorter: "Token_at ls st stk = Inr (t, d) \<Longrightarrow> length (toks d) < length ls"
  by (induction ls st stk rule: Token_at.induct)
     (auto simp: emit_scalar_def open_delim_def close_delim_def split: if_splits list.splits)

lemma Token_shorter: "Token d = Inr (t, d') \<Longrightarrow> length (toks d') < length (toks d)"
  unfolding Token_def by (rule Token_at_shorter)

lemma Token_no_fuel_error [simp]: "Token d \<noteq> Inl OutOfFuel"
proof -
  have "Token_at ls st stk \<noteq> Inl OutOfFuel" for ls st stk
    by (induction ls st stk rule: Token_at.induct)
       (auto simp: emit_scalar_def open_delim_def close_delim_def bad_error_def split: list.splits option.splits)
  then show ?thesis by (simp add: Token_def)
qed

text \<open>One step of each decoding function, read off a successful call.\<close>

lemma decodeValue_step:
  "decodeValue (Suc n) d = Inr (v, d') \<longleftrightarrow>
     (\<exists>t d1. Token d = Inr (t, d1) \<and>
       ((t = Scalar v \<and> d' = d1) \<or>
        (t = Delim LBrace \<and> (\<exists>ms d2 t3. decodeMembers n [] d1 = Inr (ms, d2) \<and> Token d2 = Inr (t3, d') \<and> v = JObj ms)) \<or>
        (t = Delim LBrack \<and> (\<exists>vs d2 t3. decodeElements n [] d1 = Inr (vs, d2) \<and> Token d2 = Inr (t3, d') \<and> v = JArr vs))))"
  (is "?L \<longleftrightarrow> ?R")
proof (cases "Token d")
  case (Inr p)
  obtain t d1 where p: "p = (t, d1)" by (cases p)
  show ?thesis
  proof (cases t)
    case (Delim l)
    with Inr p show ?thesis by (cases l) (auto simp: Let_def split: prod.splits)
  next
    case (Scalar w)
    with Inr p show ?thesis by auto
  qed
qed simp

lemma decodeMembers_step:
  "decodeMembers (Suc n) obj d = Inr (ms, d') \<longleftrightarrow>
     (if More d then
        \<exists>kt d1 v d2. Token d = Inr (kt, d1) \<and> key_of kt \<notin> fst ` set obj \<and> decodeValue n d1 = Inr (v, d2) \<and>
          decodeMembers n (obj @ [(key_of kt, v)]) d2 = Inr (ms, d')
      else ms = obj \<and> d' = d)"
  by (auto split: prod.splits if_splits)

lemma decodeElements_step:
  "decodeElements (Suc n) arr d = Inr (vs, d') \<longleftrightarrow>
     (if More d then \<exists>v d1. decodeValue n d = Inr (v, d1) \<and> decodeElements n (arr @ [v]) d1 = Inr (vs, d')
      else vs = arr \<and> d' = d)"
  by (auto split: prod.splits)

declare decodeValue.simps(2) [simp del] decodeMembers.simps(2) [simp del] decodeElements.simps(2) [simp del]

lemma decode_shorter:
  "\<And>d v d'. decodeValue n d = Inr (v, d') \<Longrightarrow> length (toks d') < length (toks d)"
  "\<And>obj d ms d'. decodeMembers n obj d = Inr (ms, d') \<Longrightarrow> length (toks d') \<le> length (toks d)"
  "\<And>arr d vs d'. decodeElements n arr d = Inr (vs, d') \<Longrightarrow> length (toks d') \<le> length (toks d)"
proof (induction n)
  case (Suc n)
  {
    case 1
    then show ?case unfolding decodeValue_step
      by (auto dest!: Token_shorter Suc.IH(2) Suc.IH(3))
  next
    case 2
    then show ?case unfolding decodeMembers_step
      by (auto dest!: Token_shorter Suc.IH(1) Suc.IH(2) split: if_splits)
  next
    case 3
    then show ?case unfolding decodeElements_step
      by (auto dest!: Suc.IH(1) Suc.IH(3) split: if_splits)
  }
qed auto

text \<open>Fuel above twice the lexemes left is not used up.\<close>

lemma value_fuel:
  assumes "\<And>obj d'. 2 * length (toks d') + 1 < n \<Longrightarrow> decodeMembers n obj d' \<noteq> Inl OutOfFuel"
    and "\<And>arr d'. 2 * length (toks d') + 1 < n \<Longrightarrow> decodeElements n arr d' \<noteq> Inl OutOfFuel"
    and "2 * length (toks d) < Suc n"
  shows "decodeValue (Suc n) d \<noteq> Inl OutOfFuel"
proof (cases "Token d")
  case (Inl e)
  then show ?thesis using Token_no_fuel_error [of d] by (auto simp: decodeValue.simps(2))
next
  case (Inr p)
  obtain t d1 where p: "p = (t, d1)" by (cases p)
  with Inr assms(3) have "2 * length (toks d1) + 1 < n" using Token_shorter [of d t d1] by simp
  with assms(1,2) have "decodeMembers n [] d1 \<noteq> Inl OutOfFuel" "decodeElements n [] d1 \<noteq> Inl OutOfFuel" by blast+
  with Inr p show ?thesis
    by (cases t) (auto simp: decodeValue.simps(2) bindR_Inl split: lexeme.splits)
qed

lemma members_fuel:
  assumes "\<And>d'. 2 * length (toks d') < n \<Longrightarrow> decodeValue n d' \<noteq> Inl OutOfFuel"
    and "\<And>obj d'. 2 * length (toks d') + 1 < n \<Longrightarrow> decodeMembers n obj d' \<noteq> Inl OutOfFuel"
    and "2 * length (toks d) + 1 < Suc n"
  shows "decodeMembers (Suc n) obj d \<noteq> Inl OutOfFuel"
proof
  assume "decodeMembers (Suc n) obj d = Inl OutOfFuel"
  then obtain kt d1 where t: "Token d = Inr (kt, d1)" and
    r: "decodeValue n d1 = Inl OutOfFuel \<or>
        (\<exists>v d2. decodeValue n d1 = Inr (v, d2) \<and> decodeMembers n (obj @ [(key_of kt, v)]) d2 = Inl OutOfFuel)"
    by (auto simp: decodeMembers.simps(2) bindR_Inl split: if_splits)
  from t assms(3) have d1: "2 * length (toks d1) < n" using Token_shorter [of d kt d1] by simp
  with r assms(1) obtain v d2 where "decodeValue n d1 = Inr (v, d2)" "decodeMembers n (obj @ [(key_of kt, v)]) d2 = Inl OutOfFuel"
    by blast
  with t assms(3) decode_shorter(1) [of n d1 v d2] Token_shorter [of d kt d1] assms(2) [of d2] show False by auto
qed

lemma elements_fuel:
  assumes "\<And>d'. 2 * length (toks d') < n \<Longrightarrow> decodeValue n d' \<noteq> Inl OutOfFuel"
    and "\<And>arr d'. 2 * length (toks d') + 1 < n \<Longrightarrow> decodeElements n arr d' \<noteq> Inl OutOfFuel"
    and "2 * length (toks d) + 1 < Suc n"
  shows "decodeElements (Suc n) arr d \<noteq> Inl OutOfFuel"
proof
  assume "decodeElements (Suc n) arr d = Inl OutOfFuel"
  moreover have "decodeValue n d \<noteq> Inl OutOfFuel" using assms(1,3) by simp
  ultimately obtain v d1 where "decodeValue n d = Inr (v, d1)" "decodeElements n (arr @ [v]) d1 = Inl OutOfFuel"
    by (auto simp: decodeElements.simps(2) bindR_Inl split: if_splits)
  with assms(3) decode_shorter(1) [of n d v d1] assms(2) [of d1] show False by auto
qed

lemma decode_no_fuel_error:
  "\<And>d. 2 * length (toks d) < n \<Longrightarrow> decodeValue n d \<noteq> Inl OutOfFuel"
  "\<And>obj d. 2 * length (toks d) + 1 < n \<Longrightarrow> decodeMembers n obj d \<noteq> Inl OutOfFuel"
  "\<And>arr d. 2 * length (toks d) + 1 < n \<Longrightarrow> decodeElements n arr d \<noteq> Inl OutOfFuel"
proof (induction n)
  case (Suc n)
  {
    case 1
    show ?case by (rule value_fuel) (use Suc.IH(2,3) 1 in blast)+
  next
    case 2
    show ?case by (rule members_fuel) (use Suc.IH(1,2) 2 in blast)+
  next
    case 3
    show ?case by (rule elements_fuel) (use Suc.IH(1,3) 3 in blast)+
  }
qed auto

subsection \<open>What a token is\<close>

definition scalar :: "json \<Rightarrow> bool" where
  "scalar v \<longleftrightarrow> (\<forall>vs. v \<noteq> JArr vs) \<and> (\<forall>ms. v \<noteq> JObj ms)"

text \<open>The state pushed when a container opens at a value position.\<close>

fun pushed :: "tstate \<Rightarrow> tstate" where
  "pushed ArrayComma = ArrayValue"
| "pushed ObjectColon = ObjectValue"
| "pushed st = st"

lemma valueEnd_pushed: "value_pos st \<Longrightarrow> valueEnd (pushed st) = after st"
  by (cases st) (auto simp: value_pos_def valueAllowed_def)

definition token_meaning :: "input \<Rightarrow> tstate \<Rightarrow> tstate list \<Rightarrow> token \<Rightarrow> decoder \<Rightarrow> bool" where
  "token_meaning ls st stk t d \<longleftrightarrow>
     (\<exists>v rest. t = Scalar v \<and> scalar v \<and> map snd ls = lead st @ render v @ map snd rest \<and> d = dec_at rest (after st) stk) \<or>
     (\<exists>rest. t = Delim LBrack \<and> map snd ls = lead st @ LBrack # map snd rest \<and> d = dec_at rest ArrayStart (pushed st # stk)) \<or>
     (\<exists>rest. t = Delim LBrace \<and> map snd ls = lead st @ LBrace # map snd rest \<and> d = dec_at rest ObjectStart (pushed st # stk)) \<or>
     t = Delim RBrack \<or> t = Delim RBrace"

lemma token_direct:
  assumes "Token_at ls st stk = Inr (t, d)" "valueAllowed st"
  shows "token_meaning ls st stk t d"
proof -
  have lead: "lead st = []" "pushed st = st" "after st = valueEnd st"
    using assms(2) by (cases st; simp add: valueAllowed_def)+
  obtain off l rest where "ls = (off, l) # rest" using assms(1) by (cases ls) auto
  with assms lead show ?thesis
    by (cases l) (auto simp: token_meaning_def valueAllowed_def emit_scalar_def open_delim_def close_delim_def
        dec_at_def scalar_def split: if_splits list.splits)
qed

lemma token_value:
  assumes t: "Token_at ls st stk = Inr (t, d)" and st: "value_pos st"
  shows "token_meaning ls st stk t d"
proof (cases "valueAllowed st")
  case True
  with t show ?thesis by (rule token_direct)
next
  case False
  with st have st': "st = ArrayComma \<or> st = ObjectColon" by (auto simp: value_pos_def)
  obtain off l rest where ls: "ls = (off, l) # rest" using t by (cases ls) auto
  have step: "token_meaning rest st2 stk t d \<Longrightarrow> lead st = [l] \<Longrightarrow> lead st2 = [] \<Longrightarrow> after st2 = after st \<Longrightarrow>
      pushed st2 = pushed st \<Longrightarrow> token_meaning ls st stk t d" for st2
    unfolding token_meaning_def ls by auto
  from t ls st' consider
      "st = ArrayComma" "l = Comma" "Token_at rest ArrayValue stk = Inr (t, d)"
    | "st = ObjectColon" "l = Colon" "Token_at rest ObjectValue stk = Inr (t, d)"
    | "t = Delim RBrack \<or> t = Delim RBrace"
    by (cases l) (auto simp: emit_scalar_def open_delim_def close_delim_def valueAllowed_def split: if_splits list.splits)
  then show ?thesis
  proof cases
    case 1
    with token_direct [of rest ArrayValue stk t d] show ?thesis by (intro step) (auto simp: valueAllowed_def)
  next
    case 2
    with token_direct [of rest ObjectValue stk t d] show ?thesis by (intro step) (auto simp: valueAllowed_def)
  next
    case 3
    then show ?thesis by (auto simp: token_meaning_def)
  qed
qed

subsection \<open>Soundness\<close>

lemma sep_by_Cons: "sep_by s (x # xs) = x @ concat (map (\<lambda>y. s # y) xs)"
  by (induction xs arbitrary: x) auto

definition member_lexemes :: "string \<times> json \<Rightarrow> lexeme list" where
  "member_lexemes m = LStr (fst m) # Colon # render (snd m)"

definition items :: "bool \<Rightarrow> lexeme list list \<Rightarrow> lexeme list" where
  "items first xs = (if first then sep_by Comma xs else concat (map (\<lambda>y. Comma # y) xs))"

lemma items_Nil [simp]: "items b [] = []"
  by (simp add: items_def)

lemma items_Cons: "items b (x # xs) = (if b then [] else [Comma]) @ x @ items False xs"
  by (simp add: items_def sep_by_Cons)

lemma render_JArr: "render (JArr vs) = LBrack # items True (map render vs) @ [RBrack]"
  by (simp add: items_def)

lemma render_JObj: "render (JObj ms) = LBrace # items True (map member_lexemes ms) @ [RBrace]"
proof -
  have "(\<lambda>(k, v). LStr k # Colon # render v) = member_lexemes"
    by (auto simp: fun_eq_iff member_lexemes_def)
  then show ?thesis by (simp add: items_def)
qed

declare render.simps(5,6) [simp del]

lemma key_token:
  assumes "Token_at ls st stk = Inr (t, d)" "More (dec_at ls st stk)" "st = ObjectStart \<or> st = ObjectComma"
  shows "\<exists>k rest. t = Scalar (JStr k) \<and> d = dec_at rest ObjectColon stk \<and>
    map snd ls = (if st = ObjectStart then [] else [Comma]) @ LStr k # map snd rest"
proof -
  obtain off l rest where ls: "ls = (off, l) # rest" using assms(1) by (cases ls) auto
  have direct: "Token_at xs st2 stk = Inr (t, d) \<Longrightarrow> st2 = ObjectStart \<or> st2 = ObjectKey \<Longrightarrow>
      st2 = ObjectStart \<longrightarrow> More (dec_at xs st2 stk) \<Longrightarrow>
      \<exists>k rest. t = Scalar (JStr k) \<and> d = dec_at rest ObjectColon stk \<and> map snd xs = LStr k # map snd rest" for xs st2
    by (induction xs st2 stk rule: Token_at.induct)
       (auto simp: emit_scalar_def open_delim_def close_delim_def valueAllowed_def dec_at_def More_def
          split: if_splits list.splits)
  show ?thesis
  proof (cases "st = ObjectStart")
    case True
    with direct [OF assms(1)] assms(2) show ?thesis by auto
  next
    case False
    with assms(3) have st: "st = ObjectComma" by simp
    with assms(1,2) ls have "l = Comma \<and> Token_at rest ObjectKey stk = Inr (t, d)"
      by (cases l) (auto simp: emit_scalar_def open_delim_def close_delim_def valueAllowed_def More_def
          split: if_splits list.splits)
    with direct [of rest ObjectKey] ls st show ?thesis by auto
  qed
qed

lemma close_token:
  assumes "Token_at ls st (outer # stk) = Inr (t, d)" "\<not> More (dec_at ls st (outer # stk))"
  shows "(st \<in> {ArrayStart, ArrayComma} \<longrightarrow> (\<exists>rest. map snd ls = RBrack # map snd rest \<and> d = dec_at rest (valueEnd outer) stk)) \<and>
         (st \<in> {ObjectStart, ObjectComma} \<longrightarrow> (\<exists>rest. map snd ls = RBrace # map snd rest \<and> d = dec_at rest (valueEnd outer) stk))"
proof -
  obtain off l rest where ls: "ls = (off, l) # rest" using assms(1) by (cases ls) auto
  with assms show ?thesis
    by (cases l) (auto simp: close_delim_def More_def dec_at_def split: if_splits)
qed

text \<open>What decoding with fuel \<open>n\<close> accepts: the three functions are treated one after the other.\<close>

definition value_sound :: "nat \<Rightarrow> bool" where
  "value_sound n \<longleftrightarrow> (\<forall>ls st stk v d. decodeValue n (dec_at ls st stk) = Inr (v, d) \<longrightarrow> value_pos st \<longrightarrow>
     (\<exists>rest. d = dec_at rest (after st) stk \<and> map snd ls = lead st @ render v @ map snd rest \<and> strict_doc v))"

definition members_sound :: "nat \<Rightarrow> bool" where
  "members_sound n \<longleftrightarrow> (\<forall>ls st stk obj ms d. decodeMembers n obj (dec_at ls st stk) = Inr (ms, d) \<longrightarrow>
     st = ObjectStart \<or> st = ObjectComma \<longrightarrow> strict_doc (JObj obj) \<longrightarrow>
     (\<exists>new rest st'. d = dec_at rest st' stk \<and> (st' = ObjectStart \<or> st' = ObjectComma) \<and> \<not> More d \<and> ms = obj @ new \<and>
       strict_doc (JObj ms) \<and> map snd ls = items (st = ObjectStart) (map member_lexemes new) @ map snd rest))"

definition elements_sound :: "nat \<Rightarrow> bool" where
  "elements_sound n \<longleftrightarrow> (\<forall>ls st stk arr vs d. decodeElements n arr (dec_at ls st stk) = Inr (vs, d) \<longrightarrow>
     st = ArrayStart \<or> st = ArrayComma \<longrightarrow> list_all strict_doc arr \<longrightarrow>
     (\<exists>new rest st'. d = dec_at rest st' stk \<and> (st' = ArrayStart \<or> st' = ArrayComma) \<and> \<not> More d \<and> vs = arr @ new \<and>
       list_all strict_doc vs \<and> map snd ls = items (st = ArrayStart) (map render new) @ map snd rest))"

lemma value_soundD: "value_sound n \<Longrightarrow> decodeValue n (dec_at ls st stk) = Inr (v, d) \<Longrightarrow> value_pos st \<Longrightarrow>
    \<exists>rest. d = dec_at rest (after st) stk \<and> map snd ls = lead st @ render v @ map snd rest \<and> strict_doc v"
  unfolding value_sound_def by blast

lemma members_soundD: "members_sound n \<Longrightarrow> decodeMembers n obj (dec_at ls st stk) = Inr (ms, d) \<Longrightarrow>
    st = ObjectStart \<or> st = ObjectComma \<Longrightarrow> strict_doc (JObj obj) \<Longrightarrow>
    \<exists>new rest st'. d = dec_at rest st' stk \<and> (st' = ObjectStart \<or> st' = ObjectComma) \<and> \<not> More d \<and> ms = obj @ new \<and>
      strict_doc (JObj ms) \<and> map snd ls = items (st = ObjectStart) (map member_lexemes new) @ map snd rest"
  unfolding members_sound_def by blast

lemma elements_soundD: "elements_sound n \<Longrightarrow> decodeElements n arr (dec_at ls st stk) = Inr (vs, d) \<Longrightarrow>
    st = ArrayStart \<or> st = ArrayComma \<Longrightarrow> list_all strict_doc arr \<Longrightarrow>
    \<exists>new rest st'. d = dec_at rest st' stk \<and> (st' = ArrayStart \<or> st' = ArrayComma) \<and> \<not> More d \<and> vs = arr @ new \<and>
      list_all strict_doc vs \<and> map snd ls = items (st = ArrayStart) (map render new) @ map snd rest"
  unfolding elements_sound_def by blast

lemma value_sound_Suc:
  assumes "members_sound n" "elements_sound n"
  shows "value_sound (Suc n)"
  unfolding value_sound_def
proof (intro allI impI)
  fix ls st stk v d
  assume 1: "decodeValue (Suc n) (dec_at ls st stk) = Inr (v, d)" "value_pos st"
  let ?claim = "\<exists>rest. d = dec_at rest (after st) stk \<and> map snd ls = lead st @ render v @ map snd rest \<and> strict_doc v"
  from 1(1) obtain t d1 where t: "Token_at ls st stk = Inr (t, d1)" and
    r: "(t = Scalar v \<and> d = d1) \<or>
      (t = Delim LBrace \<and> (\<exists>ms d2 t3. decodeMembers n [] d1 = Inr (ms, d2) \<and> Token d2 = Inr (t3, d) \<and> v = JObj ms)) \<or>
      (t = Delim LBrack \<and> (\<exists>vs d2 t3. decodeElements n [] d1 = Inr (vs, d2) \<and> Token d2 = Inr (t3, d) \<and> v = JArr vs))"
    unfolding decodeValue_step by auto
  note tm = token_value [OF t 1(2), unfolded token_meaning_def]
  from r show ?claim
  proof (elim disjE conjE exE)
    assume "t = Scalar v" "d = d1"
    with tm show ?claim by (auto simp: scalar_def) (metis strict_doc.simps(3-6) json.exhaust)+
  next
    fix ms d2 t3
    assume a: "t = Delim LBrace" "decodeMembers n [] d1 = Inr (ms, d2)" "Token d2 = Inr (t3, d)" "v = JObj ms"
    from tm a(1) obtain ls1 where ls1: "map snd ls = lead st @ LBrace # map snd ls1"
      "d1 = dec_at ls1 ObjectStart (pushed st # stk)" by auto
    from members_soundD [OF assms(1) a(2) [unfolded ls1(2)]] obtain ls2 st2 where m: "d2 = dec_at ls2 st2 (pushed st # stk)"
      "st2 = ObjectStart \<or> st2 = ObjectComma" "\<not> More d2" "strict_doc (JObj ms)"
      "map snd ls1 = items True (map member_lexemes ms) @ map snd ls2" by auto
    from close_token [of ls2 st2 "pushed st" stk t3 d] a(3) m
    obtain rest where "map snd ls2 = RBrace # map snd rest" "d = dec_at rest (valueEnd (pushed st)) stk" by auto
    with m ls1 a(4) valueEnd_pushed [OF 1(2)] show ?claim by (auto simp: render_JObj)
  next
    fix vs d2 t3
    assume a: "t = Delim LBrack" "decodeElements n [] d1 = Inr (vs, d2)" "Token d2 = Inr (t3, d)" "v = JArr vs"
    from tm a(1) obtain ls1 where ls1: "map snd ls = lead st @ LBrack # map snd ls1"
      "d1 = dec_at ls1 ArrayStart (pushed st # stk)" by auto
    from elements_soundD [OF assms(2) a(2) [unfolded ls1(2)]] obtain ls2 st2 where m: "d2 = dec_at ls2 st2 (pushed st # stk)"
      "st2 = ArrayStart \<or> st2 = ArrayComma" "\<not> More d2" "list_all strict_doc vs"
      "map snd ls1 = items True (map render vs) @ map snd ls2" by auto
    from close_token [of ls2 st2 "pushed st" stk t3 d] a(3) m
    obtain rest where "map snd ls2 = RBrack # map snd rest" "d = dec_at rest (valueEnd (pushed st)) stk" by auto
    with m ls1 a(4) valueEnd_pushed [OF 1(2)] show ?claim by (auto simp: render_JArr)
  qed
qed

lemma members_sound_Suc:
  assumes "value_sound n" "members_sound n"
  shows "members_sound (Suc n)"
  unfolding members_sound_def
proof (intro allI impI)
  fix ls st stk obj ms d
  assume 2: "decodeMembers (Suc n) obj (dec_at ls st stk) = Inr (ms, d)" "st = ObjectStart \<or> st = ObjectComma" "strict_doc (JObj obj)"
  show "\<exists>new rest st'. d = dec_at rest st' stk \<and> (st' = ObjectStart \<or> st' = ObjectComma) \<and> \<not> More d \<and> ms = obj @ new \<and>
      strict_doc (JObj ms) \<and> map snd ls = items (st = ObjectStart) (map member_lexemes new) @ map snd rest"
  proof (cases "More (dec_at ls st stk)")
    case True
    with 2(1) obtain kt d1 v d2 where k: "Token_at ls st stk = Inr (kt, d1)" "key_of kt \<notin> fst ` set obj"
      "decodeValue n d1 = Inr (v, d2)" "decodeMembers n (obj @ [(key_of kt, v)]) d2 = Inr (ms, d)"
      unfolding decodeMembers_step by auto
    from key_token [OF k(1) True 2(2)] obtain key ls1 where key: "kt = Scalar (JStr key)" "d1 = dec_at ls1 ObjectColon stk"
      "map snd ls = (if st = ObjectStart then [] else [Comma]) @ LStr key # map snd ls1" by blast
    then have ko: "key_of kt = key" by (simp add: key_of_def)
    from value_soundD [OF assms(1) k(3) [unfolded key(2)]] obtain ls2 where v: "d2 = dec_at ls2 ObjectComma stk"
      "map snd ls1 = Colon # render v @ map snd ls2" "strict_doc v" by (auto simp: value_pos_def)
    have "strict_doc (JObj (obj @ [(key, v)]))" using 2(3) k(2) v(3) ko by auto
    from members_soundD [OF assms(2) k(4) [unfolded v(1)] _ this [folded ko]] obtain new rest st' where
      n: "d = dec_at rest st' stk" "st' = ObjectStart \<or> st' = ObjectComma" "\<not> More d"
         "ms = (obj @ [(key, v)]) @ new" "strict_doc (JObj ms)"
         "map snd ls2 = items False (map member_lexemes new) @ map snd rest"
      unfolding ko by auto
    show ?thesis
      by (rule exI [of _ "(key, v) # new"], rule exI [of _ rest], rule exI [of _ st'])
         (use n key(3) v(2) in \<open>auto simp: items_Cons member_lexemes_def [of "(key, v)"]\<close>)
  next
    case False
    with 2 show ?thesis unfolding decodeMembers_step
      by (intro exI [of _ "[]"] exI [of _ ls] exI [of _ st]) auto
  qed
qed

lemma elements_sound_Suc:
  assumes "value_sound n" "elements_sound n"
  shows "elements_sound (Suc n)"
  unfolding elements_sound_def
proof (intro allI impI)
  fix ls st stk arr vs d
  assume 3: "decodeElements (Suc n) arr (dec_at ls st stk) = Inr (vs, d)" "st = ArrayStart \<or> st = ArrayComma" "list_all strict_doc arr"
  show "\<exists>new rest st'. d = dec_at rest st' stk \<and> (st' = ArrayStart \<or> st' = ArrayComma) \<and> \<not> More d \<and> vs = arr @ new \<and>
      list_all strict_doc vs \<and> map snd ls = items (st = ArrayStart) (map render new) @ map snd rest"
  proof (cases "More (dec_at ls st stk)")
    case True
    with 3(1) obtain v d1 where k: "decodeValue n (dec_at ls st stk) = Inr (v, d1)"
      "decodeElements n (arr @ [v]) d1 = Inr (vs, d)"
      unfolding decodeElements_step by auto
    have "value_pos st" using 3(2) by (auto simp: value_pos_def valueAllowed_def)
    from value_soundD [OF assms(1) k(1) this] obtain ls1 where v: "d1 = dec_at ls1 ArrayComma stk"
      "map snd ls = lead st @ render v @ map snd ls1" "strict_doc v" using 3(2) by auto
    have "list_all strict_doc (arr @ [v])" using 3(3) v(3) by simp
    from elements_soundD [OF assms(2) k(2) [unfolded v(1)] _ this] obtain new rest st' where
      n: "d = dec_at rest st' stk" "st' = ArrayStart \<or> st' = ArrayComma" "\<not> More d"
         "vs = (arr @ [v]) @ new" "list_all strict_doc vs"
         "map snd ls1 = items False (map render new) @ map snd rest"
      by auto
    show ?thesis
      by (rule exI [of _ "v # new"], rule exI [of _ rest], rule exI [of _ st'])
         (use n v(2) 3(2) in \<open>auto simp: items_Cons\<close>)
  next
    case False
    with 3 show ?thesis unfolding decodeElements_step
      by (intro exI [of _ "[]"] exI [of _ ls] exI [of _ st]) auto
  qed
qed

lemma decode_sound: "value_sound n \<and> members_sound n \<and> elements_sound n"
proof (induction n)
  case 0
  show ?case by (simp add: value_sound_def members_sound_def elements_sound_def)
next
  case (Suc n)
  then show ?case using value_sound_Suc members_sound_Suc elements_sound_Suc by blast
qed

subsection \<open>Completeness\<close>

lemma render_head: "\<exists>h t. render v = h # t \<and> h \<notin> {RBrack, RBrace, Comma, Colon}"
  by (cases v) (auto simp: render_JArr render_JObj)

lemma map_snd_Cons: "map snd ls = x # ys \<longleftrightarrow> (\<exists>off rest. ls = (off, x) # rest \<and> map snd rest = ys)"
  by (cases ls) auto

lemma token_scalar:
  "scalar v \<Longrightarrow> value_pos st \<Longrightarrow> map snd ls = lead st @ render v @ map snd rest \<Longrightarrow>
     \<exists>ls'. map snd ls' = map snd rest \<and> Token_at ls st stk = Inr (Scalar v, dec_at ls' (after st) stk)"
  by (cases v; cases st)
     (auto simp: map_snd_Cons scalar_def value_pos_def valueAllowed_def emit_scalar_def dec_at_def)

lemma token_open:
  "value_pos st \<Longrightarrow> l = LBrack \<or> l = LBrace \<Longrightarrow> map snd ls = lead st @ l # xs \<Longrightarrow>
     \<exists>ls'. map snd ls' = xs \<and>
       Token_at ls st stk = Inr (Delim l, dec_at ls' (if l = LBrack then ArrayStart else ObjectStart) (pushed st # stk))"
  by (cases st) (auto simp: map_snd_Cons value_pos_def valueAllowed_def open_delim_def dec_at_def)

lemma token_close:
  "map snd ls = (if st \<in> {ArrayStart, ArrayComma} then RBrack else RBrace) # xs \<Longrightarrow>
   st \<in> {ArrayStart, ArrayComma, ObjectStart, ObjectComma} \<Longrightarrow>
     \<exists>ls' t. map snd ls' = xs \<and> Token_at ls st (outer # stk) = Inr (t, dec_at ls' (valueEnd outer) stk)"
  by (auto simp: map_snd_Cons close_delim_def dec_at_def split: if_splits)

lemma token_key:
  "map snd ls = (if st = ObjectStart then [] else [Comma]) @ LStr k # xs \<Longrightarrow> st = ObjectStart \<or> st = ObjectComma \<Longrightarrow>
     \<exists>ls'. map snd ls' = xs \<and> Token_at ls st stk = Inr (Scalar (JStr k), dec_at ls' ObjectColon stk)"
  by (auto simp: map_snd_Cons dec_at_def split: if_splits)

lemma More_items:
  assumes "map snd ls = items b xs @ ys" "\<And>x. x \<in> set xs \<Longrightarrow> \<exists>h t. x = h # t \<and> h \<notin> {RBrack, RBrace, Comma, Colon}"
    and "\<exists>r zs. ys = r # zs \<and> r \<in> {RBrack, RBrace}"
  shows "More (dec_at ls st stk) \<longleftrightarrow> xs \<noteq> []"
proof (cases xs)
  case Nil
  with assms show ?thesis by (auto simp: map_snd_Cons More_def)
next
  case (Cons x xs')
  then obtain h t where "x = h # t" "h \<notin> {RBrack, RBrace, Comma, Colon}" using assms(2) [of x] Cons by auto
  with Cons assms(1) show ?thesis by (cases b) (auto simp: items_Cons map_snd_Cons More_def)
qed

text \<open>With fuel for twice the lexemes that are left, every rendering is accepted.\<close>

definition value_complete :: "nat \<Rightarrow> bool" where
  "value_complete n \<longleftrightarrow> (\<forall>ls st stk v rest. 2 * length ls < n \<longrightarrow> value_pos st \<longrightarrow> strict_doc v \<longrightarrow>
     map snd ls = lead st @ render v @ rest \<longrightarrow>
     (\<exists>ls'. map snd ls' = rest \<and> decodeValue n (dec_at ls st stk) = Inr (v, dec_at ls' (after st) stk)))"

definition members_complete :: "nat \<Rightarrow> bool" where
  "members_complete n \<longleftrightarrow> (\<forall>ls st stk obj new rest. 2 * length ls + 1 < n \<longrightarrow> st = ObjectStart \<or> st = ObjectComma \<longrightarrow>
     strict_doc (JObj (obj @ new)) \<longrightarrow> map snd ls = items (st = ObjectStart) (map member_lexemes new) @ RBrace # rest \<longrightarrow>
     (\<exists>ls' st'. map snd ls' = RBrace # rest \<and> (st' = ObjectStart \<or> st' = ObjectComma) \<and>
       decodeMembers n obj (dec_at ls st stk) = Inr (obj @ new, dec_at ls' st' stk)))"

definition elements_complete :: "nat \<Rightarrow> bool" where
  "elements_complete n \<longleftrightarrow> (\<forall>ls st stk arr new rest. 2 * length ls + 1 < n \<longrightarrow> st = ArrayStart \<or> st = ArrayComma \<longrightarrow>
     list_all strict_doc new \<longrightarrow> map snd ls = items (st = ArrayStart) (map render new) @ RBrack # rest \<longrightarrow>
     (\<exists>ls' st'. map snd ls' = RBrack # rest \<and> (st' = ArrayStart \<or> st' = ArrayComma) \<and>
       decodeElements n arr (dec_at ls st stk) = Inr (arr @ new, dec_at ls' st' stk)))"

lemma value_completeD: "value_complete n \<Longrightarrow> 2 * length ls < n \<Longrightarrow> value_pos st \<Longrightarrow> strict_doc v \<Longrightarrow>
    map snd ls = lead st @ render v @ rest \<Longrightarrow>
    \<exists>ls'. map snd ls' = rest \<and> decodeValue n (dec_at ls st stk) = Inr (v, dec_at ls' (after st) stk)"
  unfolding value_complete_def by blast

lemma members_completeD: "members_complete n \<Longrightarrow> 2 * length ls + 1 < n \<Longrightarrow> st = ObjectStart \<or> st = ObjectComma \<Longrightarrow>
    strict_doc (JObj (obj @ new)) \<Longrightarrow> map snd ls = items (st = ObjectStart) (map member_lexemes new) @ RBrace # rest \<Longrightarrow>
    \<exists>ls' st'. map snd ls' = RBrace # rest \<and> (st' = ObjectStart \<or> st' = ObjectComma) \<and>
      decodeMembers n obj (dec_at ls st stk) = Inr (obj @ new, dec_at ls' st' stk)"
  unfolding members_complete_def by blast

lemma elements_completeD: "elements_complete n \<Longrightarrow> 2 * length ls + 1 < n \<Longrightarrow> st = ArrayStart \<or> st = ArrayComma \<Longrightarrow>
    list_all strict_doc new \<Longrightarrow> map snd ls = items (st = ArrayStart) (map render new) @ RBrack # rest \<Longrightarrow>
    \<exists>ls' st'. map snd ls' = RBrack # rest \<and> (st' = ArrayStart \<or> st' = ArrayComma) \<and>
      decodeElements n arr (dec_at ls st stk) = Inr (arr @ new, dec_at ls' st' stk)"
  unfolding elements_complete_def by blast

lemma array_complete:
  assumes IH: "elements_complete n"
    and 1: "2 * length ls < Suc n" "value_pos st" "strict_doc (JArr vs)" "map snd ls = lead st @ render (JArr vs) @ rest"
  shows "\<exists>ls'. map snd ls' = rest \<and> decodeValue (Suc n) (dec_at ls st stk) = Inr (JArr vs, dec_at ls' (after st) stk)"
proof -
  from 1(4) have eq: "map snd ls = lead st @ LBrack # items True (map render vs) @ RBrack # rest"
    by (simp add: render_JArr)
  from token_open [OF 1(2) _ eq, of stk] obtain ls1 where o:
    "map snd ls1 = items True (map render vs) @ RBrack # rest"
    "Token_at ls st stk = Inr (Delim LBrack, dec_at ls1 ArrayStart (pushed st # stk))" by auto
  from o(2) have "length ls1 < length ls" using Token_at_shorter by fastforce
  then have len: "2 * length ls1 + 1 < n" using 1(1) by simp
  have sv: "list_all strict_doc vs" using 1(3) by simp
  from elements_completeD [OF IH len _ sv, of ArrayStart rest "[]" "pushed st # stk"] o(1) obtain ls2 st2 where e:
    "map snd ls2 = RBrack # rest" "st2 = ArrayStart \<or> st2 = ArrayComma"
    "decodeElements n [] (dec_at ls1 ArrayStart (pushed st # stk)) = Inr (vs, dec_at ls2 st2 (pushed st # stk))"
    unfolding append_Nil simp_thms by metis
  from token_close [of ls2 st2 rest "pushed st" stk] e obtain ls' t where
    "map snd ls' = rest" "Token_at ls2 st2 (pushed st # stk) = Inr (t, dec_at ls' (valueEnd (pushed st)) stk)"
    by auto
  with o e valueEnd_pushed [OF 1(2)] show ?thesis unfolding decodeValue_step by auto
qed

lemma object_complete:
  assumes IH: "members_complete n"
    and 1: "2 * length ls < Suc n" "value_pos st" "strict_doc (JObj ms)" "map snd ls = lead st @ render (JObj ms) @ rest"
  shows "\<exists>ls'. map snd ls' = rest \<and> decodeValue (Suc n) (dec_at ls st stk) = Inr (JObj ms, dec_at ls' (after st) stk)"
proof -
  from 1(4) have eq: "map snd ls = lead st @ LBrace # items True (map member_lexemes ms) @ RBrace # rest"
    by (simp add: render_JObj)
  from token_open [OF 1(2) _ eq, of stk] obtain ls1 where o:
    "map snd ls1 = items True (map member_lexemes ms) @ RBrace # rest"
    "Token_at ls st stk = Inr (Delim LBrace, dec_at ls1 ObjectStart (pushed st # stk))" by auto
  from o(2) have "length ls1 < length ls" using Token_at_shorter by fastforce
  then have len: "2 * length ls1 + 1 < n" using 1(1) by simp
  have sv: "strict_doc (JObj ([] @ ms))" using 1(3) by simp
  from members_completeD [OF IH len _ sv, of ObjectStart rest "pushed st # stk"] o(1) obtain ls2 st2 where e:
    "map snd ls2 = RBrace # rest" "st2 = ObjectStart \<or> st2 = ObjectComma"
    "decodeMembers n [] (dec_at ls1 ObjectStart (pushed st # stk)) = Inr (ms, dec_at ls2 st2 (pushed st # stk))"
    unfolding append_Nil simp_thms by metis
  from token_close [of ls2 st2 rest "pushed st" stk] e obtain ls' t where
    "map snd ls' = rest" "Token_at ls2 st2 (pushed st # stk) = Inr (t, dec_at ls' (valueEnd (pushed st)) stk)"
    by auto
  with o e valueEnd_pushed [OF 1(2)] show ?thesis unfolding decodeValue_step by auto
qed

lemma value_complete_Suc:
  assumes "members_complete n" "elements_complete n"
  shows "value_complete (Suc n)"
  unfolding value_complete_def
proof (intro allI impI)
  fix ls :: input and st stk v rest
  assume 1: "2 * length ls < Suc n" "value_pos st" "strict_doc v" "map snd ls = lead st @ render v @ rest"
  consider (arr) vs where "v = JArr vs" | (obj) ms where "v = JObj ms" | (scalar) "scalar v" by (auto simp: scalar_def)
  then show "\<exists>ls'. map snd ls' = rest \<and> decodeValue (Suc n) (dec_at ls st stk) = Inr (v, dec_at ls' (after st) stk)"
  proof cases
    case (arr vs)
    with array_complete [OF assms(2) 1(1,2)] 1(3,4) show ?thesis by blast
  next
    case (obj ms)
    with object_complete [OF assms(1) 1(1,2)] 1(3,4) show ?thesis by blast
  next
    case scalar
    then obtain ls' where "map snd ls' = rest" "Token_at ls st stk = Inr (Scalar v, dec_at ls' (after st) stk)"
      using token_scalar [of v st ls "map (\<lambda>l. (0, l)) rest" stk] 1(2,4) by (auto simp: comp_def)
    then show ?thesis unfolding decodeValue_step by auto
  qed
qed

lemma members_complete_Suc:
  assumes "value_complete n" "members_complete n"
  shows "members_complete (Suc n)"
  unfolding members_complete_def
proof (intro allI impI)
  fix ls :: input and st stk obj new rest
  assume 2: "2 * length ls + 1 < Suc n" "st = ObjectStart \<or> st = ObjectComma"
    "strict_doc (JObj (obj @ new))" "map snd ls = items (st = ObjectStart) (map member_lexemes new) @ RBrace # rest"
  have more: "More (dec_at ls st stk) \<longleftrightarrow> new \<noteq> []"
    using More_items [OF 2(4), of st stk] by (auto simp: member_lexemes_def)
  show "\<exists>ls' st'. map snd ls' = RBrace # rest \<and> (st' = ObjectStart \<or> st' = ObjectComma) \<and>
      decodeMembers (Suc n) obj (dec_at ls st stk) = Inr (obj @ new, dec_at ls' st' stk)"
  proof (cases new)
    case Nil
    with 2 more show ?thesis unfolding decodeMembers_step
      by (intro exI [of _ ls] exI [of _ st]) auto
  next
    case (Cons m new')
    obtain k v where m: "m = (k, v)" by (cases m)
    have eq: "map snd ls = (if st = ObjectStart then [] else [Comma]) @ LStr k #
        (Colon # render v @ items False (map member_lexemes new') @ RBrace # rest)"
      using 2(4) Cons m by (auto simp: items_Cons member_lexemes_def [of "(k, v)"])
    from token_key [OF eq 2(2), of stk] obtain ls1 where k:
      "map snd ls1 = Colon # render v @ items False (map member_lexemes new') @ RBrace # rest"
      "Token_at ls st stk = Inr (Scalar (JStr k), dec_at ls1 ObjectColon stk)" by metis
    from k(2) have l1: "length ls1 < length ls" using Token_at_shorter by fastforce
    then have len: "2 * length ls1 < n" using 2(1) by simp
    have sv: "strict_doc v" and nk: "k \<notin> fst ` set obj" using 2(3) Cons m by auto
    from value_completeD [OF assms(1) len _ sv, of ObjectColon "items False (map member_lexemes new') @ RBrace # rest" stk] k(1)
    obtain ls2 where v: "map snd ls2 = items False (map member_lexemes new') @ RBrace # rest"
      "decodeValue n (dec_at ls1 ObjectColon stk) = Inr (v, dec_at ls2 ObjectComma stk)"
      by (auto simp: value_pos_def)
    from decode_shorter(1) [OF v(2)] l1 2(1) have len2: "2 * length ls2 + 1 < n" by simp
    have so: "strict_doc (JObj ((obj @ [(k, v)]) @ new'))" using 2(3) Cons m by auto
    have nn: "(obj @ [(k, v)]) @ new' = obj @ new" using Cons m by simp
    from members_completeD [OF assms(2) len2 _ so, of ObjectComma rest stk] v(1)
    have "\<exists>ls' st'. map snd ls' = RBrace # rest \<and> (st' = ObjectStart \<or> st' = ObjectComma) \<and>
      decodeMembers n (obj @ [(k, v)]) (dec_at ls2 ObjectComma stk) = Inr (obj @ new, dec_at ls' st' stk)"
      unfolding nn by simp
    then obtain ls' st' where
      "map snd ls' = RBrace # rest" "st' = ObjectStart \<or> st' = ObjectComma"
      "decodeMembers n (obj @ [(k, v)]) (dec_at ls2 ObjectComma stk) = Inr (obj @ new, dec_at ls' st' stk)"
      by metis
    then show ?thesis using more k v nk Cons unfolding decodeMembers_step
      by (intro exI [of _ ls'] exI [of _ st']) (auto simp: key_of_def)
  qed
qed

lemma elements_complete_Suc:
  assumes "value_complete n" "elements_complete n"
  shows "elements_complete (Suc n)"
  unfolding elements_complete_def
proof (intro allI impI)
  fix ls :: input and st stk arr new rest
  assume 3: "2 * length ls + 1 < Suc n" "st = ArrayStart \<or> st = ArrayComma"
    "list_all strict_doc new" "map snd ls = items (st = ArrayStart) (map render new) @ RBrack # rest"
  have more: "More (dec_at ls st stk) \<longleftrightarrow> new \<noteq> []"
    using More_items [OF 3(4), of st stk] render_head by auto
  show "\<exists>ls' st'. map snd ls' = RBrack # rest \<and> (st' = ArrayStart \<or> st' = ArrayComma) \<and>
      decodeElements (Suc n) arr (dec_at ls st stk) = Inr (arr @ new, dec_at ls' st' stk)"
  proof (cases new)
    case Nil
    with 3 more show ?thesis unfolding decodeElements_step
      by (intro exI [of _ ls] exI [of _ st]) auto
  next
    case (Cons v new')
    have eq: "map snd ls = lead st @ render v @ items False (map render new') @ RBrack # rest"
      using 3(2,4) Cons by (auto simp: items_Cons)
    have len: "2 * length ls < n" using 3(1) by simp
    have sv: "strict_doc v" using 3(3) Cons by simp
    have vp: "value_pos st" "after st = ArrayComma" using 3(2) by (auto simp: value_pos_def valueAllowed_def)
    from value_completeD [OF assms(1) len vp(1) sv eq, of stk] vp(2) obtain ls1 where v:
      "map snd ls1 = items False (map render new') @ RBrack # rest"
      "decodeValue n (dec_at ls st stk) = Inr (v, dec_at ls1 ArrayComma stk)" by metis
    from decode_shorter(1) [OF v(2)] 3(1) have len2: "2 * length ls1 + 1 < n" by simp
    have so: "list_all strict_doc new'" using 3(3) Cons by simp
    have nn: "(arr @ [v]) @ new' = arr @ new" using Cons by simp
    from elements_completeD [OF assms(2) len2 _ so, of ArrayComma rest "arr @ [v]" stk] v(1)
    have "\<exists>ls' st'. map snd ls' = RBrack # rest \<and> (st' = ArrayStart \<or> st' = ArrayComma) \<and>
      decodeElements n (arr @ [v]) (dec_at ls1 ArrayComma stk) = Inr (arr @ new, dec_at ls' st' stk)"
      unfolding nn by simp
    then obtain ls' st' where
      "map snd ls' = RBrack # rest" "st' = ArrayStart \<or> st' = ArrayComma"
      "decodeElements n (arr @ [v]) (dec_at ls1 ArrayComma stk) = Inr (arr @ new, dec_at ls' st' stk)"
      by metis
    then show ?thesis using more v Cons unfolding decodeElements_step
      by (intro exI [of _ ls'] exI [of _ st']) auto
  qed
qed

lemma decode_complete: "value_complete n \<and> members_complete n \<and> elements_complete n"
proof (induction n)
  case 0
  show ?case by (simp add: value_complete_def members_complete_def elements_complete_def)
next
  case (Suc n)
  then show ?case using value_complete_Suc members_complete_Suc elements_complete_Suc by blast
qed

subsection \<open>strictDecode\<close>

lemma strictDecode_iff: "strictDecode ls = Inr v \<longleftrightarrow> strict_doc v \<and> map snd ls = render v"
proof
  assume "strictDecode ls = Inr v"
  then obtain d where d: "decodeValue (Suc (2 * length ls)) (dec_at ls TopValue []) = Inr (v, d)" "Token d = Inl EOF"
    by (auto simp: strictDecode_def NewDecoder_def dec_at_def split: sum.splits if_splits)
  from value_soundD [OF conjunct1 [OF decode_sound] d(1)] obtain rest where
    r: "d = dec_at rest TopValue []" "map snd ls = render v @ map snd rest" "strict_doc v"
    by (auto simp: value_pos_def valueAllowed_def)
  have "rest = []"
  proof (cases rest)
    case (Cons x xs)
    obtain off l where "x = (off, l)" by (cases x)
    with d(2) r(1) Cons show ?thesis
      by (cases l) (auto simp: open_delim_def close_delim_def emit_scalar_def bad_error_def split: option.splits if_splits)
  qed
  with r show "strict_doc v \<and> map snd ls = render v" by simp
next
  assume a: "strict_doc v \<and> map snd ls = render v"
  then obtain ls' where "map snd ls' = []"
    "decodeValue (Suc (2 * length ls)) (dec_at ls TopValue []) = Inr (v, dec_at ls' TopValue [])"
    using value_completeD [OF conjunct1 [OF decode_complete], of ls "Suc (2 * length ls)" TopValue v "[]" "[]"] a by (auto simp: value_pos_def valueAllowed_def)
  then show "strictDecode ls = Inr v"
    by (simp add: strictDecode_def NewDecoder_def dec_at_def Token_def)
qed

lemma render_inj: "strict_doc v \<Longrightarrow> strict_doc w \<Longrightarrow> render v = render w \<Longrightarrow> v = w"
proof -
  assume a: "strict_doc v" "strict_doc w" "render v = render w"
  let ?ls = "map (\<lambda>l. (0::nat, l)) (render v)"
  have "map snd ?ls = render v" by (simp add: comp_def)
  with a have "strictDecode ?ls = Inr v" "strictDecode ?ls = Inr w" by (simp_all only: strictDecode_iff)
  then show "v = w" by simp
qed

section \<open>Properties\<close>

text \<open>
  C12. The strict body decoder accepts a token sequence exactly when it is the rendering of a
  document whose objects have no duplicate member at any depth, with nothing after it, and
  then returns that document.
\<close>

theorem strictDecode_exact: "strictDecode ls = Inr v \<longleftrightarrow> strict_doc v \<and> map snd ls = render v"
  by (rule strictDecode_iff)

end
