(* ===== verification/Digest.thy ===== *)
theory Digest
  imports Json "HOL-Library.Multiset"
begin

text \<open>
  The canonical form of a decoded document and its digest: json.Marshal of the decoded value
  (sorted members, no white space, HTML-safe string escaping) and CanonicalDigest and
  DigestBytes of internal/application/principal.go. SHA-256 in hexadecimal is a parameter
  \<open>sha\<close> of the digests. json.Marshal refuses a json.Number whose text is not a JSON number, so
  the result is a sum; strictDecode's numbers come from the scanner and are valid.
\<close>

section \<open>json.Marshal\<close>

definition hex_digit :: "nat \<Rightarrow> char" where
  "hex_digit n = (if n < 10 then char_of (48 + n) else char_of (87 + n))"

definition u_escape :: "nat \<Rightarrow> nat \<Rightarrow> nat \<Rightarrow> nat \<Rightarrow> string" where
  "u_escape a b c d = CHR 0x5C # CHR ''u'' # map hex_digit [a, b, c, d]"

definition esc_ascii :: "char \<Rightarrow> string" where
  "esc_ascii c =
     (if c = CHR 0x5C \<or> c = CHR 0x22 then [CHR 0x5C, c]
      else if c = CHR 0x08 then [CHR 0x5C, CHR ''b'']
      else if c = CHR 0x0C then [CHR 0x5C, CHR ''f'']
      else if c = CHR 0x0A then [CHR 0x5C, CHR ''n'']
      else if c = CHR 0x0D then [CHR 0x5C, CHR ''r'']
      else if c = CHR 0x09 then [CHR 0x5C, CHR ''t'']
      else if char_code c < 32 \<or> c = CHR ''<'' \<or> c = CHR ''>'' \<or> c = CHR ''&''
      then u_escape 0 0 (char_code c div 16) (char_code c mod 16)
      else [c])"

text \<open>The length of the UTF-8 sequence at the start of a byte string, 0 when there is none.\<close>

definition cont_in :: "nat \<Rightarrow> nat \<Rightarrow> string \<Rightarrow> bool" where
  "cont_in lo hi s = (case s of [] \<Rightarrow> False | c # _ \<Rightarrow> lo \<le> char_code c \<and> char_code c \<le> hi)"

definition cont :: "nat \<Rightarrow> string \<Rightarrow> bool" where
  "cont i s = cont_in 128 191 (drop i s)"

definition rune_len :: "string \<Rightarrow> nat" where
  "rune_len s =
     (case s of
        [] \<Rightarrow> 0
      | c # cs \<Rightarrow>
          let b = char_code c in
          if b < 128 then 1
          else if 194 \<le> b \<and> b \<le> 223 then (if cont 0 cs then 2 else 0)
          else if b = 224 then (if cont_in 160 191 cs \<and> cont 1 cs then 3 else 0)
          else if b = 237 then (if cont_in 128 159 cs \<and> cont 1 cs then 3 else 0)
          else if 225 \<le> b \<and> b \<le> 239 then (if cont 0 cs \<and> cont 1 cs then 3 else 0)
          else if b = 240 then (if cont_in 144 191 cs \<and> cont 1 cs \<and> cont 2 cs then 4 else 0)
          else if 241 \<le> b \<and> b \<le> 243 then (if cont 0 cs \<and> cont 1 cs \<and> cont 2 cs then 4 else 0)
          else if b = 244 then (if cont_in 128 143 cs \<and> cont 1 cs \<and> cont 2 cs then 4 else 0)
          else 0)"

text \<open>
  The escaped bytes of a string: ASCII through \<open>esc_ascii\<close>, a byte that starts no UTF-8
  sequence as U+FFFD, the line separators U+2028 and U+2029 escaped, other sequences as they are.
\<close>

function esc :: "string \<Rightarrow> string" where
  "esc [] = []"
| "esc (c # cs) =
     (if char_code c < 128 then esc_ascii c @ esc cs
      else if rune_len (c # cs) = 0 then u_escape 15 15 15 13 @ esc cs
      else if take 3 (c # cs) = [CHR 0xE2, CHR 0x80, CHR 0xA8] then u_escape 2 0 2 8 @ esc (drop 2 cs)
      else if take 3 (c # cs) = [CHR 0xE2, CHR 0x80, CHR 0xA9] then u_escape 2 0 2 9 @ esc (drop 2 cs)
      else take (rune_len (c # cs)) (c # cs) @ esc (drop (rune_len (c # cs) - 1) cs))"
  by pat_completeness auto
termination
  by (relation "measure length") auto

definition quote :: "string \<Rightarrow> string" where
  "quote s = CHR 0x22 # esc s @ [CHR 0x22]"

definition json_number :: rx where
  "json_number =
     Seq (Rep 0 1 (Cls (\<lambda>c. c = CHR ''-'')))
    (Seq (Alt (Cls (\<lambda>c. c = CHR ''0'')) (Seq (Cls class_nonzero) (Star (Cls is_digit))))
    (Seq (Rep 0 1 (Seq (Cls (\<lambda>c. c = CHR ''.'')) (Seq (Cls is_digit) (Star (Cls is_digit)))))
         (Rep 0 1 (Seq (Cls (\<lambda>c. c = CHR ''e'' \<or> c = CHR ''E''))
                  (Seq (Rep 0 1 (Cls (\<lambda>c. c = CHR ''+'' \<or> c = CHR ''-'')))
                       (Seq (Cls is_digit) (Star (Cls is_digit))))))))"

definition number_text :: "string \<Rightarrow> string" where
  "number_text n = (if n = [] then ''0'' else n)"

fun numbers_ok :: "json \<Rightarrow> bool" where
  "numbers_ok (JNum n) = (n = [] \<or> matches json_number n)"
| "numbers_ok (JArr vs) = list_all numbers_ok vs"
| "numbers_ok (JObj ms) = list_all (\<lambda>(k, v). numbers_ok v) ms"
| "numbers_ok _ = True"

text \<open>Marshal of a map writes its members sorted by key.\<close>

fun canon :: "json \<Rightarrow> json" where
  "canon (JArr vs) = JArr (map canon vs)"
| "canon (JObj ms) = JObj (sort_key fst (map (\<lambda>(k, v). (k, canon v)) ms))"
| "canon v = v"

fun lexeme_text :: "lexeme \<Rightarrow> string" where
  "lexeme_text LBrace = ''{''"
| "lexeme_text RBrace = ''}''"
| "lexeme_text LBrack = ''[''"
| "lexeme_text RBrack = '']''"
| "lexeme_text Comma = '',''"
| "lexeme_text Colon = '':''"
| "lexeme_text (LStr s) = quote s"
| "lexeme_text (LNum n) = number_text n"
| "lexeme_text (LBool b) = (if b then ''true'' else ''false'')"
| "lexeme_text LNull = ''null''"
| "lexeme_text (LBad q e) = []"

definition marshal :: "json \<Rightarrow> string + string" where
  "marshal v =
     (if numbers_ok v then Inr (concat (map lexeme_text (render (canon v))))
      else Inl ''json: invalid number literal'')"

definition DigestBytes :: "(string \<Rightarrow> string) \<Rightarrow> string \<Rightarrow> string" where
  "DigestBytes sha b = ''sha256:'' @ sha b"

definition CanonicalDigest :: "(string \<Rightarrow> string) \<Rightarrow> json \<Rightarrow> string + string" where
  "CanonicalDigest sha decoded = mapR (\<lambda>canonical. ''sha256:'' @ sha canonical) (marshal decoded)"

section \<open>Formatting does not matter, member order does not matter\<close>

text \<open>
  \<open>same_doc v w\<close>: the two documents differ only in the order of the members of their objects,
  at any depth.
\<close>

inductive same_doc :: "json \<Rightarrow> json \<Rightarrow> bool" where
  same_refl: "same_doc v v"
| same_arr: "list_all2 same_doc vs ws \<Longrightarrow> same_doc (JArr vs) (JArr ws)"
| same_obj: "list_all2 (\<lambda>m m'. fst m = fst m' \<and> same_doc (snd m) (snd m')) ms ms' \<Longrightarrow>
     mset ms' = mset ms'' \<Longrightarrow> same_doc (JObj ms) (JObj ms'')"

inductive_simps same_doc_scalars [simp]:
  "same_doc JNull w" "same_doc (JBool b) w" "same_doc (JNum n) w" "same_doc (JStr s) w"

lemma sort_members_perm:
  assumes "mset xs = mset ys" "distinct (map fst xs)"
  shows "sort_key fst xs = sort_key fst ys"
  using assms by (intro sort_key_inj_key_eq) (auto simp: distinct_map)

lemma same_doc_canon: "same_doc v w \<Longrightarrow> strict_doc v \<Longrightarrow> canon v = canon w \<and> strict_doc w"
proof (induction rule: same_doc.induct)
  case (same_arr vs ws)
  from same_arr.IH have "list_all strict_doc vs \<longrightarrow> map canon vs = map canon ws \<and> list_all strict_doc ws"
    by (induction rule: list_all2_induct) auto
  with same_arr.prems show ?case by simp
next
  case (same_obj ms ms' ms'')
  let ?f = "\<lambda>(k, v). (k :: string, canon v)"
  from same_obj.IH have "list_all (\<lambda>(k, v). strict_doc v) ms \<longrightarrow>
      map ?f ms = map ?f ms' \<and> map fst ms = map fst ms' \<and> list_all (\<lambda>(k, v). strict_doc v) ms'"
  proof (induction rule: list_all2_induct)
    case (Cons m ms m' ms')
    then show ?case by (cases m; cases m') auto
  qed simp
  with same_obj.prems have eq: "map ?f ms = map ?f ms'" "map fst ms = map fst ms'" "list_all (\<lambda>(k, v). strict_doc v) ms'"
    by simp_all
  have dist: "distinct (map fst ms')" using same_obj.prems eq(2) by simp
  have "mset (map fst ms') = mset (map fst ms'')" using same_obj.hyps by simp
  then have dist'': "distinct (map fst ms'')" using dist mset_eq_imp_distinct_iff by blast
  have sv: "list_all (\<lambda>(k, v). strict_doc v) ms''"
    using eq(3) mset_eq_setD [OF same_obj.hyps] by (simp add: list_all_iff)
  have "mset (map ?f ms') = mset (map ?f ms'')" using same_obj.hyps by simp
  moreover have "map fst (map ?f ms') = map fst ms'" by (auto simp: case_prod_beta)
  then have "distinct (map fst (map ?f ms'))" using dist by (simp only:)
  ultimately have "sort_key fst (map ?f ms') = sort_key fst (map ?f ms'')"
    by (rule sort_members_perm)
  with eq(1) dist'' sv show ?case by simp
qed simp

lemma same_doc_numbers: "same_doc v w \<Longrightarrow> numbers_ok v = numbers_ok w"
proof (induction rule: same_doc.induct)
  case (same_arr vs ws)
  from same_arr.IH have "list_all numbers_ok vs = list_all numbers_ok ws"
    by (induction rule: list_all2_induct) auto
  then show ?case by simp
next
  case (same_obj ms ms' ms'')
  from same_obj.IH have "list_all (\<lambda>(k, v). numbers_ok v) ms = list_all (\<lambda>(k, v). numbers_ok v) ms'"
  proof (induction rule: list_all2_induct)
    case (Cons m ms m' ms')
    then show ?case by (cases m; cases m') auto
  qed simp
  then show ?case using mset_eq_setD [OF same_obj.hyps] by (simp add: list_all_iff)
qed simp

lemma marshal_same_doc: "same_doc v w \<Longrightarrow> strict_doc v \<Longrightarrow> marshal v = marshal w"
  using same_doc_canon same_doc_numbers by (simp add: marshal_def)

section \<open>Marshalled text is one line\<close>

definition printable :: "string \<Rightarrow> bool" where
  "printable s \<longleftrightarrow> (\<forall>c \<in> set s. 32 \<le> char_code c)"

lemma printable_simps [simp]:
  "printable []" "printable (c # s) \<longleftrightarrow> 32 \<le> char_code c \<and> printable s"
  "printable (s @ t) \<longleftrightarrow> printable s \<and> printable t"
  by (auto simp: printable_def)

lemma printable_take: "(\<And>c. c \<in> set s \<Longrightarrow> 32 \<le> char_code c) \<Longrightarrow> printable (take n s)"
  by (auto simp: printable_def dest: in_set_takeD)

lemma hex_digit_ge: "n < 16 \<Longrightarrow> 32 \<le> char_code (hex_digit n)"
  by (simp add: hex_digit_def)

lemma printable_u_escape: "a < 16 \<Longrightarrow> b < 16 \<Longrightarrow> c < 16 \<Longrightarrow> d < 16 \<Longrightarrow> printable (u_escape a b c d)"
  by (simp add: u_escape_def hex_digit_ge) (simp add: char_code_def)

lemma char_lits:
  "char_code CHR 0x5C = 92" "char_code CHR 0x22 = 34" "char_code CHR ''b'' = 98" "char_code CHR ''f'' = 102"
  "char_code CHR ''n'' = 110" "char_code CHR ''r'' = 114" "char_code CHR ''t'' = 116"
  by (simp_all add: char_code_def)

lemma printable_esc_ascii: "printable (esc_ascii c)"
proof -
  have "char_code c div 16 < 16" using char_code_less [of c] by linarith
  then have u: "printable (u_escape 0 0 (char_code c div 16) (char_code c mod 16))"
    by (simp add: printable_u_escape)
  have ifI: "(b \<Longrightarrow> printable x) \<Longrightarrow> (\<not> b \<Longrightarrow> printable y) \<Longrightarrow> printable (if b then x else y)" for b x y
    by simp
  show ?thesis
    unfolding esc_ascii_def by (intro ifI u) (auto simp: char_lits)
qed

text \<open>The bytes of a UTF-8 sequence are not control bytes.\<close>

lemma cont_byte: "cont i s \<Longrightarrow> i < length s \<and> 128 \<le> char_code (s ! i)"
  by (auto simp: cont_def cont_in_def split: list.splits)
     (metis drop_all linorder_not_less list.distinct(1), metis drop_eq_Nil hd_drop_conv_nth linorder_not_le list.sel(1) list.distinct(1))

lemma cont_in_byte: "cont_in lo hi s \<Longrightarrow> 128 \<le> lo \<Longrightarrow> 0 < length s \<and> 128 \<le> char_code (s ! 0)"
  by (auto simp: cont_in_def split: list.splits)

lemma rune_shape:
  assumes "128 \<le> char_code c"
  shows "rune_len (c # cs) = 0 \<or>
    (rune_len (c # cs) = 2 \<and> 128 \<le> char_code (cs ! 0)) \<or>
    (rune_len (c # cs) = 3 \<and> 128 \<le> char_code (cs ! 0) \<and> 128 \<le> char_code (cs ! 1)) \<or>
    (rune_len (c # cs) = 4 \<and> 128 \<le> char_code (cs ! 0) \<and> 128 \<le> char_code (cs ! 1) \<and> 128 \<le> char_code (cs ! 2))"
proof -
  have "cont i cs \<Longrightarrow> 128 \<le> char_code (cs ! i)" for i by (simp add: cont_byte)
  moreover have "cont_in lo hi cs \<Longrightarrow> 128 \<le> lo \<Longrightarrow> 128 \<le> char_code (cs ! 0)" for lo hi by (simp add: cont_in_byte)
  then have "cont_in 160 191 cs \<Longrightarrow> 128 \<le> char_code (cs ! 0)" "cont_in 128 159 cs \<Longrightarrow> 128 \<le> char_code (cs ! 0)"
    "cont_in 144 191 cs \<Longrightarrow> 128 \<le> char_code (cs ! 0)" "cont_in 128 143 cs \<Longrightarrow> 128 \<le> char_code (cs ! 0)"
    by fastforce+
  ultimately have h: "cont 0 cs \<longrightarrow> 128 \<le> char_code (cs ! 0)" "cont 1 cs \<longrightarrow> 128 \<le> char_code (cs ! 1)"
    "cont 2 cs \<longrightarrow> 128 \<le> char_code (cs ! 2)"
    "cont_in 160 191 cs \<longrightarrow> 128 \<le> char_code (cs ! 0)" "cont_in 128 159 cs \<longrightarrow> 128 \<le> char_code (cs ! 0)"
    "cont_in 144 191 cs \<longrightarrow> 128 \<le> char_code (cs ! 0)" "cont_in 128 143 cs \<longrightarrow> 128 \<le> char_code (cs ! 0)"
    by blast+
  have "\<not> char_code c < 128" using assms by simp
  then show ?thesis
    unfolding rune_len_def list.case Let_def by (simp add: h [unfolded One_nat_def])
qed

lemma rune_bytes:
  assumes "128 \<le> char_code c" "i < rune_len (c # cs)"
  shows "128 \<le> char_code ((c # cs) ! i)"
proof -
  have "i < 4 \<Longrightarrow> i = 0 \<or> i = 1 \<or> i = 2 \<or> i = 3" by linarith
  then show ?thesis using rune_shape [OF assms(1), of cs] assms by auto
qed

lemma printable_esc: "printable (esc s)"
proof (induction s rule: esc.induct)
  case (2 c cs)
  show ?case
  proof (cases "char_code c < 128")
    case True
    with 2(1) show ?thesis by (simp add: printable_esc_ascii)
  next
    case False
    have "printable (take (rune_len (c # cs)) (c # cs))"
      unfolding printable_def
    proof
      fix x
      assume "x \<in> set (take (rune_len (c # cs)) (c # cs))"
      then obtain i where "i < rune_len (c # cs)" "x = (c # cs) ! i"
        by (auto simp: in_set_conv_nth simp del: take_Suc_Cons)
      with False rune_bytes [of c i cs] show "32 \<le> char_code x" by simp
    qed
    with False 2 show ?thesis by (simp add: printable_u_escape)
  qed
qed simp

lemma number_printable:
  assumes "matches json_number n"
  shows "printable n"
proof -
  have "printable (concat us)" if "set us \<subseteq> {[c] | c. is_digit c}" for us
    using that by (induction us) (auto simp: class_defs char_code_def)
  then have dig: "s \<in> lang (Star (Cls is_digit)) \<Longrightarrow> printable s" for s
    unfolding lang.simps by blast
  have "\<And>c. is_digit c \<Longrightarrow> 32 \<le> char_code c" "\<And>c. class_nonzero c \<Longrightarrow> 32 \<le> char_code c"
    by (auto simp: class_defs char_code_def)
  with assms dig show ?thesis
    unfolding matches_lang json_number_def lang.simps(3,4) lang_opt mem_Collect_eq insert_iff Un_iff lang_cls_iff
    by (auto simp: char_code_def simp del: lang.simps)
qed

fun lexeme_ok :: "lexeme \<Rightarrow> bool" where
  "lexeme_ok (LNum n) = (n = [] \<or> matches json_number n)"
| "lexeme_ok l = True"

lemma printable_lexeme: "lexeme_ok l \<Longrightarrow> printable (lexeme_text l)"
  by (cases l) (auto simp: quote_def printable_esc number_text_def number_printable, auto simp: char_code_def)

lemma items_ok: "(\<And>x. x \<in> set xs \<Longrightarrow> list_all lexeme_ok x) \<Longrightarrow> list_all lexeme_ok (items b xs)"
  by (induction xs arbitrary: b) (auto simp: items_Cons)

lemma render_ok: "numbers_ok v \<Longrightarrow> list_all lexeme_ok (render v)"
proof (induction v rule: numbers_ok.induct)
  case (2 vs)
  then show ?case by (auto simp: render_JArr list_all_iff intro!: items_ok [unfolded list_all_iff])
next
  case (3 ms)
  then show ?case
    by (fastforce simp: render_JObj list_all_iff member_lexemes_def intro!: items_ok [unfolded list_all_iff])
qed auto

lemma canon_numbers: "numbers_ok (canon v) = numbers_ok v"
proof (induction v rule: canon.induct)
  case (2 ms)
  then show ?case by (fastforce simp: list_all_iff)
qed (auto simp: list_all_iff)

lemma marshal_printable: "marshal v = Inr b \<Longrightarrow> printable b"
proof -
  assume m: "marshal v = Inr b"
  then have "numbers_ok (canon v)" and b: "b = concat (map lexeme_text (render (canon v)))"
    by (auto simp: marshal_def canon_numbers split: if_splits)
  then have "list_all lexeme_ok (render (canon v))" using render_ok by blast
  then have "printable (concat (map lexeme_text (render (canon v))))"
    by (induction "render (canon v)" arbitrary: v rule: list.induct; unfold printable_def)
       (auto simp: list_all_iff dest!: printable_lexeme simp: printable_def)
  with b show ?thesis by simp
qed

section \<open>Properties\<close>

text \<open>
  Two bodies that decode to documents differing only in the order of members have the same
  request digest: a client's retry with another formatting is the same command.
\<close>

theorem retried_body_same_digest:
  assumes "strictDecode ls = Inr v" "strictDecode ls' = Inr w" "same_doc v w"
  shows "CanonicalDigest sha v = CanonicalDigest sha w"
  using assms marshal_same_doc [of v w] by (simp add: CanonicalDigest_def strictDecode_iff)

theorem retried_body_same_digest_witness:
  "CanonicalDigest id (JObj [(''a'', JNull), (''b'', JBool True)])
   = CanonicalDigest id (JObj [(''b'', JBool True), (''a'', JNull)])"
proof -
  let ?v = "JObj [(''a'', JNull), (''b'', JBool True)]" and ?w = "JObj [(''b'', JBool True), (''a'', JNull)]"
  have "strictDecode (map (Pair 0) (render ?v)) = Inr ?v" "strictDecode (map (Pair 5) (render ?w)) = Inr ?w"
    by (simp_all add: strictDecode_iff comp_def)
  moreover have "same_doc ?v ?w"
    by (rule same_obj [of _ "[(''a'', JNull), (''b'', JBool True)]"]) (auto intro: same_refl)
  ultimately show ?thesis by (rule retried_body_same_digest)
qed

end
