(* ===== verification/Errors.thy ===== *)
theory Errors
  imports Prelude
begin

text \<open>
  The errors of the service and how they become the public error contract:
  the error values of internal/application (ControlError, the sentinels, ResetRequired), the
  mapping of an owner's gRPC status to a ControlError (MapError of
  internal/adapters/control/client.go), the gateway without a placement (Unavailable of
  internal/application/gateways.go) and the HTTP error decided for a request (apiError,
  httpStatus, fromControl, retryAfterSeconds of internal/transport/http/server.go).

  The interface between an owner's client and the transport is the locale \<open>owner_port\<close>: what
  the error values an owner port returns promise. It is interpreted on MapError and on Unavailable.
\<close>

section \<open>Error values\<close>

record control_error =
  Code :: string
  Message :: string
  Retryable :: bool

record api_error =
  status :: nat
  code :: string
  message :: string
  retryable :: bool
  field :: string

text \<open>
  A Go error value as far as errors.As and errors.Is look into it: one of the service's own
  error types, a sentinel, another error, or a wrapping (percent-w) of an error under a message.
\<close>

datatype go_error =
    ControlErr control_error
  | ApiErr api_error
  | ResetErr string
  | ErrForbidden
  | ErrUnauthenticated
  | ErrSlowConsumer
  | CtxErr
  | OtherErr string
  | Wrapped string go_error

primrec as_control :: "go_error \<Rightarrow> control_error option" where
  "as_control (ControlErr e) = Some e"
| "as_control (ApiErr e) = None"
| "as_control (ResetErr s) = None"
| "as_control ErrForbidden = None"
| "as_control ErrUnauthenticated = None"
| "as_control ErrSlowConsumer = None"
| "as_control CtxErr = None"
| "as_control (OtherErr m) = None"
| "as_control (Wrapped m e) = as_control e"

primrec as_api :: "go_error \<Rightarrow> api_error option" where
  "as_api (ControlErr e) = None"
| "as_api (ApiErr e) = Some e"
| "as_api (ResetErr s) = None"
| "as_api ErrForbidden = None"
| "as_api ErrUnauthenticated = None"
| "as_api ErrSlowConsumer = None"
| "as_api CtxErr = None"
| "as_api (OtherErr m) = None"
| "as_api (Wrapped m e) = as_api e"

primrec as_reset :: "go_error \<Rightarrow> string option" where
  "as_reset (ControlErr e) = None"
| "as_reset (ApiErr e) = None"
| "as_reset (ResetErr s) = Some s"
| "as_reset ErrForbidden = None"
| "as_reset ErrUnauthenticated = None"
| "as_reset ErrSlowConsumer = None"
| "as_reset CtxErr = None"
| "as_reset (OtherErr m) = None"
| "as_reset (Wrapped m e) = as_reset e"

primrec unwrap :: "go_error \<Rightarrow> go_error" where
  "unwrap (ControlErr e) = ControlErr e"
| "unwrap (ApiErr e) = ApiErr e"
| "unwrap (ResetErr s) = ResetErr s"
| "unwrap ErrForbidden = ErrForbidden"
| "unwrap ErrUnauthenticated = ErrUnauthenticated"
| "unwrap ErrSlowConsumer = ErrSlowConsumer"
| "unwrap CtxErr = CtxErr"
| "unwrap (OtherErr m) = OtherErr m"
| "unwrap (Wrapped m e) = unwrap e"

section \<open>The public error contract\<close>

definition httpStatus :: "string \<Rightarrow> nat option" where
  "httpStatus = map_of
    [(''INVALID_ARGUMENT'', 400), (''UNAUTHENTICATED'', 401), (''FORBIDDEN'', 403), (''NOT_FOUND'', 404),
     (''REVISION_CONFLICT'', 409), (''IDEMPOTENCY_CONFLICT'', 409), (''STALE_EXECUTION'', 409),
     (''PROFILE_UNQUALIFIED'', 409), (''EFFECT_UNCERTAIN'', 409),
     (''CAPACITY_EXHAUSTED'', 429), (''BUDGET_EXHAUSTED'', 429), (''DEPENDENCY_UNAVAILABLE'', 503)]"

definition invalidArgument :: "string \<Rightarrow> api_error" where
  "invalidArgument m =
     \<lparr>status = 400, code = ''INVALID_ARGUMENT'', message = m, retryable = False, field = []\<rparr>"

definition dependencyUnavailable :: api_error where
  "dependencyUnavailable =
     \<lparr>status = 503, code = ''DEPENDENCY_UNAVAILABLE'', message = ''dependency unavailable'',
      retryable = True, field = []\<rparr>"

definition fromControl :: "go_error \<Rightarrow> api_error" where
  "fromControl err =
     (case as_control err of
        Some ce \<Rightarrow>
          \<lparr>status = (case httpStatus (Code ce) of Some s \<Rightarrow> s | None \<Rightarrow> 503), code = Code ce,
           message = Message ce, retryable = (Retryable ce \<and> Code ce \<noteq> ''EFFECT_UNCERTAIN''), field = []\<rparr>
      | None \<Rightarrow>
          if unwrap err = ErrForbidden
          then \<lparr>status = 403, code = ''FORBIDDEN'', message = ''not permitted'', retryable = False, field = []\<rparr>
          else dependencyUnavailable)"

definition truncate_str :: "string \<Rightarrow> nat \<Rightarrow> string" where
  "truncate_str s n = (if length s \<le> n then s else take n s)"

definition retryAfterSeconds :: "api_error \<Rightarrow> string" where
  "retryAfterSeconds ae = (if code ae = ''CAPACITY_EXHAUSTED'' then ''5'' else ''2'')"

text \<open>The condition under which errorEnvelope sets Retry-After.\<close>

definition sends_retry_after :: "api_error \<Rightarrow> bool" where
  "sends_retry_after ae \<longleftrightarrow> retryable ae \<and> (status ae = 429 \<or> status ae = 503)"

section \<open>Owner statuses\<close>

text \<open>
  grpc-go's status codes, and what status.FromError makes of an error: a status with its code
  and message, or no status at all.
\<close>

datatype grpc_code =
    OK | Canceled | Unknown | InvalidArgument | DeadlineExceeded | NotFound | AlreadyExists
  | PermissionDenied | ResourceExhausted | FailedPrecondition | Aborted | OutOfRange
  | Unimplemented | Internal | Unavailable | DataLoss | Unauthenticated

datatype rpc_error = StatusErr grpc_code string | NotStatus string

definition publicConflicts :: "string \<Rightarrow> bool" where
  "publicConflicts c \<longleftrightarrow> c \<in> {''REVISION_CONFLICT'', ''IDEMPOTENCY_CONFLICT'', ''STALE_EXECUTION'',
     ''PROFILE_UNQUALIFIED'', ''BUDGET_EXHAUSTED'', ''CAPACITY_EXHAUSTED'', ''EFFECT_UNCERTAIN''}"

definition ctl_err :: "string \<Rightarrow> string \<Rightarrow> bool \<Rightarrow> control_error" where
  "ctl_err c m r = \<lparr>Code = c, Message = m, Retryable = r\<rparr>"

definition map_status :: "grpc_code \<Rightarrow> string \<Rightarrow> string \<Rightarrow> control_error" where
  "map_status st msg service =
     (let c = fst (Cut msg CHR '':'') in
      if c = ''EFFECT_UNCERTAIN'' then ctl_err ''EFFECT_UNCERTAIN'' msg False
      else (case st of
          NotFound \<Rightarrow> ctl_err ''NOT_FOUND'' ''not found'' False
        | InvalidArgument \<Rightarrow> ctl_err ''INVALID_ARGUMENT'' msg False
        | Aborted \<Rightarrow> ctl_err (if publicConflicts c then c else ''REVISION_CONFLICT'') msg False
        | FailedPrecondition \<Rightarrow> ctl_err (if publicConflicts c then c else ''REVISION_CONFLICT'') msg False
        | PermissionDenied \<Rightarrow> ctl_err ''FORBIDDEN'' msg False
        | Unauthenticated \<Rightarrow> ctl_err ''FORBIDDEN'' msg False
        | AlreadyExists \<Rightarrow> ctl_err ''IDEMPOTENCY_CONFLICT'' msg False
        | ResourceExhausted \<Rightarrow> ctl_err ''CAPACITY_EXHAUSTED'' msg True
        | Unavailable \<Rightarrow> ctl_err ''DEPENDENCY_UNAVAILABLE'' (service @ '' unavailable'') True
        | Canceled \<Rightarrow> ctl_err ''DEPENDENCY_UNAVAILABLE'' (service @ '' call ended'') True
        | DeadlineExceeded \<Rightarrow> ctl_err ''DEPENDENCY_UNAVAILABLE'' (service @ '' call ended'') True
        | _ \<Rightarrow> ctl_err ''DEPENDENCY_UNAVAILABLE'' (service @ '' error'') True))"

fun MapError :: "rpc_error option \<Rightarrow> string \<Rightarrow> control_error option" where
  "MapError None service = None"
| "MapError (Some (NotStatus m)) service =
     Some (ctl_err ''DEPENDENCY_UNAVAILABLE'' (service @ '' unavailable'') True)"
| "MapError (Some (StatusErr st msg)) service = Some (map_status st msg service)"

text \<open>The error of an adapter method that failed: a non-nil gRPC error, mapped.\<close>

definition mapErr :: "string \<Rightarrow> rpc_error \<Rightarrow> go_error" where
  "mapErr service e = ControlErr (the (MapError (Some e) service))"

lemma mapErr_simps:
  "mapErr service (NotStatus m) = ControlErr (ctl_err ''DEPENDENCY_UNAVAILABLE'' (service @ '' unavailable'') True)"
  "mapErr service (StatusErr st msg) = ControlErr (map_status st msg service)"
  by (simp_all add: mapErr_def)

section \<open>The gateway without a placement\<close>

datatype gateway_op =
    ListSources | RegisterSource | GetSource | DeleteSource | ReplaceSourceAccess | Search
  | BeginSourceUpload | CreateSnapshot | GetSnapshot | RecallMemories | ListMemories
  | ProposeMemory | DecideMemory
  | ListCatalog | DiscoverServer | ReviewDescriptor | ListGrants | CreateGrant | GetGrant
  | GetRevocationProgress | RevokeGrant | CreateToolCall | GetToolCall | ReconcileToolCall

record unavailable = Service :: string

definition unavailable_err :: "unavailable \<Rightarrow> control_error" where
  "unavailable_err u = ctl_err ''DEPENDENCY_UNAVAILABLE'' (Service u @ '' is not placed for this API'') False"

text \<open>Every method of Unavailable answers its zero value and this error.\<close>

definition unavailable_call :: "unavailable \<Rightarrow> gateway_op \<Rightarrow> go_error + 'a" where
  "unavailable_call u op = Inl (ControlErr (unavailable_err u))"

section \<open>The contract of an owner port\<close>

definition public_codes :: "string set" where
  "public_codes = dom httpStatus"

lemma public_codes_eq:
  "public_codes = {''INVALID_ARGUMENT'', ''UNAUTHENTICATED'', ''FORBIDDEN'', ''NOT_FOUND'',
     ''REVISION_CONFLICT'', ''IDEMPOTENCY_CONFLICT'', ''STALE_EXECUTION'', ''PROFILE_UNQUALIFIED'',
     ''EFFECT_UNCERTAIN'', ''CAPACITY_EXHAUSTED'', ''BUDGET_EXHAUSTED'', ''DEPENDENCY_UNAVAILABLE''}"
  by (simp add: public_codes_def httpStatus_def dom_map_of_conv_image_fst)

lemma publicConflicts_public: "publicConflicts c \<Longrightarrow> c \<in> public_codes"
  by (auto simp: publicConflicts_def public_codes_eq)

lemma httpStatus_range: "httpStatus c = Some s \<Longrightarrow> s \<in> {400, 401, 403, 404, 409, 429, 503}"
  by (auto simp: httpStatus_def split: if_splits)

lemma httpStatus_503: "httpStatus c = Some 503 \<longleftrightarrow> c = ''DEPENDENCY_UNAVAILABLE''"
  by (auto simp: httpStatus_def split: if_splits)

locale owner_port =
  fixes errs :: "control_error set"
  assumes public: "e \<in> errs \<Longrightarrow> Code e \<in> public_codes"
    and uncertain: "e \<in> errs \<Longrightarrow> Code e = ''EFFECT_UNCERTAIN'' \<Longrightarrow> \<not> Retryable e"
    and conflicts_final: "e \<in> errs \<Longrightarrow> Retryable e \<Longrightarrow> httpStatus (Code e) \<in> {Some 429, Some 503}"
begin

text \<open>The envelope keeps the owner's code, its status is the contract's for that code.\<close>

lemma envelope_code: "e \<in> errs \<Longrightarrow> code (fromControl (ControlErr e)) = Code e"
  by (simp add: fromControl_def)

lemma envelope_status: "e \<in> errs \<Longrightarrow> httpStatus (Code e) = Some (status (fromControl (ControlErr e)))"
  using public [of e] by (auto simp: fromControl_def public_codes_def split: option.splits)

lemma envelope_retryable: "e \<in> errs \<Longrightarrow> retryable (fromControl (ControlErr e)) = Retryable e"
  using uncertain [of e] by (auto simp: fromControl_def)

text \<open>A retryable refusal always tells the client when to come back, and only it does.\<close>

lemma envelope_paced: "e \<in> errs \<Longrightarrow> sends_retry_after (fromControl (ControlErr e)) = Retryable e"
  using conflicts_final [of e] envelope_status [of e] envelope_retryable [of e]
  by (auto simp: sends_retry_after_def)

end

definition mapped_errors :: "control_error set" where
  "mapped_errors = {e. \<exists>r s. MapError r s = Some e}"

lemma map_status_cases:
  "Code (map_status st msg s) \<in> public_codes \<and>
   (Code (map_status st msg s) = ''EFFECT_UNCERTAIN'' \<longrightarrow> \<not> Retryable (map_status st msg s)) \<and>
   (Retryable (map_status st msg s) \<longrightarrow> httpStatus (Code (map_status st msg s)) \<in> {Some 429, Some 503})"
  using publicConflicts_public [of "fst (Cut msg CHR '':'')"]
  by (cases st) (auto simp: map_status_def ctl_err_def Let_def public_codes_eq httpStatus_def)

interpretation mapped: owner_port mapped_errors
proof unfold_locales
  fix e
  assume "e \<in> mapped_errors"
  then obtain r s where "MapError r s = Some e" by (auto simp: mapped_errors_def)
  then consider m where "r = Some (NotStatus m)" | st msg where "e = map_status st msg s"
    by (cases "(r, s)" rule: MapError.cases) auto
  then have "Code e \<in> public_codes \<and> (Code e = ''EFFECT_UNCERTAIN'' \<longrightarrow> \<not> Retryable e) \<and>
      (Retryable e \<longrightarrow> httpStatus (Code e) \<in> {Some 429, Some 503})"
  proof cases
    case 1
    with \<open>MapError r s = Some e\<close> show ?thesis
      by (auto simp: ctl_err_def public_codes_eq httpStatus_def)
  next
    case 2
    then show ?thesis using map_status_cases by simp
  qed
  then show "Code e \<in> public_codes" "Code e = ''EFFECT_UNCERTAIN'' \<Longrightarrow> \<not> Retryable e"
    "Retryable e \<Longrightarrow> httpStatus (Code e) \<in> {Some 429, Some 503}"
    by auto
qed

interpretation unplaced: owner_port "range unavailable_err"
  by unfold_locales (auto simp: unavailable_err_def ctl_err_def public_codes_eq)

lemma mapped_errorsI: "MapError r s = Some e \<Longrightarrow> e \<in> mapped_errors"
  by (auto simp: mapped_errors_def)

section \<open>Properties\<close>

text \<open>
  C28. Whatever status an owner answers, the public envelope has a code of the contract and that
  code's HTTP status, keeps the owner's code, is never retryable for EFFECT_UNCERTAIN, and carries
  Retry-After exactly when the refusal is retryable.
\<close>

theorem owner_error_envelope:
  assumes "MapError r service = Some e"
  shows "code (fromControl (ControlErr e)) = Code e
    \<and> httpStatus (Code e) = Some (status (fromControl (ControlErr e)))
    \<and> retryable (fromControl (ControlErr e)) = Retryable e
    \<and> sends_retry_after (fromControl (ControlErr e)) = Retryable e
    \<and> (Code e = ''EFFECT_UNCERTAIN'' \<longrightarrow> \<not> Retryable e)"
  using mapped_errorsI [OF assms] mapped.envelope_code mapped.envelope_status mapped.envelope_retryable
    mapped.envelope_paced mapped.uncertain by blast

theorem owner_error_envelope_witness:
  "sends_retry_after (fromControl (ControlErr (map_status Unavailable ''EFFECT_UNCERTAIN: pending'' ''control'')))
   = Retryable (map_status Unavailable ''EFFECT_UNCERTAIN: pending'' ''control'')
   \<and> \<not> Retryable (map_status Unavailable ''EFFECT_UNCERTAIN: pending'' ''control'')"
proof -
  have "MapError (Some (StatusErr Unavailable ''EFFECT_UNCERTAIN: pending'')) ''control''
      = Some (map_status Unavailable ''EFFECT_UNCERTAIN: pending'' ''control'')"
    by simp
  from owner_error_envelope [OF this] show ?thesis by (simp add: map_status_def ctl_err_def)
qed

end
