(* ===== verification/GoTime.thy ===== *)
theory GoTime
  imports Prelude
begin

text \<open>
  Go times as the service uses them: a time.Time on the internal clock, time.Unix, Time.Add, the
  RFC 3339 text of an event's time (Format with RFC3339Nano, in UTC, as encodeFrame of
  internal/transport/http/sse.go calls it) and the reading of a protobuf timestamp (AsTime).
\<close>

section \<open>Time\<close>

text \<open>
  A time.Time as nanoseconds since the year 1. time.Unix adds the epoch offset in an int64, which
  wraps; Time.Add saturates its seconds; a Duration is an int64 number of nanoseconds.
\<close>

definition wrap64 :: "int \<Rightarrow> int" where
  "wrap64 x = (x + 2 ^ 63) mod 2 ^ 64 - 2 ^ 63"

definition unix_to_internal :: int where
  "unix_to_internal = 62135596800"

definition Unix :: "int \<Rightarrow> int" where
  "Unix s = wrap64 (s + unix_to_internal) * 10 ^ 9"

definition sat64 :: "int \<Rightarrow> int" where
  "sat64 x = (if x \<ge> 2 ^ 63 then 2 ^ 63 - 1 else if x < - (2 ^ 63) then - (2 ^ 63 - 1) else x)"

definition Add :: "int \<Rightarrow> int \<Rightarrow> int" where
  "Add t d = sat64 ((t + d) div 10 ^ 9) * 10 ^ 9 + (t + d) mod 10 ^ 9"

lemma wrap64_le: "- (2 ^ 63) \<le> x \<Longrightarrow> wrap64 x \<le> x"
  unfolding wrap64_def using zmod_le_nonneg_dividend [of "x + 2 ^ 63" "2 ^ 64"] by simp

lemma sat64_le: "- (2 ^ 63) \<le> x \<Longrightarrow> sat64 x \<le> x"
  by (simp add: sat64_def)

lemma wrap64_ge: "- (2 ^ 63) \<le> wrap64 x"
  by (simp add: wrap64_def)

lemma wrap64_id: "- (2 ^ 63) \<le> x \<Longrightarrow> x < 2 ^ 63 \<Longrightarrow> wrap64 x = x"
  by (simp add: wrap64_def)

lemma Unix_Add_le:
  assumes "- (2 ^ 63) \<le> s" "0 \<le> d"
  shows "Add (Unix s) d \<le> (s + unix_to_internal) * 10 ^ 9 + d"
proof -
  let ?t = "Unix s + d"
  have w: "wrap64 (s + unix_to_internal) \<le> s + unix_to_internal"
    using assms(1) by (intro wrap64_le) (simp add: unix_to_internal_def)
  have "- (2 ^ 63) * 10 ^ 9 \<le> ?t"
    using wrap64_ge [of "s + unix_to_internal"] assms(2) by (simp add: Unix_def)
  then have "- (2 ^ 63) \<le> ?t div 10 ^ 9" 
    using zdiv_mono1 [of "- (2 ^ 63) * 10 ^ 9" ?t "10 ^ 9"] by simp
  then have "sat64 (?t div 10 ^ 9) * 10 ^ 9 \<le> (?t div 10 ^ 9) * 10 ^ 9"
    by (intro mult_right_mono sat64_le) auto
  then have "Add (Unix s) d \<le> (?t div 10 ^ 9) * 10 ^ 9 + ?t mod 10 ^ 9"
    unfolding Add_def by linarith
  also have "\<dots> = ?t" by (rule div_mult_mod_eq)
  also have "\<dots> \<le> (s + unix_to_internal) * 10 ^ 9 + d" using w by (simp add: Unix_def)
  finally show ?thesis .
qed

section \<open>RFC 3339\<close>

definition pad2 :: "nat \<Rightarrow> string" where
  "pad2 n = [digit_char (n div 10 mod 10), digit_char (n mod 10)]"

definition pad4 :: "nat \<Rightarrow> string" where
  "pad4 n = (if n < 10000 then pad2 (n div 100) @ pad2 (n mod 100) else dec n)"

definition leap :: "nat \<Rightarrow> bool" where
  "leap y \<longleftrightarrow> y mod 4 = 0 \<and> (y mod 100 \<noteq> 0 \<or> y mod 400 = 0)"

definition month_lengths :: "nat \<Rightarrow> nat list" where
  "month_lengths y = [31, if leap y then 29 else 28, 31, 30, 31, 30, 31, 31, 30, 31, 30, 31]"

text \<open>The year and the day of the year of a day counted from 1 January of the year 1.\<close>

definition year_day :: "nat \<Rightarrow> nat \<times> nat" where
  "year_day d =
     (let n400 = d div 146097; d1 = d mod 146097;
          n100 = min 3 (d1 div 36524); d2 = d1 - 36524 * n100;
          n4 = d2 div 1461; d3 = d2 mod 1461;
          n1 = min 3 (d3 div 365)
      in (1 + 400 * n400 + 100 * n100 + 4 * n4 + n1, d3 - 365 * n1))"

fun month_day :: "nat list \<Rightarrow> nat \<Rightarrow> nat \<Rightarrow> nat \<times> nat" where
  "month_day [] m d = (m, Suc d)"
| "month_day (l # ls) m d = (if d < l then (m, Suc d) else month_day ls (Suc m) (d - l))"

definition date_text :: "nat \<Rightarrow> string" where
  "date_text d =
     (let (y, yd) = year_day d; (m, md) = month_day (month_lengths y) 1 yd
      in pad4 y @ ''-'' @ pad2 m @ ''-'' @ pad2 md)"

definition clock_text :: "nat \<Rightarrow> string" where
  "clock_text s = pad2 (s div 3600) @ '':'' @ pad2 (s div 60 mod 60) @ '':'' @ pad2 (s mod 60)"

text \<open>The fraction without its trailing zeros, nothing when it is zero.\<close>

fun drop_zeros :: "string \<Rightarrow> string" where
  "drop_zeros [] = []"
| "drop_zeros (c # cs) = (if c = CHR ''0'' then drop_zeros cs else c # cs)"

fun nine_digits :: "nat \<Rightarrow> nat \<Rightarrow> string" where
  "nine_digits 0 n = []"
| "nine_digits (Suc k) n = nine_digits k (n div 10) @ [digit_char (n mod 10)]"

definition fraction_text :: "nat \<Rightarrow> string" where
  "fraction_text n = (if n = 0 then [] else CHR ''.'' # rev (drop_zeros (rev (nine_digits 9 n))))"

text \<open>The years of a protobuf timestamp are 1 to 9999: the instant is not negative.\<close>

definition RFC3339Nano :: "int \<Rightarrow> string" where
  "RFC3339Nano t =
     (let n = nat t; s = n div 1000000000
      in date_text (s div 86400) @ ''T'' @ clock_text (s mod 86400) @ fraction_text (n mod 1000000000) @ ''Z'')"

text \<open>A protobuf timestamp, seconds and nanoseconds; an absent one reads as the epoch.\<close>

type_synonym timestamp = "(int \<times> nat) option"

definition AsTime :: "timestamp \<Rightarrow> int" where
  "AsTime ts = (case ts of None \<Rightarrow> Unix 0 | Some (s, n) \<Rightarrow> Unix s + int n)"

text \<open>timestamppb.New: Time.Unix wraps like time.Unix.\<close>

definition timestamppb_New :: "int \<Rightarrow> timestamp" where
  "timestamppb_New t = Some (wrap64 (t div 10 ^ 9 - unix_to_internal), nat (t mod 10 ^ 9))"

lemma AsTime_New:
  assumes "0 \<le> t" "t < 2 ^ 63 * 10 ^ 9"
  shows "AsTime (timestamppb_New t) = t"
proof -
  have "0 \<le> t div 10 ^ 9" "t div 10 ^ 9 < 2 ^ 63"
    using assms by (simp_all add: pos_imp_zdiv_nonneg_iff div_less_iff_less_mult)
  then have "wrap64 (t div 10 ^ 9 - unix_to_internal) = t div 10 ^ 9 - unix_to_internal" "wrap64 (t div 10 ^ 9) = t div 10 ^ 9"
    by (auto intro!: wrap64_id simp: unix_to_internal_def)
  then show ?thesis by (simp add: timestamppb_New_def AsTime_def Unix_def)
qed

text \<open>The clock part of a frame's time only has the characters of a date.\<close>

definition date_char :: "char \<Rightarrow> bool" where
  "date_char c \<longleftrightarrow> is_digit c \<or> c \<in> set ''-:.TZ''"

lemma list_all_pad2 [simp]: "list_all date_char (pad2 n)"
  by (simp add: pad2_def date_char_def)

lemma date_digits: "list_all date_char (dec n)"
  using dec_digits by (auto simp: list_all_iff date_char_def)

lemma list_all_nine [simp]: "list_all date_char (nine_digits k n)"
  by (induction k arbitrary: n) (auto simp: date_char_def)

lemma list_all_drop_zeros: "list_all P s \<Longrightarrow> list_all P (drop_zeros s)"
  by (induction s) auto

lemma RFC3339Nano_chars: "list_all date_char (RFC3339Nano t)"
  by (auto simp: RFC3339Nano_def Let_def date_text_def clock_text_def fraction_text_def pad4_def date_digits
      list_all_drop_zeros split: prod.splits) (auto simp: date_char_def)

end
