(* ===== verification/Events.thy ===== *)
theory Events
  imports Digest Errors GoTime
begin

text \<open>
  Durable events, from Control's stream to the wire: enumWord and StreamEvents of
  internal/adapters/control/client.go, EventFrame of internal/application/principal.go and the
  frame encoders of internal/transport/http/sse.go (encodeFrame, encodeEnd, encodeReset,
  omitEmpty, encode).

  Control's answers to one StreamEvents call are a script (\<open>owner_script\<close>): the cursor
  page, the outcome of opening the stream, its header, the messages it delivers and how it ends.
  A protobuf enum value is represented by the name its String method gives. The SSE encoder of
  gin-contrib is the parameter \<open>sse_encode\<close>. The locale \<open>event_source\<close> is what the stream
  handler relies on: the order of the callbacks and when a reset is reported.
\<close>

section \<open>Owner messages\<close>

definition enumWord :: "string \<Rightarrow> string \<Rightarrow> string" where
  "enumWord nm prefix = ToLower (TrimPrefix nm prefix)"

lemma enumWord_prefixed [simp]: "enumWord (p @ s) p = ToLower s"
  by (simp add: enumWord_def)

record operation_changed =
  ChLifecycle :: string
  ChPhase :: string
  ChControl :: string
  ChCleanup :: string
  ChFinance :: string
  ChFailureCode :: string
  ChStep :: string
  ChVisit :: string
  ChAttemptOrdinal :: string
  ChVerdict :: string
  ChVerdictCode :: string
  ChNode :: string
  ChNodeState :: string
  ChRound :: string
  ChOutcomeCode :: string

record owner_event =
  EvOperationId :: string
  EvEventSeq :: string
  EvTransitionId :: string
  EvEventType :: string
  EvRevision :: string
  EvOccurredAt :: timestamp
  EvChanged :: operation_changed

record event_frame =
  OperationID :: string
  EventSeq :: string
  TransitionID :: string
  EventType :: string
  Revision :: string
  OccurredAt :: int
  Lifecycle :: string
  Phase :: string
  Control :: string
  Cleanup :: string
  Finance :: string
  FailureCode :: string
  Step :: string
  Visit :: string
  AttemptOrdinal :: string
  Verdict :: string
  VerdictCode :: string
  Node :: string
  NodeState :: string
  Round :: string
  OutcomeCode :: string

text \<open>The frame StreamEvents builds from one message: an unspecified verdict stays empty.\<close>

definition to_frame :: "owner_event \<Rightarrow> event_frame" where
  "to_frame ev =
     (let ch = EvChanged ev in
      \<lparr>OperationID = EvOperationId ev, EventSeq = EvEventSeq ev, TransitionID = EvTransitionId ev,
       EventType = EvEventType ev, Revision = EvRevision ev, OccurredAt = AsTime (EvOccurredAt ev),
       Lifecycle = enumWord (ChLifecycle ch) ''LIFECYCLE_'', Phase = ChPhase ch,
       Control = enumWord (ChControl ch) ''CONTROL_STATE_'', Cleanup = enumWord (ChCleanup ch) ''CLEANUP_STATE_'',
       Finance = enumWord (ChFinance ch) ''FINANCE_STATE_'', FailureCode = ChFailureCode ch,
       Step = ChStep ch, Visit = ChVisit ch, AttemptOrdinal = ChAttemptOrdinal ch,
       Verdict = (if ChVerdict ch \<noteq> ''VERDICT_UNSPECIFIED'' then enumWord (ChVerdict ch) ''VERDICT_'' else []),
       VerdictCode = ChVerdictCode ch, Node = ChNode ch, NodeState = ChNodeState ch, Round = ChRound ch,
       OutcomeCode = ChOutcomeCode ch\<rparr>)"

section \<open>StreamEvents\<close>

record events_page =
  ResetRequired :: bool
  CoveredEventSeq :: string

datatype recv_end = EOF | RecvErr rpc_error

record owner_script =
  list_page :: "rpc_error + events_page"
  open_stream :: "rpc_error option"
  header_md :: "rpc_error + bool"
  msgs :: "owner_event list"
  fin :: recv_end

definition stream_end :: "recv_end \<Rightarrow> go_error option" where
  "stream_end e = (case e of EOF \<Rightarrow> None | RecvErr r \<Rightarrow> Some (mapErr ''control'' r))"

text \<open>
  The receive loop and the call: \<open>adm\<close> and \<open>emit\<close> are the caller's callbacks over the caller's
  state; the result is the returned error and the state.
\<close>

fun recv_loop ::
  "(event_frame \<Rightarrow> 's \<Rightarrow> go_error option \<times> 's) \<Rightarrow> owner_event list \<Rightarrow> recv_end \<Rightarrow> 's \<Rightarrow> go_error option \<times> 's" where
  "recv_loop emit [] e s = (stream_end e, s)"
| "recv_loop emit (m # ms) e s =
     (case emit (to_frame m) s of
        (Some err, s') \<Rightarrow> (Some err, s')
      | (None, s') \<Rightarrow> recv_loop emit ms e s')"

definition StreamEvents ::
  "('s \<Rightarrow> 's) \<Rightarrow> (event_frame \<Rightarrow> 's \<Rightarrow> go_error option \<times> 's) \<Rightarrow> owner_script \<Rightarrow> 's \<Rightarrow> go_error option \<times> 's" where
  "StreamEvents adm emit scr s =
     (case list_page scr of
        Inl e \<Rightarrow> (Some (mapErr ''control'' e), s)
      | Inr page \<Rightarrow>
          if ResetRequired page then (Some (ResetErr (CoveredEventSeq page)), s)
          else (case open_stream scr of
              Some e \<Rightarrow> (Some (mapErr ''control'' e), s)
            | None \<Rightarrow>
                (case header_md scr of
                   Inl e \<Rightarrow> (Some (mapErr ''control'' e), s)
                 | Inr md \<Rightarrow>
                     if \<not> md then (if msgs scr = [] then stream_end (fin scr) else None, s)
                     else recv_loop emit (msgs scr) (fin scr) (adm s))))"

section \<open>Encoding\<close>

record sse_event =
  SseId :: string
  SseEvent :: string
  SseData :: string

definition encode :: "(sse_event \<Rightarrow> string option) \<Rightarrow> sse_event \<Rightarrow> string option" where
  "encode sse_encode ev = sse_encode ev"

definition omitEmpty :: "(string \<times> json) list \<Rightarrow> (string \<times> json) list" where
  "omitEmpty m = filter (\<lambda>(k, v). v \<noteq> JStr []) m"

definition frame_payload :: "event_frame \<Rightarrow> json" where
  "frame_payload f =
     JObj [(''operationId'', JStr (OperationID f)), (''eventSeq'', JStr (EventSeq f)),
           (''transitionId'', JStr (TransitionID f)), (''eventType'', JStr (EventType f)),
           (''revision'', JStr (Revision f)), (''occurredAt'', JStr (RFC3339Nano (OccurredAt f))),
           (''payload'', JObj (omitEmpty
             [(''lifecycle'', JStr (Lifecycle f)), (''phase'', JStr (Phase f)), (''control'', JStr (Control f)),
              (''cleanup'', JStr (Cleanup f)), (''finance'', JStr (Finance f)),
              (''failureCode'', JStr (FailureCode f)), (''step'', JStr (Step f)), (''visit'', JStr (Visit f)),
              (''attemptOrdinal'', JStr (AttemptOrdinal f)), (''verdict'', JStr (Verdict f)),
              (''verdictCode'', JStr (VerdictCode f)), (''node'', JStr (Node f)),
              (''nodeState'', JStr (NodeState f)), (''round'', JStr (Round f)),
              (''outcomeCode'', JStr (OutcomeCode f))]))]"

definition marshal_event :: "(sse_event \<Rightarrow> string option) \<Rightarrow> string \<Rightarrow> string \<Rightarrow> json \<Rightarrow> string option" where
  "marshal_event sse_encode eid ty v =
     (case marshal v of
        Inl m \<Rightarrow> None
      | Inr payload \<Rightarrow> encode sse_encode \<lparr>SseId = eid, SseEvent = ty, SseData = payload\<rparr>)"

definition encodeFrame :: "(sse_event \<Rightarrow> string option) \<Rightarrow> event_frame \<Rightarrow> string option" where
  "encodeFrame sse_encode f = marshal_event sse_encode (EventSeq f) (EventType f) (frame_payload f)"

definition encodeEnd :: "(sse_event \<Rightarrow> string option) \<Rightarrow> string \<Rightarrow> string \<Rightarrow> string option" where
  "encodeEnd sse_encode operationID reason =
     marshal_event sse_encode [] ''end'' (JObj [(''operationId'', JStr operationID), (''reason'', JStr reason)])"

definition encodeReset :: "(sse_event \<Rightarrow> string option) \<Rightarrow> string \<Rightarrow> string \<Rightarrow> string option" where
  "encodeReset sse_encode operationID covered =
     marshal_event sse_encode [] ''reset_required''
       (JObj [(''operationId'', JStr operationID), (''coveredEventSeq'', JStr covered)])"

lemma numbers_ok_omitEmpty:
  "list_all (\<lambda>(k, v). numbers_ok v) ms \<Longrightarrow> list_all (\<lambda>(k, v). numbers_ok v) (omitEmpty ms)"
  by (auto simp: omitEmpty_def list_all_iff)

lemma numbers_ok_payload [simp]: "numbers_ok (frame_payload f)"
  by (simp add: frame_payload_def numbers_ok_omitEmpty)

lemma marshal_event_strings:
  assumes "numbers_ok v"
  obtains payload where "marshal v = Inr payload" "printable payload"
    "marshal_event sse_encode eid ty v = sse_encode \<lparr>SseId = eid, SseEvent = ty, SseData = payload\<rparr>"
  using assms marshal_printable [of v] by (auto simp: marshal_def marshal_event_def encode_def)

text \<open>The frame document can be read back: its members are the frame's, the empty ones absent.\<close>

fun json_member :: "json \<Rightarrow> string \<Rightarrow> string" where
  "json_member (JObj ms) k = (case map_of ms k of Some (JStr s) \<Rightarrow> s | _ \<Rightarrow> [])"
| "json_member v k = []"

lemma map_of_omitEmpty:
  "distinct (map fst ms) \<Longrightarrow>
   map_of (omitEmpty ms) k = (case map_of ms k of Some v \<Rightarrow> if v = JStr [] then None else Some v | None \<Rightarrow> None)"
  unfolding omitEmpty_def
  by (induction ms) (auto split: option.splits simp: map_of_eq_None_iff image_iff)

lemma json_member_omitEmpty:
  "distinct (map fst ms) \<Longrightarrow> json_member (JObj (omitEmpty ms)) k = json_member (JObj ms) k"
  by (auto simp: map_of_omitEmpty split: option.splits json.splits)

section \<open>The contract of an event source\<close>

datatype act = Admit | Emit event_frame

text \<open>The callbacks a call makes when none fails, and its result.\<close>

definition log_admit :: "act list \<Rightarrow> act list" where
  "log_admit l = l @ [Admit]"

definition log_emit :: "event_frame \<Rightarrow> act list \<Rightarrow> go_error option \<times> act list" where
  "log_emit f l = (None, l @ [Emit f])"

definition actions :: "owner_script \<Rightarrow> act list" where
  "actions scr = snd (StreamEvents log_admit log_emit scr [])"

definition verdict :: "owner_script \<Rightarrow> go_error option" where
  "verdict scr = fst (StreamEvents log_admit log_emit scr [])"


definition resets :: "go_error option \<Rightarrow> bool" where
  "resets v \<longleftrightarrow> (\<exists>e s. v = Some e \<and> as_reset e = Some s)"

locale event_source =
  fixes acts :: "'q \<Rightarrow> act list"
    and result :: "'q \<Rightarrow> go_error option"
  assumes admit_first: "acts q = [] \<or> (\<exists>fs. acts q = Admit # map Emit fs)"
    and reset_early: "resets (result q) \<Longrightarrow> acts q = []"
begin

lemma emit_needs_admit: "Emit f \<in> set (acts q) \<Longrightarrow> hd (acts q) = Admit"
  using admit_first [of q] by auto

lemma admit_once: "count_list (acts q) Admit \<le> 1"
proof -
  have "count_list (map Emit fs) Admit = 0" for fs by (induction fs) auto
  then show ?thesis using admit_first [of q] by auto
qed

lemma admitted_no_reset: "Admit \<in> set (acts q) \<Longrightarrow> \<not> resets (result q)"
  using reset_early by fastforce

end

lemma recv_loop_log: "recv_loop log_emit ms e l = (stream_end e, l @ map (Emit \<circ> to_frame) ms)"
  by (induction ms arbitrary: l) (auto simp: log_emit_def)

lemma actions_cases:
  "(actions scr = [] \<and> \<not> (\<exists>page. list_page scr = Inr page \<and> \<not> ResetRequired page \<and> open_stream scr = None \<and> header_md scr = Inr True)) \<or>
   (actions scr = Admit # map (Emit \<circ> to_frame) (msgs scr) \<and> verdict scr = stream_end (fin scr) \<and>
    (\<exists>page. list_page scr = Inr page \<and> \<not> ResetRequired page \<and> open_stream scr = None \<and> header_md scr = Inr True))"
  by (auto simp: actions_def verdict_def StreamEvents_def recv_loop_log log_admit_def split: sum.splits option.splits)

lemma mapErr_no_reset [simp]: "as_reset (mapErr svc r) = None"
  by (cases r) (simp_all add: mapErr_simps)

lemma stream_end_no_reset: "\<not> resets (stream_end e)"
  by (cases e) (auto simp: stream_end_def resets_def)

interpretation control_events: event_source actions verdict
proof unfold_locales
  fix q
  show "actions q = [] \<or> (\<exists>fs. actions q = Admit # map Emit fs)"
    using actions_cases [of q] by (metis map_map)
  show "resets (verdict q) \<Longrightarrow> actions q = []"
    using actions_cases [of q] stream_end_no_reset by metis
qed



section \<open>Properties\<close>


text \<open>
  A frame's document is encoded as one line: its JSON has no byte below 32, so no value an
  owner sends can break out of the data field of the event.
\<close>

theorem frame_is_one_line:
  "\<exists>payload. encodeFrame enc f = enc \<lparr>SseId = EventSeq f, SseEvent = EventType f, SseData = payload\<rparr>
     \<and> marshal (frame_payload f) = Inr payload \<and> printable payload"
proof -
  obtain payload where "marshal (frame_payload f) = Inr payload" "printable payload"
    "marshal_event enc (EventSeq f) (EventType f) (frame_payload f) = enc \<lparr>SseId = EventSeq f, SseEvent = EventType f, SseData = payload\<rparr>"
    using marshal_event_strings [OF numbers_ok_payload] by blast
  then show ?thesis by (auto simp: encodeFrame_def)
qed

end
