(* ===== verification/Limiter.thy ===== *)
theory Limiter
  imports Prelude "HOL-Library.Multiset"
begin

text \<open>
  The bound on open event streams: streamLimiter, newStreamLimiter, acquire and the release
  closure of internal/transport/http/sse.go. The mutex makes acquire and release atomic, so an
  interleaving of handlers is a sequence of these operations.

  The locale \<open>slots\<close> is what the stream handler relies on, a pool that grants a slot exactly when
  the slots then held fit the bound; it is interpreted on the limiter, whose counters are shown
  to represent the multiset of subjects that hold a slot.
\<close>

record stream_limiter =
  max_streams :: int
  perSubject :: int
  total :: int
  bySubject :: "string \<rightharpoonup> int"

definition newStreamLimiter :: "int \<Rightarrow> int \<Rightarrow> stream_limiter" where
  "newStreamLimiter mx per = \<lparr>max_streams = mx, perSubject = per, total = 0, bySubject = Map.empty\<rparr>"

text \<open>A missing key of a Go map reads as zero.\<close>

definition count_of :: "stream_limiter \<Rightarrow> string \<Rightarrow> int" where
  "count_of l s = (case bySubject l s of Some n \<Rightarrow> n | None \<Rightarrow> 0)"

definition acquire :: "stream_limiter \<Rightarrow> string \<Rightarrow> stream_limiter option" where
  "acquire l subject =
     (if (max_streams l > 0 \<and> total l \<ge> max_streams l) \<or> (perSubject l > 0 \<and> count_of l subject \<ge> perSubject l)
      then None
      else Some (l\<lparr>total := total l + 1, bySubject := (bySubject l)(subject \<mapsto> count_of l subject + 1)\<rparr>))"

definition release :: "stream_limiter \<Rightarrow> string \<Rightarrow> stream_limiter" where
  "release l subject =
     (let m = (bySubject l)(subject \<mapsto> count_of l subject - 1) in
      l\<lparr>total := total l - 1, bySubject := (if m subject = Some 0 then m(subject := None) else m)\<rparr>)"

section \<open>The contract of a bounded pool\<close>

datatype 's slot_op = Acquire 's | Release 's

text \<open>A schedule of requests: a refused acquire changes nothing.\<close>

fun run_slots :: "('l \<Rightarrow> 's \<Rightarrow> 'l option) \<Rightarrow> ('l \<Rightarrow> 's \<Rightarrow> 'l) \<Rightarrow> 'l \<Rightarrow> 's slot_op list \<Rightarrow> 'l" where
  "run_slots acq rel l [] = l"
| "run_slots acq rel l (Acquire s # ops) =
     run_slots acq rel (case acq l s of Some l' \<Rightarrow> l' | None \<Rightarrow> l) ops"
| "run_slots acq rel l (Release s # ops) = run_slots acq rel (rel l s) ops"

text \<open>The subjects holding a slot after a schedule, by the bound alone.\<close>

fun held :: "('s multiset \<Rightarrow> bool) \<Rightarrow> 's multiset \<Rightarrow> 's slot_op list \<Rightarrow> 's multiset" where
  "held fits H [] = H"
| "held fits H (Acquire s # ops) = held fits (if fits (add_mset s H) then add_mset s H else H) ops"
| "held fits H (Release s # ops) = held fits (H - {#s#}) ops"

text \<open>Each handler releases the slot it was granted, once: a release is of a held slot.\<close>

fun well_bracketed :: "('s multiset \<Rightarrow> bool) \<Rightarrow> 's multiset \<Rightarrow> 's slot_op list \<Rightarrow> bool" where
  "well_bracketed fits H [] = True"
| "well_bracketed fits H (Acquire s # ops) =
     well_bracketed fits (if fits (add_mset s H) then add_mset s H else H) ops"
| "well_bracketed fits H (Release s # ops) = (s \<in># H \<and> well_bracketed fits (H - {#s#}) ops)"

locale slots =
  fixes acq :: "'l \<Rightarrow> 's \<Rightarrow> 'l option"
    and rel :: "'l \<Rightarrow> 's \<Rightarrow> 'l"
    and rep :: "'l \<Rightarrow> 's multiset \<Rightarrow> bool"
    and fits :: "'s multiset \<Rightarrow> bool"
  assumes granted: "rep l H \<Longrightarrow> acq l s = Some l' \<Longrightarrow> rep l' (add_mset s H)"
    and refused: "rep l H \<Longrightarrow> acq l s = None \<longleftrightarrow> \<not> fits (add_mset s H)"
    and released: "rep l H \<Longrightarrow> s \<in># H \<Longrightarrow> rep (rel l s) (H - {#s#})"
    and fits_fewer: "fits H \<Longrightarrow> fits (H - {#s#})"
begin

lemma granted_iff: "rep l H \<Longrightarrow> (\<exists>l'. acq l s = Some l') \<longleftrightarrow> fits (add_mset s H)"
  using refused [of l H s] by auto

text \<open>The pool refines its specification under every schedule, and never exceeds the bound.\<close>

lemma run_refines:
  assumes "rep l H" "well_bracketed fits H ops"
  shows "rep (run_slots acq rel l ops) (held fits H ops)"
  using assms
proof (induction ops arbitrary: l H)
  case (Cons op ops)
  show ?case
  proof (cases op)
    case (Acquire s)
    then show ?thesis
      using Cons granted [of l H s] refused [of l H s] by (auto split: option.splits)
  next
    case (Release s)
    then show ?thesis using Cons released by auto
  qed
qed simp

lemma run_bounded: "fits H \<Longrightarrow> fits (held fits H ops)"
proof (induction ops arbitrary: H)
  case (Cons op ops)
  then show ?case by (cases op) (auto intro: fits_fewer)
qed simp

lemma release_admits:
  assumes "rep l H" "s \<in># H" "fits H"
  shows "\<exists>l'. acq (rel l s) s = Some l'"
  using granted_iff [OF released [OF assms(1,2)], of s] assms(2,3) by simp

end

section \<open>The limiter is such a pool\<close>

definition within :: "int \<Rightarrow> int \<Rightarrow> string multiset \<Rightarrow> bool" where
  "within mx per H \<longleftrightarrow> (mx > 0 \<longrightarrow> int (size H) \<le> mx) \<and> (per > 0 \<longrightarrow> (\<forall>s. int (count H s) \<le> per))"

text \<open>The counters of a limiter represent the held slots: no zero counter is kept.\<close>

definition limiter_rep :: "int \<Rightarrow> int \<Rightarrow> stream_limiter \<Rightarrow> string multiset \<Rightarrow> bool" where
  "limiter_rep mx per l H \<longleftrightarrow>
     max_streams l = mx \<and> perSubject l = per \<and> total l = int (size H) \<and> within mx per H \<and>
     (\<forall>s. bySubject l s = (if s \<in># H then Some (int (count H s)) else None))"

lemma within_fewer: "within mx per H \<Longrightarrow> within mx per (H - {#s#})"
  using size_mset_mono [of "H - {#s#}" H]
  by (auto simp: within_def) (smt (verit) count_diff diff_le_self of_nat_mono)+

lemma limiter_rep_count: "limiter_rep mx per l H \<Longrightarrow> count_of l s = int (count H s)"
  by (auto simp: limiter_rep_def count_of_def not_in_iff)

lemma newStreamLimiter_rep: "limiter_rep mx per (newStreamLimiter mx per) {#}"
  by (auto simp: limiter_rep_def newStreamLimiter_def within_def)

interpretation limiter: slots acquire release "limiter_rep mx per" "within mx per"
proof unfold_locales
  fix l H s l'
  assume rep: "limiter_rep mx per l H" and "acquire l s = Some l'"
  then have l': "l' = l\<lparr>total := total l + 1, bySubject := (bySubject l)(s \<mapsto> int (count H s) + 1)\<rparr>"
    and room: "\<not> (mx > 0 \<and> total l \<ge> mx)" "\<not> (per > 0 \<and> int (count H s) \<ge> per)"
    using limiter_rep_count [OF rep] by (auto simp: acquire_def limiter_rep_def split: if_splits)
  with rep show "limiter_rep mx per l' (add_mset s H)"
    by (auto simp: limiter_rep_def within_def)
next
  fix l H s
  assume rep: "limiter_rep mx per l H"
  then show "(acquire l s = None) = (\<not> within mx per (add_mset s H))"
    using limiter_rep_count [OF rep, of s] by (auto simp: acquire_def limiter_rep_def within_def)
next
  fix l H s
  assume rep: "limiter_rep mx per l H" and s: "s \<in># H"
  have w: "within mx per (H - {#s#})"
    using rep by (intro within_fewer) (simp add: limiter_rep_def)
  have "size H > 0" "count H s > 0" using s by (auto simp: nonempty_has_size [symmetric])
  then show "limiter_rep mx per (release l s) (H - {#s#})"
    using rep s w limiter_rep_count [OF rep, of s] Suc_lessI [of 0 "count H s"]
    by (auto simp: limiter_rep_def release_def Let_def size_Diff_singleton in_diff_count of_nat_diff
        intro: Suc_lessI)
qed (rule within_fewer)

section \<open>Properties\<close>

text \<open>
  Under every schedule in which handlers release only slots they hold, the limiter's counters
  are those of the streams then open, and with non-zero limits neither the process's total nor
  any subject's count exceeds its limit.
\<close>

theorem limiter_enforces_bounds:
  assumes "well_bracketed (within mx per) {#} ops"
  shows "limiter_rep mx per (run_slots acquire release (newStreamLimiter mx per) ops) (held (within mx per) {#} ops)
    \<and> within mx per (held (within mx per) {#} ops)"
  using limiter.run_refines [OF newStreamLimiter_rep assms] by (simp add: limiter_rep_def)

theorem limiter_enforces_bounds_witness:
  "within 1 1 (held (within 1 1) {#} [Acquire ''t/a'', Acquire ''t/b'', Release ''t/a''])"
proof -
  have "well_bracketed (within 1 1) {#} [Acquire ''t/a'', Acquire ''t/b'', Release ''t/a'']"
    by (simp add: within_def)
  from limiter_enforces_bounds [OF this] show ?thesis by blast
qed

end
