(* ===== verification/Validation.thy ===== *)
theory Validation
  imports Errors Patterns
begin

text \<open>
  Request validation, internal/transport/http/validation.go: how an error of kin-openapi becomes
  a refusal that names the failed rule and its location and never quotes the request
  (requestInvalid, schemaFailure, jsonPointer, invalidField), and the validator middleware's
  decision (requestValidator). kin-openapi itself is a parameter: the routing result and the
  validation result of a request. Its error is represented by the parts the code inspects.
\<close>

section \<open>The validation error\<close>

record schema_error =
  SchemaField :: string
  Pointer :: "string list"

record req_param =
  In :: string
  Name :: string

record request_error =
  Parameter :: "req_param option"
  HasBody :: bool
  SchemaErr :: "schema_error option"

datatype validation_error = NotRequestError string | RequestErr request_error

section \<open>Refusals\<close>

definition invalidField :: "string \<Rightarrow> string \<Rightarrow> api_error" where
  "invalidField m f = (invalidArgument m)\<lparr>field := f\<rparr>"

definition schemaFailure :: "schema_error \<Rightarrow> string" where
  "schemaFailure se =
     (let f = SchemaField se in
      if f = ''required'' then ''a required member is missing''
      else if f = ''properties'' \<or> f = ''additionalProperties'' then ''a member the contract does not define''
      else if f = ''type'' \<or> f = ''nullable'' then ''a value has the wrong type''
      else if f = ''enum'' then ''a value is not one of the allowed values''
      else if matches schemaKeyword f then ''a value violates '' @ f
      else ''a value does not match the API contract'')"

text \<open>\<open>pointerEscape\<close>: the replacer of ~ by ~0 and / by ~1.\<close>

fun pointerEscape :: "string \<Rightarrow> string" where
  "pointerEscape [] = []"
| "pointerEscape (c # cs) =
     (if c = CHR ''~'' then ''~0'' else if c = CHR ''/'' then ''~1'' else [c]) @ pointerEscape cs"

definition jsonPointer :: "string list \<Rightarrow> string" where
  "jsonPointer path = concat (map (\<lambda>p. CHR ''/'' # pointerEscape p) path)"

definition requestInvalid :: "validation_error \<Rightarrow> api_error" where
  "requestInvalid err =
     (case err of
        NotRequestError m \<Rightarrow> invalidArgument ''request does not match the API contract''
      | RequestErr re \<Rightarrow>
          (case Parameter re of
             Some p \<Rightarrow> invalidField (''invalid '' @ In p @ '' parameter'') (Name p)
           | None \<Rightarrow>
               if \<not> HasBody re then invalidArgument ''request does not match the API contract''
               else (case SchemaErr re of
                       None \<Rightarrow> invalidArgument ''request body does not match the API contract''
                     | Some se \<Rightarrow> invalidField (''request body: '' @ schemaFailure se) (jsonPointer (Pointer se)))))"

text \<open>
  The validator of a request: \<open>find_route\<close> and \<open>validate\<close> are kin-openapi's router and
  ValidateRequest; \<^const>\<open>None\<close> lets the request through.
\<close>

definition requestValidator ::
  "('q \<Rightarrow> 'r option) \<Rightarrow> ('q \<Rightarrow> 'r \<Rightarrow> validation_error option) \<Rightarrow> 'q \<Rightarrow> api_error option" where
  "requestValidator find_route validate q =
     (case find_route q of
        None \<Rightarrow> Some (invalidArgument ''no matching operation was found'')
      | Some route \<Rightarrow> map_option requestInvalid (validate q route))"

section \<open>Pointers are RFC 6901: a round trip\<close>

fun pointerUnescape :: "string \<Rightarrow> string" where
  "pointerUnescape [] = []"
| "pointerUnescape [c] = [c]"
| "pointerUnescape (c # d # cs) =
     (if c = CHR ''~'' \<and> d = CHR ''0'' then CHR ''~'' # pointerUnescape cs
      else if c = CHR ''~'' \<and> d = CHR ''1'' then CHR ''/'' # pointerUnescape cs
      else c # pointerUnescape (d # cs))"

definition pointerPath :: "string \<Rightarrow> string list" where
  "pointerPath s = (if s = [] then [] else map pointerUnescape (tl (Split CHR ''/'' s)))"

lemma unescape_plain: "c \<noteq> CHR ''~'' \<Longrightarrow> pointerUnescape (c # s) = c # pointerUnescape s"
  by (cases s) auto

lemma pointerUnescape_escape [simp]: "pointerUnescape (pointerEscape s) = s"
  by (induction s) (auto simp: unescape_plain)

lemma pointerEscape_no_slash: "CHR ''/'' \<notin> set (pointerEscape s)"
  by (induction s) auto

lemma Split_pointer: "Split CHR ''/'' (jsonPointer (p # ps)) = [] # map pointerEscape (p # ps)"
proof (induction ps arbitrary: p)
  case Nil
  show ?case by (simp add: jsonPointer_def Split_plain pointerEscape_no_slash)
next
  case (Cons q ps)
  have "jsonPointer (p # q # ps) = CHR ''/'' # pointerEscape p @ jsonPointer (q # ps)"
    by (simp add: jsonPointer_def)
  moreover obtain s where s: "jsonPointer (q # ps) = CHR ''/'' # s" by (auto simp: jsonPointer_def)
  ultimately show ?case
    using Cons.IH [of q] by (simp add: Split_append_sep pointerEscape_no_slash)
qed

lemma pointerPath_jsonPointer: "pointerPath (jsonPointer path) = path"
proof (cases path)
  case Nil
  then show ?thesis by (simp add: pointerPath_def jsonPointer_def)
next
  case (Cons p ps)
  have "jsonPointer (p # ps) \<noteq> []" by (simp add: jsonPointer_def)
  then show ?thesis unfolding pointerPath_def Cons Split_pointer by (simp add: comp_def)
qed

lemma jsonPointer_inj: "jsonPointer p = jsonPointer q \<Longrightarrow> p = q"
  by (metis pointerPath_jsonPointer)

section \<open>Refusals are fixed messages\<close>

lemma requestInvalid_refuses:
  "status (requestInvalid err) = 400" "code (requestInvalid err) = ''INVALID_ARGUMENT''"
  "\<not> retryable (requestInvalid err)"
  by (auto simp: requestInvalid_def invalidField_def invalidArgument_def split: validation_error.splits option.splits)

lemma schemaFailure_length: "length (schemaFailure se) \<le> 49"
  by (auto simp: schemaFailure_def Let_def matches_schemaKeyword)

text \<open>A body refusal depends on the keyword and the location only, and is never cut by the envelope.\<close>

lemma body_refusal:
  assumes "Parameter re = None" "HasBody re" "SchemaErr re = Some se"
  shows "message (requestInvalid (RequestErr re)) = ''request body: '' @ schemaFailure se"
    and "pointerPath (field (requestInvalid (RequestErr re))) = Pointer se"
    and "truncate_str (message (requestInvalid (RequestErr re))) 512 = message (requestInvalid (RequestErr re))"
  using assms schemaFailure_length [of se]
  by (simp_all add: requestInvalid_def invalidField_def invalidArgument_def pointerPath_jsonPointer truncate_str_def)

end
