(* ===== verification/Auth.thy ===== *)
theory Auth
  imports Complex_Main Errors Patterns GoTime
begin

text \<open>
  The verified caller: Principal and CommandIdentity of internal/application/principal.go, and
  the two Verifier implementations, the OpenID Connect verifier (Claims, New, Verify, lookup,
  rolesOf of internal/adapters/oidcauth/oidcauth.go) and the development fixture (Load, Verify of
  internal/adapters/fixtureauth/fixtureauth.go). The locale \<open>verifier\<close> is the contract of
  application.Verifier the transport relies on; it is interpreted on both implementations.

  Parameters: the signature, issuer and audience check of go-oidc (\<open>tok\<close>, from a bearer to
  the claims of an accepted token), and the conversion of a float64 outside the int64 range,
  which Go leaves to the platform (\<open>ood\<close>).
\<close>

section \<open>Principals and command identities\<close>

record principal =
  TenantID :: string
  ProjectID :: string
  ActorID :: string
  Roles :: "string list"

definition no_principal :: principal where
  "no_principal = \<lparr>TenantID = [], ProjectID = [], ActorID = [], Roles = []\<rparr>"

record command_identity =
  CmdTenantID :: string
  CommandID :: string
  CmdActorID :: string
  RequestDigest :: string

definition unauthenticated :: "string \<Rightarrow> go_error" where
  "unauthenticated m = Wrapped m ErrUnauthenticated"

lemma unwrap_unauthenticated [simp]: "unwrap (unauthenticated m) = ErrUnauthenticated"
  by (simp add: unauthenticated_def)

section \<open>Float conversion\<close>

definition trunc_rat :: "rat \<Rightarrow> int" where
  "trunc_rat x = (if x < 0 then \<lceil>x\<rceil> else \<lfloor>x\<rfloor>)"

definition int64_of :: "(rat \<Rightarrow> int) \<Rightarrow> rat \<Rightarrow> int" where
  "int64_of ood x =
     (if - (2 ^ 63) \<le> trunc_rat x \<and> trunc_rat x < 2 ^ 63 then trunc_rat x else ood x)"

section \<open>OpenID Connect\<close>

text \<open>
  The decoded claims: what encoding/json makes of a document in a map[string]any. A number is a
  finite float64, which is a rational.
\<close>

datatype claim =
    CNull
  | CBool bool
  | CNum rat
  | CStr string
  | CArr "claim list"
  | CObj "(string \<times> claim) list"

record claims =
  Tenant :: string
  Project :: string
  Actor :: string
  RolesPath :: string

record oidc_options =
  Issuer :: string
  Audience :: string
  Algorithms :: "string list"
  ClockSkew :: int
  OptClaims :: claims

record oidc_verifier =
  vclaims :: claims
  skew :: int

text \<open>New: the guards and the verifier; \<open>discovery\<close> is oidc.NewProvider on the issuer.\<close>

definition New :: "(string \<Rightarrow> string option) \<Rightarrow> oidc_options \<Rightarrow> string + oidc_verifier" where
  "New discovery ov =
     (if Issuer ov = [] \<or> Audience ov = [] \<or> Algorithms ov = [] \<or> Tenant (OptClaims ov) = [] \<or> Actor (OptClaims ov) = []
      then Inl ''oidcauth: issuer, audience, algorithms and the tenant and actor claims are required''
      else (case discovery (Issuer ov) of
              Some m \<Rightarrow> Inl (''oidcauth: discovery of '' @ Issuer ov @ '': '' @ m)
            | None \<Rightarrow> Inr \<lparr>vclaims = OptClaims ov, skew = ClockSkew ov\<rparr>))"

text \<open>A missing member of a Go map[string]any reads as nil, which is what a JSON null decodes to.\<close>

fun member :: "(string \<times> claim) list \<Rightarrow> string \<Rightarrow> claim" where
  "member m k = (case map_of m k of Some v \<Rightarrow> v | None \<Rightarrow> CNull)"

fun lookup_parts :: "claim \<Rightarrow> string list \<Rightarrow> claim" where
  "lookup_parts cur [] = cur"
| "lookup_parts (CObj m) (p # ps) = lookup_parts (member m p) ps"
| "lookup_parts cur (p # ps) = CNull"

definition lookup :: "(string \<times> claim) list \<Rightarrow> string \<Rightarrow> claim" where
  "lookup cs path = lookup_parts (CObj cs) (Split CHR ''.'' path)"

fun claim_string :: "claim \<Rightarrow> string" where
  "claim_string (CStr s) = s"
| "claim_string CNull = []"
| "claim_string (CBool b) = []"
| "claim_string (CNum n) = []"
| "claim_string (CArr a) = []"
| "claim_string (CObj m) = []"

text \<open>The loop of rolesOf: \<open>acc\<close> is out, whose elements are the keys of seen.\<close>

fun roles_loop :: "string list \<Rightarrow> claim list \<Rightarrow> string + string list" where
  "roles_loop acc [] = Inr acc"
| "roles_loop acc (CStr s # rest) =
     (if matches role s then roles_loop (if s \<in> set acc then acc else acc @ [s]) rest
      else Inl ''a role name is not ^[a-z][a-z0-9_-]{0,63}$'')"
| "roles_loop acc (v # rest) = Inl ''a role name is not ^[a-z][a-z0-9_-]{0,63}$''"

fun rolesOf :: "claim \<Rightarrow> string + string list" where
  "rolesOf CNull = Inr []"
| "rolesOf (CArr l) =
     (if length l > 32 then Inl ''roles are a list of at most 32 role names'' else roles_loop [] l)"
| "rolesOf v = Inl ''roles are a list of at most 32 role names''"

text \<open>One row of Verify's table of fields: an unconfigured path is skipped.\<close>

definition read_field :: "(string \<times> claim) list \<Rightarrow> string \<Rightarrow> go_error + string" where
  "read_field cs path =
     (if path = [] then Inr []
      else (let s = claim_string (lookup cs path) in
            if s = [] \<or> length s > 128
            then Inl (unauthenticated (''claim '' @ path @ '' is missing or invalid''))
            else Inr s))"

definition check_times :: "(rat \<Rightarrow> int) \<Rightarrow> int \<Rightarrow> int \<Rightarrow> (string \<times> claim) list \<Rightarrow> go_error + unit" where
  "check_times ood sk now cs =
     (case member cs ''exp'' of
        CNum e \<Rightarrow>
          if \<not> now < Add (Unix (int64_of ood e)) sk then Inl (unauthenticated ''the token expired'')
          else (case member cs ''nbf'' of
                  CNum nb \<Rightarrow>
                    if Add now sk < Unix (int64_of ood nb) then Inl (unauthenticated ''the token is not valid yet'')
                    else Inr ()
                | _ \<Rightarrow> Inr ())
      | _ \<Rightarrow> Inl (unauthenticated ''the token has no exp''))"

definition read_roles :: "(string \<times> claim) list \<Rightarrow> string \<Rightarrow> go_error + string list" where
  "read_roles cs path =
     (if path = [] then Inr []
      else (case rolesOf (lookup cs path) of
              Inl m \<Rightarrow> Inl (unauthenticated (''claim '' @ path @ '': '' @ m))
            | Inr r \<Rightarrow> Inr r))"

text \<open>The mapping of an accepted token's claims, and Verify: \<open>tok\<close> is go-oidc's verdict.\<close>

definition claims_principal ::
  "oidc_verifier \<Rightarrow> (rat \<Rightarrow> int) \<Rightarrow> int \<Rightarrow> (string \<times> claim) list \<Rightarrow> go_error + principal" where
  "claims_principal v ood now cs =
     bindR (check_times ood (skew v) now cs) (\<lambda>_.
     bindR (read_field cs (Tenant (vclaims v))) (\<lambda>t.
     bindR (read_field cs (Actor (vclaims v))) (\<lambda>a.
     bindR (read_field cs (Project (vclaims v))) (\<lambda>p.
     bindR (read_roles cs (RolesPath (vclaims v))) (\<lambda>r.
     Inr \<lparr>TenantID = t, ProjectID = p, ActorID = a, Roles = r\<rparr>)))))"

definition Verify ::
  "oidc_verifier \<Rightarrow> (rat \<Rightarrow> int) \<Rightarrow> int \<Rightarrow> (string \<Rightarrow> string + (string \<times> claim) list) \<Rightarrow> string \<Rightarrow> go_error + principal" where
  "Verify v ood now tok bearer =
     (case tok bearer of
        Inl m \<Rightarrow> Inl (unauthenticated m)
      | Inr cs \<Rightarrow> claims_principal v ood now cs)"

subsection \<open>What an accepted token guarantees\<close>

lemma lookup_single: "CHR ''.'' \<notin> set k \<Longrightarrow> lookup cs k = member cs k"
  by (simp add: lookup_def Split_plain)

lemma lookup_nested:
  assumes "CHR ''.'' \<notin> set k"
  shows "lookup cs (k @ CHR ''.'' # rest) =
    (case member cs k of CObj m \<Rightarrow> lookup m rest | _ \<Rightarrow> CNull)"
proof -
  obtain p ps where "Split CHR ''.'' rest = p # ps" by (cases "Split CHR ''.'' rest") auto
  with assms show ?thesis
    unfolding lookup_def by (simp add: Split_append_sep split: claim.splits)
qed

lemma roles_loop_sound:
  "roles_loop acc l = Inr r \<Longrightarrow> distinct acc \<Longrightarrow> \<forall>x\<in>set acc. matches role x \<Longrightarrow>
   distinct r \<and> (\<forall>x\<in>set r. matches role x) \<and> set r = set acc \<union> {s. CStr s \<in> set l} \<and>
   length r \<le> length acc + length l"
proof (induction acc l rule: roles_loop.induct)
  case (2 acc s rest)
  then show ?case by (fastforce split: if_splits)
qed auto

lemma rolesOf_sound:
  assumes "rolesOf c = Inr r"
  shows "distinct r \<and> length r \<le> 32 \<and> (\<forall>x\<in>set r. matches role x)"
proof (cases c)
  case (CArr l)
  with assms roles_loop_sound [of "[]" l r] show ?thesis by (auto split: if_splits)
qed (use assms in auto)

lemma read_field_ok: "read_field cs path = Inr s \<Longrightarrow> length s \<le> 128 \<and> (s = [] \<longleftrightarrow> path = [])"
  by (auto simp: read_field_def Let_def split: if_splits)

lemma read_field_err: "read_field cs path = Inl e \<Longrightarrow> unwrap e = ErrUnauthenticated"
  by (auto simp: read_field_def Let_def split: if_splits)

lemma read_roles_ok: "read_roles cs path = Inr r \<Longrightarrow> distinct r \<and> length r \<le> 32 \<and> (\<forall>x\<in>set r. matches role x)"
  using rolesOf_sound by (auto simp: read_roles_def split: if_splits sum.splits)

lemma read_roles_err: "read_roles cs path = Inl e \<Longrightarrow> unwrap e = ErrUnauthenticated"
  by (auto simp: read_roles_def split: if_splits sum.splits)

lemma check_times_err: "check_times ood sk now cs = Inl e \<Longrightarrow> unwrap e = ErrUnauthenticated"
  by (auto simp: check_times_def split: claim.splits if_splits)

lemma Verify_err: "Verify v ood now tok b = Inl e \<Longrightarrow> unwrap e = ErrUnauthenticated"
  by (auto simp: Verify_def claims_principal_def bindR_Inl
      dest: check_times_err read_field_err read_roles_err split: sum.splits)

lemma VerifyE:
  assumes "Verify v ood now tok b = Inr p"
  obtains cs where "tok b = Inr cs" "check_times ood (skew v) now cs = Inr ()"
    "read_field cs (Tenant (vclaims v)) = Inr (TenantID p)"
    "read_field cs (Actor (vclaims v)) = Inr (ActorID p)"
    "read_field cs (Project (vclaims v)) = Inr (ProjectID p)"
    "read_roles cs (RolesPath (vclaims v)) = Inr (Roles p)"
  using assms by (auto simp: Verify_def claims_principal_def split: sum.splits)

lemma check_times_live:
  assumes "check_times ood sk now cs = Inr ()" "0 \<le> sk"
    and "member cs ''exp'' = CNum e" "- (2 ^ 63) \<le> trunc_rat e"
    and "\<And>x. ood x \<le> 2 ^ 63 - 1" "\<And>x. - (2 ^ 63) \<le> ood x"
  shows "now < (trunc_rat e + unix_to_internal) * 10 ^ 9 + sk"
proof -
  have "now < Add (Unix (int64_of ood e)) sk"
    using assms(1,3) by (auto simp: check_times_def split: if_splits)
  also have "\<dots> \<le> (int64_of ood e + unix_to_internal) * 10 ^ 9 + sk"
    using assms(2,4,6) by (intro Unix_Add_le) (auto simp: int64_of_def)
  also have "int64_of ood e \<le> trunc_rat e"
    using assms(4) assms(5) [of e] by (auto simp: int64_of_def)
  finally show ?thesis by simp
qed

lemma check_times_begun:
  assumes "check_times ood sk now cs = Inr ()" "0 \<le> sk" "0 \<le> now"
    and "member cs ''nbf'' = CNum b" "- (2 ^ 63) \<le> trunc_rat b" "trunc_rat b + unix_to_internal < 2 ^ 63"
  shows "(trunc_rat b + unix_to_internal) * 10 ^ 9 \<le> now + sk"
proof -
  have "trunc_rat b < 2 ^ 63" using assms(6) by (simp add: unix_to_internal_def)
  then have "int64_of ood b = trunc_rat b" using assms(5) by (simp add: int64_of_def)
  then have "Unix (trunc_rat b) \<le> Add now sk"
    using assms(1,4) by (auto simp: check_times_def split: claim.splits if_splits)
  moreover have "Unix (trunc_rat b) = (trunc_rat b + unix_to_internal) * 10 ^ 9"
    using assms(5,6) wrap64_id [of "trunc_rat b + unix_to_internal"] by (simp add: Unix_def unix_to_internal_def)
  moreover have "Add now sk \<le> now + sk"
  proof -
    have "sat64 ((now + sk) div 10 ^ 9) \<le> (now + sk) div 10 ^ 9"
      using assms(2,3) by (intro sat64_le) (simp add: order_trans [OF _ pos_imp_zdiv_nonneg_iff [THEN iffD2]])
    then have "Add now sk \<le> ((now + sk) div 10 ^ 9) * 10 ^ 9 + (now + sk) mod 10 ^ 9"
      unfolding Add_def by (intro add_right_mono mult_right_mono) simp_all
    then show ?thesis by (simp only: div_mult_mod_eq)
  qed
  ultimately show ?thesis by linarith
qed

text \<open>The accepted roles are the names of the list, the first occurrence of each.\<close>

definition names_once :: "string list \<Rightarrow> string list" where
  "names_once xs = List.rev (remdups (List.rev xs))"

lemma names_once_snoc: "names_once (xs @ [x]) = (if x \<in> set xs then names_once xs else names_once xs @ [x])"
  by (simp add: names_once_def)

lemma set_names_once [simp]: "set (names_once xs) = set xs"
  by (simp add: names_once_def)

lemma roles_loop_names:
  "roles_loop (names_once xs) l = Inr r \<Longrightarrow> \<exists>ns. l = map CStr ns \<and> r = names_once (xs @ ns)"
proof (induction l arbitrary: xs)
  case (Cons c l)
  then obtain s where c: "c = CStr s" and l: "roles_loop (names_once (xs @ [s])) l = Inr r"
    by (cases c) (auto simp: names_once_snoc split: if_splits)
  from Cons.IH [OF l] obtain ns where "l = map CStr ns" "r = names_once ((xs @ [s]) @ ns)" by blast
  then show ?case unfolding c by (intro exI [of _ "s # ns"]) simp
qed simp

lemma rolesOf_names:
  assumes "rolesOf c = Inr r"
  shows "(c = CNull \<and> r = []) \<or> (\<exists>ns. c = CArr (map CStr ns) \<and> r = names_once ns)"
  using assms roles_loop_names [of "[]" _ r] by (cases c) (fastforce simp: names_once_def split: if_splits)+

section \<open>The development fixture\<close>

record token_entry =
  EntryTenant :: string
  EntryProject :: string
  EntryActor :: string
  EntryRoles :: "string list"

type_synonym fixture_verifier = "(string \<times> token_entry) list"

definition entry_ok :: "string \<times> token_entry \<Rightarrow> bool" where
  "entry_ok te \<longleftrightarrow> \<not> (length (fst te) < 16 \<or> EntryTenant (snd te) = [] \<or> EntryActor (snd te) = [])"

text \<open>Load: \<open>raw\<close> is the file read and decoded by encoding/json into a map (distinct keys).\<close>

definition Load :: "string + (string \<times> token_entry) list \<Rightarrow> string + fixture_verifier" where
  "Load raw =
     (case raw of
        Inl m \<Rightarrow> Inl (''fixtureauth: '' @ m)
      | Inr tokens \<Rightarrow>
          if \<forall>te\<in>set tokens. entry_ok te then Inr tokens
          else Inl ''fixtureauth: token entries need >=16 chars, tenantId and actorId'')"

definition fixture_Verify :: "fixture_verifier \<Rightarrow> string \<Rightarrow> go_error + principal" where
  "fixture_Verify tokens bearer =
     (case find (\<lambda>te. fst te = bearer) tokens of
        Some te \<Rightarrow> Inr \<lparr>TenantID = EntryTenant (snd te), ProjectID = EntryProject (snd te),
                     ActorID = EntryActor (snd te), Roles = EntryRoles (snd te)\<rparr>
      | None \<Rightarrow> Inl ErrUnauthenticated)"

lemma fixture_VerifyE:
  assumes "fixture_Verify v b = Inr p"
  obtains e where "(b, e) \<in> set v" "p = \<lparr>TenantID = EntryTenant e, ProjectID = EntryProject e,
                     ActorID = EntryActor e, Roles = EntryRoles e\<rparr>"
  using assms unfolding fixture_Verify_def
  by (auto split: option.splits simp: find_Some_iff) (metis nth_mem surjective_pairing)

lemma Load_entries: "Load raw = Inr v \<Longrightarrow> \<forall>te\<in>set v. entry_ok te"
  by (cases raw) (auto simp: Load_def split: if_splits)

section \<open>The contract of application.Verifier\<close>

locale verifier =
  fixes built :: "'v set"
    and verify :: "'v \<Rightarrow> string \<Rightarrow> go_error + principal"
  assumes identified: "v \<in> built \<Longrightarrow> verify v b = Inr p \<Longrightarrow> TenantID p \<noteq> [] \<and> ActorID p \<noteq> []"
    and refused: "v \<in> built \<Longrightarrow> verify v b = Inl e \<Longrightarrow> unwrap e = ErrUnauthenticated"
begin

text \<open>A verified caller is never the zero principal, and a refusal never maps to another status.\<close>

lemma not_anonymous: "v \<in> built \<Longrightarrow> verify v b = Inr p \<Longrightarrow> p \<noteq> no_principal"
  using identified by (fastforce simp: no_principal_def)

lemma decided: "v \<in> built \<Longrightarrow> (\<exists>p. verify v b = Inr p \<and> TenantID p \<noteq> []) \<or> (\<exists>e. verify v b = Inl e \<and> unwrap e = ErrUnauthenticated)"
  using identified refused by (cases "verify v b") auto

end

interpretation fixture: verifier "{v. \<exists>raw. Load raw = Inr v}" fixture_Verify
proof unfold_locales
  fix v b p
  assume v: "v \<in> {v. \<exists>raw. Load raw = Inr v}" and "fixture_Verify v b = Inr p"
  then obtain e where "(b, e) \<in> set v" and p: "TenantID p = EntryTenant e" "ActorID p = EntryActor e"
    by (auto elim: fixture_VerifyE)
  moreover have "\<forall>te\<in>set v. entry_ok te" using v Load_entries by blast
  ultimately show "TenantID p \<noteq> [] \<and> ActorID p \<noteq> []" by (auto simp: entry_ok_def p)
qed (auto simp: fixture_Verify_def split: option.splits)

interpretation oidc: verifier "{v. \<exists>d opts. New d opts = Inr v}" "\<lambda>v. Verify v ood now tok"
proof unfold_locales
  fix v b p
  assume "v \<in> {v. \<exists>d opts. New d opts = Inr v}" and p: "Verify v ood now tok b = Inr p"
  then have "Tenant (vclaims v) \<noteq> []" "Actor (vclaims v) \<noteq> []"
    by (auto simp: New_def split: if_splits option.splits)
  with p show "TenantID p \<noteq> [] \<and> ActorID p \<noteq> []"
    by (metis VerifyE read_field_ok)
qed (rule Verify_err)

section \<open>Properties\<close>

text \<open>
  C18. A token the OpenID Connect verifier accepts was verified by go-oidc and is live: its exp has not passed by more
  than the clock skew, and its nbf, if it has one, is not ahead by more than it. The principal is read at the
  configured paths: a tenant and an actor of 1 to 128 bytes, a project likewise or none where no path is configured, and as roles
  the distinct names of the list at the roles' path, in order, at most 32 and well-formed, or none.
\<close>

theorem oidc_accepts:
  assumes "Auth.New d opts = Inr v" "0 \<le> ClockSkew opts" "0 \<le> now" "Verify v ood now tok b = Inr p"
    and "\<And>x. - (2 ^ 63) \<le> ood x" "\<And>x. ood x \<le> 2 ^ 63 - 1"
  shows "\<exists>cs e. tok b = Inr cs \<and> member cs ''exp'' = CNum e
    \<and> (- (2 ^ 63) \<le> trunc_rat e \<longrightarrow> now < (trunc_rat e + unix_to_internal) * 10 ^ 9 + ClockSkew opts)
    \<and> (\<forall>nb. member cs ''nbf'' = CNum nb \<and> - (2 ^ 63) \<le> trunc_rat nb \<and> trunc_rat nb + unix_to_internal < 2 ^ 63 \<longrightarrow>
         (trunc_rat nb + unix_to_internal) * 10 ^ 9 \<le> now + ClockSkew opts)
    \<and> TenantID p = claim_string (lookup cs (Tenant (OptClaims opts))) \<and> TenantID p \<noteq> [] \<and> length (TenantID p) \<le> 128
    \<and> ActorID p = claim_string (lookup cs (Actor (OptClaims opts))) \<and> ActorID p \<noteq> [] \<and> length (ActorID p) \<le> 128
    \<and> (if Project (OptClaims opts) = [] then ProjectID p = []
       else ProjectID p = claim_string (lookup cs (Project (OptClaims opts))) \<and> ProjectID p \<noteq> [] \<and> length (ProjectID p) \<le> 128)
    \<and> (if RolesPath (OptClaims opts) = [] then Roles p = []
       else (case lookup cs (RolesPath (OptClaims opts)) of
               CNull \<Rightarrow> Roles p = []
             | CArr l \<Rightarrow> (\<exists>ns. l = map CStr ns \<and> Roles p = names_once ns)
             | _ \<Rightarrow> False))
    \<and> distinct (Roles p) \<and> length (Roles p) \<le> 32 \<and> (\<forall>r\<in>set (Roles p). matches role r)"
proof -
  have v: "vclaims v = OptClaims opts" "skew v = ClockSkew opts" "Tenant (OptClaims opts) \<noteq> []" "Actor (OptClaims opts) \<noteq> []"
    using assms(1) by (auto simp: Auth.New_def split: if_splits option.splits)
  obtain cs where cs: "tok b = Inr cs" "check_times ood (skew v) now cs = Inr ()"
    "read_field cs (Tenant (vclaims v)) = Inr (TenantID p)" "read_field cs (Actor (vclaims v)) = Inr (ActorID p)"
    "read_field cs (Project (vclaims v)) = Inr (ProjectID p)" "read_roles cs (RolesPath (vclaims v)) = Inr (Roles p)"
    using assms(4) by (rule VerifyE)
  obtain e where e: "member cs ''exp'' = CNum e"
    using cs(2) by (auto simp: check_times_def split: claim.splits)
  have "- (2 ^ 63) \<le> trunc_rat e \<longrightarrow> now < (trunc_rat e + unix_to_internal) * 10 ^ 9 + ClockSkew opts"
    using check_times_live [OF cs(2) _ e _ assms(6,5)] assms(2) v(2) by simp
  moreover have "(trunc_rat nb + unix_to_internal) * 10 ^ 9 \<le> now + ClockSkew opts"
    if "member cs ''nbf'' = CNum nb" "- (2 ^ 63) \<le> trunc_rat nb" "trunc_rat nb + unix_to_internal < 2 ^ 63" for nb
    using check_times_begun [OF cs(2) _ assms(3) that] assms(2) v(2) by simp
  moreover have "TenantID p = claim_string (lookup cs (Tenant (OptClaims opts)))"
    "ActorID p = claim_string (lookup cs (Actor (OptClaims opts)))"
    "ProjectID p = (if Project (OptClaims opts) = [] then [] else claim_string (lookup cs (Project (OptClaims opts))))"
    using cs(3-5) v by (auto simp: read_field_def Let_def split: if_splits)
  moreover have "if RolesPath (OptClaims opts) = [] then Roles p = []
       else (case lookup cs (RolesPath (OptClaims opts)) of
               CNull \<Rightarrow> Roles p = []
             | CArr l \<Rightarrow> (\<exists>ns. l = map CStr ns \<and> Roles p = names_once ns)
             | _ \<Rightarrow> False)"
    using cs(6) v(1) rolesOf_names by (auto simp: read_roles_def split: if_splits sum.splits) fastforce
  ultimately show ?thesis
    using cs(1) e v read_field_ok [OF cs(3)] read_field_ok [OF cs(4)] read_field_ok [OF cs(5)] read_roles_ok [OF cs(6)] by auto
qed

theorem oidc_accepts_witness:
  "\<exists>opts v p. Auth.New (\<lambda>_. None) opts = Inr v
     \<and> Verify v (\<lambda>_. 0) (Unix 1000) (\<lambda>b. Inr [(''exp'', CNum 2000), (''nbf'', CNum 900), (''sub'', CStr ''amy''), (''tenant'', CStr ''t1''),
          (''roles'', CArr [CStr ''editor'', CStr ''viewer'', CStr ''editor''])]) ''x'' = Inr p
     \<and> TenantID p \<noteq> [] \<and> Roles p = [''editor'', ''viewer'']"
proof -
  let ?opts = "\<lparr>Issuer = ''https://issuer'', Audience = ''api'', Algorithms = [''RS256''], ClockSkew = 0,
    OptClaims = \<lparr>Tenant = ''tenant'', Project = [], Actor = ''sub'', RolesPath = ''roles''\<rparr>\<rparr>"
  let ?cs = "[(''exp'', CNum 2000), (''nbf'', CNum 900), (''sub'', CStr ''amy''), (''tenant'', CStr ''t1''),
    (''roles'', CArr [CStr ''editor'', CStr ''viewer'', CStr ''editor''])]"
  let ?v = "\<lparr>vclaims = OptClaims ?opts, skew = 0\<rparr>"
  let ?p = "\<lparr>TenantID = ''t1'', ProjectID = [], ActorID = ''amy'', Roles = [''editor'', ''viewer'']\<rparr>"
  have n: "Auth.New (\<lambda>_. None) ?opts = Inr ?v" by (simp add: Auth.New_def)
  have u: "Unix 1000 = 62135597800 * 10 ^ 9" "Unix 2000 = 62135598800 * 10 ^ 9" "Unix 900 = 62135597700 * 10 ^ 9"
    "trunc_rat 2000 = 2000" "trunc_rat 900 = 900"
    by (simp_all add: Unix_def unix_to_internal_def wrap64_def trunc_rat_def)
  have r: "matches role ''editor''" "matches role ''viewer''" by code_simp+
  have "check_times (\<lambda>_. 0) 0 (Unix 1000) ?cs = Inr ()"
    by (simp add: check_times_def u int64_of_def Add_def sat64_def)
  then have ver: "Verify ?v (\<lambda>_. 0) (Unix 1000) (\<lambda>b. Inr ?cs) ''x'' = Inr ?p"
    by (simp add: Verify_def claims_principal_def read_field_def read_roles_def lookup_def r)
  have "0 \<le> Unix 1000" by (simp add: u)
  from oidc_accepts [OF n _ this ver] have "TenantID ?p \<noteq> [] \<and> length (Roles ?p) \<le> 32" by auto
  with n ver show ?thesis by (intro exI [of _ ?opts] exI [of _ ?v] exI [of _ ?p]) simp
qed

text \<open>
  Every verifier the bootstrap can build refuses with ErrUnauthenticated or identifies a
  caller with a tenant and an actor: the fixture included, no caller is anonymous.
\<close>

theorem fixture_identifies:
  assumes "Load raw = Inr v"
  shows "(\<exists>p. fixture_Verify v b = Inr p \<and> TenantID p \<noteq> []) \<or> (\<exists>e. fixture_Verify v b = Inl e \<and> unwrap e = ErrUnauthenticated)"
  using fixture.decided [of v b] assms by blast

theorem fixture_identifies_witness:
  "\<exists>v p. Load (Inr [(''0123456789abcdef'', \<lparr>EntryTenant = ''t'', EntryProject = [], EntryActor = ''a'', EntryRoles = []\<rparr>)]) = Inr v
     \<and> fixture_Verify v ''0123456789abcdef'' = Inr p \<and> TenantID p \<noteq> []"
proof -
  let ?v = "[(''0123456789abcdef'', \<lparr>EntryTenant = ''t'', EntryProject = [], EntryActor = ''a'', EntryRoles = []\<rparr>)]"
  have l: "Load (Inr ?v) = Inr ?v" by (simp add: Load_def entry_ok_def)
  show ?thesis using fixture_identifies [OF l, of "''0123456789abcdef''"] l by (auto simp: fixture_Verify_def)
qed

end
