(* ===== verification/Sse.thy ===== *)
theory Sse
  imports Events Limiter Patterns Validation Auth "HOL-Library.Sublist"
begin

text \<open>
  The event stream handler, streamEvents, bindCursor and retryMillis of
  internal/transport/http/sse.go.

  What happens before the producer starts is a function (\<open>open_stream_request\<close>: cursor, GetOperation,
  slot). From there the handler goroutine, the producer goroutine (the StreamEvents call with its
  callbacks), the client, and the server's shutdown run concurrently: \<open>step\<close> is the relation of
  their atomic steps on the state \<open>sse\<close> (the channels frames, done and admitted, the contexts and
  what was written). Each select is one rule per ready branch, so every scheduling is a run.
  A write to the connection either puts the whole frame on the wire or fails.

  The frames channel is buffered: the configuration requires a capacity of at least one.
\<close>

section \<open>Before the stream\<close>

definition bindCursor :: "string \<Rightarrow> string \<Rightarrow> api_error + string" where
  "bindCursor after_q last_event_id =
     (if after_q \<noteq> [] \<and> \<not> matches sequencePattern after_q
      then Inl (invalidField ''after must be a canonical sequence'' ''after'')
      else if last_event_id \<noteq> [] \<and> \<not> matches sequencePattern last_event_id
      then Inl (invalidField ''Last-Event-ID must be a canonical sequence'' ''Last-Event-ID'')
      else Inr (if after_q \<noteq> [] then after_q else last_event_id))"

definition too_many_streams :: api_error where
  "too_many_streams = \<lparr>status = 429, code = ''CAPACITY_EXHAUSTED'', message = ''too many open event streams'',
     retryable = True, field = []\<rparr>"

definition shutting_down :: api_error where
  "shutting_down = \<lparr>status = 503, code = ''DEPENDENCY_UNAVAILABLE'', message = ''the server is shutting down'',
     retryable = True, field = []\<rparr>"

definition stream_subject :: "principal \<Rightarrow> string" where
  "stream_subject p = TenantID p @ ''/'' @ ActorID p"

text \<open>
  The cursor, the GetOperation check (\<open>get_operation\<close> is its error) and the slot: a refusal
  leaves the limiter as it was.
\<close>

definition open_stream_request ::
  "string \<Rightarrow> string \<Rightarrow> go_error option \<Rightarrow> principal \<Rightarrow> stream_limiter \<Rightarrow> (api_error + string) \<times> stream_limiter" where
  "open_stream_request after_q last_event_id get_operation p l =
     (case bindCursor after_q last_event_id of
        Inl e \<Rightarrow> (Inl e, l)
      | Inr cursor \<Rightarrow>
          (case get_operation of
             Some e \<Rightarrow> (Inl (fromControl e), l)
           | None \<Rightarrow>
               (case acquire l (stream_subject p) of
                  None \<Rightarrow> (Inl too_many_streams, l)
                | Some l' \<Rightarrow> (Inr cursor, l'))))"

text \<open>The advertised reconnect interval in milliseconds; \<open>rnd\<close> is the random number below its bound.\<close>

definition retry_base :: "int \<Rightarrow> int" where
  "retry_base base = (if base \<le> 0 then 3 * 10 ^ 9 else base)"

definition retryMillis :: "(int \<Rightarrow> int) \<Rightarrow> int \<Rightarrow> int" where
  "retryMillis rnd base =
     (let b = retry_base base; jitter = rnd (b div 2 + 1) in (b + jitter) div 10 ^ 6)"

section \<open>The concurrent state\<close>

text \<open>What is written: the retry field, a heartbeat, an event, the final reset or end frame.\<close>

datatype wire = WRetry int | WBeat | WEvent string | WReset string | WEnd string

text \<open>The producer: before its next callback, in emit's select with an encoded frame, or returned.\<close>

datatype producer = Running "act list" | Sending string "act list" | Returned

text \<open>
  The handler: in the first select, in the loop, delivering what is buffered after done gave a
  result, about to run its deferred calls, waiting for the producer, finished.
\<close>

datatype handler = Waiting | Loop | Flushing "go_error option" | Closing | Joining | Finished

record sse =
  prod :: producer
  admitted :: bool
  frames :: "string list"
  done_ch :: "go_error option option"
  draining :: bool
  gone :: bool
  cancelled :: bool
  handler :: handler
  ended :: bool
  started :: bool
  refusal :: "api_error option"
  out :: "wire list"
  slot :: bool

record sse_env =
  cap :: nat
  operation :: string
  encoder :: "sse_event \<Rightarrow> string option"
  retry_ms :: int
  script :: owner_script

definition plan :: "sse_env \<Rightarrow> act list" where
  "plan env = actions (script env)"

definition outcome :: "sse_env \<Rightarrow> go_error option" where
  "outcome env = verdict (script env)"

definition sse_init :: "sse_env \<Rightarrow> sse" where
  "sse_init env =
     \<lparr>prod = Running (plan env), admitted = False, frames = [], done_ch = None, draining = False, gone = False,
      cancelled = False, handler = Waiting, ended = False, started = False, refusal = None, out = [], slot = True\<rparr>"

text \<open>The reset and end frames as they are written, none when the encoding fails.\<close>

definition reset_frame :: "sse_env \<Rightarrow> string \<Rightarrow> wire list" where
  "reset_frame env covered =
     (case encodeReset (encoder env) (operation env) covered of Some b \<Rightarrow> [WReset b] | None \<Rightarrow> [])"

definition end_frame :: "sse_env \<Rightarrow> wire list" where
  "end_frame env =
     (case encodeEnd (encoder env) (operation env) ''server_shutdown'' of Some b \<Rightarrow> [WEnd b] | None \<Rightarrow> [])"

text \<open>The frame after the result of an admitted stream; \<open>away\<close>: the request's context ended.\<close>

definition final_frame :: "sse_env \<Rightarrow> bool \<Rightarrow> go_error option \<Rightarrow> wire list" where
  "final_frame env away v =
     (case v of
        None \<Rightarrow> []
      | Some e \<Rightarrow>
          (case as_reset e of
             Some covered \<Rightarrow> reset_frame env covered
           | None \<Rightarrow> if unwrap e \<noteq> ErrSlowConsumer \<and> \<not> away then end_frame env else []))"

text \<open>What follows the retry field when the stream ended before it was admitted.\<close>

definition early_frame :: "sse_env \<Rightarrow> go_error option \<Rightarrow> wire list" where
  "early_frame env v =
     (case v of
        None \<Rightarrow> []
      | Some e \<Rightarrow> (case as_reset e of Some covered \<Rightarrow> reset_frame env covered | None \<Rightarrow> []))"

definition refuses_early :: "go_error option \<Rightarrow> bool" where
  "refuses_early v \<longleftrightarrow> v \<noteq> None \<and> \<not> resets v"

definition retry_field :: "sse_env \<Rightarrow> wire" where
  "retry_field env = WRetry (retry_ms env)"

inductive step :: "sse_env \<Rightarrow> sse \<Rightarrow> sse \<Rightarrow> bool" for env where
  \<comment> \<open>the producer goroutine\<close>
  p_admit: "prod s = Running (Admit # as) \<Longrightarrow> step env s (s\<lparr>prod := Running as, admitted := True\<rparr>)"
| p_encode: "prod s = Running (Emit f # as) \<Longrightarrow> encodeFrame (encoder env) f = Some b \<Longrightarrow>
    step env s (s\<lparr>prod := Sending b as\<rparr>)"
| p_unencodable: "prod s = Running (Emit f # as) \<Longrightarrow> encodeFrame (encoder env) f = None \<Longrightarrow>
    step env s (s\<lparr>prod := Returned, done_ch := Some (Some (OtherErr m))\<rparr>)"
| p_send: "prod s = Sending b as \<Longrightarrow> length (frames s) < cap env \<Longrightarrow>
    step env s (s\<lparr>prod := Running as, frames := frames s @ [b]\<rparr>)"
| p_send_cancelled: "prod s = Sending b as \<Longrightarrow> cancelled s \<Longrightarrow>
    step env s (s\<lparr>prod := Returned, done_ch := Some (Some CtxErr)\<rparr>)"
| p_grace: "prod s = Sending b as \<Longrightarrow>
    step env s (s\<lparr>prod := Returned, done_ch := Some (Some ErrSlowConsumer)\<rparr>)"
| p_return: "prod s = Running [] \<Longrightarrow>
    step env s (s\<lparr>prod := Returned, done_ch := Some (outcome env)\<rparr>)"
| p_call_cancelled: "prod s = Running as \<Longrightarrow> cancelled s \<Longrightarrow>
    step env s (s\<lparr>prod := Returned, done_ch := Some (Some (mapErr ''control'' (StatusErr Canceled m)))\<rparr>)"
  \<comment> \<open>the client and the server's shutdown\<close>
| e_gone: "\<not> gone s \<Longrightarrow> step env s (s\<lparr>gone := True, cancelled := True\<rparr>)"
| e_drain: "\<not> draining s \<Longrightarrow> step env s (s\<lparr>draining := True\<rparr>)"
  \<comment> \<open>the handler: the first select\<close>
| h_admitted: "handler s = Waiting \<Longrightarrow> admitted s \<Longrightarrow>
    step env s (s\<lparr>handler := Loop, started := True, out := out s @ [retry_field env]\<rparr>)"
| h_admitted_broken: "handler s = Waiting \<Longrightarrow> admitted s \<Longrightarrow>
    step env s (s\<lparr>handler := Closing, started := True\<rparr>)"
| h_early_refused: "handler s = Waiting \<Longrightarrow> done_ch s = Some (Some e) \<Longrightarrow> refuses_early (Some e) \<Longrightarrow>
    step env s (s\<lparr>handler := Closing, ended := True, done_ch := None, refusal := Some (fromControl e)\<rparr>)"
| h_early: "handler s = Waiting \<Longrightarrow> done_ch s = Some v \<Longrightarrow> \<not> refuses_early v \<Longrightarrow>
    step env s (s\<lparr>handler := Closing, ended := True, done_ch := None, started := True,
                  out := out s @ retry_field env # early_frame env v\<rparr>)"
| h_early_broken: "handler s = Waiting \<Longrightarrow> done_ch s = Some v \<Longrightarrow> \<not> refuses_early v \<Longrightarrow>
    w = [] \<or> w = [retry_field env] \<Longrightarrow>
    step env s (s\<lparr>handler := Closing, ended := True, done_ch := None, started := True, out := out s @ w\<rparr>)"
| h_wait_drain: "handler s = Waiting \<Longrightarrow> draining s \<Longrightarrow>
    step env s (s\<lparr>handler := Closing, refusal := Some shutting_down\<rparr>)"
| h_wait_gone: "handler s = Waiting \<Longrightarrow> cancelled s \<Longrightarrow> step env s (s\<lparr>handler := Closing\<rparr>)"
  \<comment> \<open>the handler: the loop\<close>
| h_frame: "handler s = Loop \<Longrightarrow> frames s = b # bs \<Longrightarrow>
    step env s (s\<lparr>frames := bs, out := out s @ [WEvent b]\<rparr>)"
| h_frame_broken: "handler s = Loop \<Longrightarrow> frames s = b # bs \<Longrightarrow>
    step env s (s\<lparr>frames := bs, handler := Closing\<rparr>)"
| h_beat: "handler s = Loop \<Longrightarrow> step env s (s\<lparr>out := out s @ [WBeat]\<rparr>)"
| h_beat_broken: "handler s = Loop \<Longrightarrow> step env s (s\<lparr>handler := Closing\<rparr>)"
| h_done: "handler s = Loop \<Longrightarrow> done_ch s = Some v \<Longrightarrow>
    step env s (s\<lparr>handler := Flushing v, ended := True, done_ch := None\<rparr>)"
| h_drain: "handler s = Loop \<Longrightarrow> draining s \<Longrightarrow>
    step env s (s\<lparr>handler := Closing, out := out s @ end_frame env\<rparr>)"
| h_drain_broken: "handler s = Loop \<Longrightarrow> draining s \<Longrightarrow> step env s (s\<lparr>handler := Closing\<rparr>)"
| h_gone: "handler s = Loop \<Longrightarrow> cancelled s \<Longrightarrow> step env s (s\<lparr>handler := Closing\<rparr>)"
  \<comment> \<open>the handler: after the producer's result\<close>
| h_flush: "handler s = Flushing v \<Longrightarrow> frames s = b # bs \<Longrightarrow>
    step env s (s\<lparr>frames := bs, out := out s @ [WEvent b]\<rparr>)"
| h_flush_broken: "handler s = Flushing v \<Longrightarrow> frames s = b # bs \<Longrightarrow>
    step env s (s\<lparr>frames := bs, handler := Closing\<rparr>)"
| h_final: "handler s = Flushing v \<Longrightarrow> frames s = [] \<Longrightarrow>
    step env s (s\<lparr>handler := Closing, out := out s @ final_frame env (gone s) v\<rparr>)"
| h_final_broken: "handler s = Flushing v \<Longrightarrow> frames s = [] \<Longrightarrow> step env s (s\<lparr>handler := Closing\<rparr>)"
  \<comment> \<open>the handler: its deferred calls\<close>
| h_cancel: "handler s = Closing \<Longrightarrow> step env s (s\<lparr>handler := Joining, cancelled := True\<rparr>)"
| h_join: "handler s = Joining \<Longrightarrow> ended s \<or> done_ch s = Some v \<Longrightarrow>
    step env s (s\<lparr>handler := Finished, slot := False\<rparr>)"

inductive reach :: "sse_env \<Rightarrow> sse \<Rightarrow> bool" for env where
  reach_init: "reach env (sse_init env)"
| reach_step: "reach env s \<Longrightarrow> step env s t \<Longrightarrow> reach env t"

inductive_cases stepE: "step env s t"

end
