(* ===== verification/Stream_Safety.thy ===== *)
theory Stream_Safety
  imports Sse
begin

text \<open>
  What holds in every reachable state of the event stream handler (Sse): the frames on the wire
  are a prefix of the source's frames in order, the buffer is bounded, the shape of the
  response, when the response begins, and the pairing of the slot and the producer with the
  handler's end.
\<close>

section \<open>Delivery in order\<close>

fun events :: "wire list \<Rightarrow> string list" where
  "events [] = []"
| "events (WEvent b # w) = b # events w"
| "events (WRetry n # w) = events w"
| "events (WBeat # w) = events w"
| "events (WReset b # w) = events w"
| "events (WEnd b # w) = events w"

lemma events_append [simp]: "events (w @ w') = events w @ events w'"
  by (induction w rule: events.induct) auto

lemma events_control [simp]:
  "events [retry_field env] = []" "events (retry_field env # w) = events w"
  "events (reset_frame env c) = []" "events (end_frame env) = []"
  "events (early_frame env v) = []" "events (final_frame env a v) = []"
  by (auto simp: retry_field_def reset_frame_def end_frame_def early_frame_def final_frame_def split: option.splits)

text \<open>The encoded frames of a list of callbacks, up to the first one that cannot be encoded.\<close>

fun encoded :: "sse_env \<Rightarrow> act list \<Rightarrow> string list" where
  "encoded env [] = []"
| "encoded env (Admit # as) = encoded env as"
| "encoded env (Emit f # as) =
     (case encodeFrame (encoder env) f of Some b \<Rightarrow> b # encoded env as | None \<Rightarrow> [])"

fun encodable :: "sse_env \<Rightarrow> act \<Rightarrow> bool" where
  "encodable env Admit = True"
| "encodable env (Emit f) = (encodeFrame (encoder env) f \<noteq> None)"

lemma encoded_append: "list_all (encodable env) as \<Longrightarrow> encoded env (as @ as') = encoded env as @ encoded env as'"
  by (induction env as rule: encoded.induct) auto

lemma encoded_all: "list_all (encodable env) as \<Longrightarrow> encoded env as = concat (map (\<lambda>a. encoded env [a]) as)"
proof (induction as)
  case (Cons a as)
  then show ?case by (cases a) auto
qed simp

definition opened :: "handler \<Rightarrow> bool" where
  "opened h \<longleftrightarrow> (case h of Waiting \<Rightarrow> True | Loop \<Rightarrow> True | Flushing v \<Rightarrow> True | _ \<Rightarrow> False)"

lemma opened_simps [simp]:
  "opened Waiting" "opened Loop" "opened (Flushing v)" "\<not> opened Closing" "\<not> opened Joining" "\<not> opened Finished"
  by (simp_all add: opened_def)

text \<open>The producer is at \<open>rest\<close>: what it has still to do of the source's callbacks.\<close>

fun at_rest :: "sse_env \<Rightarrow> producer \<Rightarrow> act list \<Rightarrow> bool" where
  "at_rest env (Running as) rest = (rest = as)"
| "at_rest env (Sending b as) rest = (\<exists>f. rest = Emit f # as \<and> encodeFrame (encoder env) f = Some b)"
| "at_rest env Returned rest = True"

text \<open>The producer's call ended without an error and the handler has not passed that result on.\<close>

definition clean_result :: "sse \<Rightarrow> bool" where
  "clean_result s \<longleftrightarrow> done_ch s = Some None \<or> handler s = Flushing None"

definition delivery :: "sse_env \<Rightarrow> sse \<Rightarrow> act list \<Rightarrow> act list \<Rightarrow> bool" where
  "delivery env s pre rest \<longleftrightarrow>
     plan env = pre @ rest \<and> list_all (encodable env) pre \<and> at_rest env (prod s) rest \<and>
     (opened (handler s) \<longrightarrow> events (out s) @ frames s = encoded env pre) \<and>
     prefix (events (out s)) (encoded env pre) \<and>
     (clean_result s \<longrightarrow> rest = [] \<and> outcome env = None)"

lemma delivery_step:
  assumes "delivery env s pre rest" "step env s t"
  shows "\<exists>pre' rest'. delivery env t pre' rest'"
  using assms(2)
proof cases
  case (p_admit as)
  then have "delivery env t (pre @ [Admit]) as"
    using assms(1) by (auto simp: delivery_def encoded_append clean_result_def)
  then show ?thesis by blast
next
  case (p_send b as)
  then obtain f where "rest = Emit f # as" "encodeFrame (encoder env) f = Some b"
    using assms(1) by (auto simp: delivery_def)
  then have "delivery env t (pre @ [Emit f]) as"
    using p_send assms(1) by (auto simp: delivery_def encoded_append clean_result_def)
  then show ?thesis by blast
next
  case (h_frame b bs)
  then have "delivery env t pre rest"
    using assms(1) by (auto simp: delivery_def clean_result_def prefix_def intro: exI [of _ bs])
  then show ?thesis by blast
next
  case (h_flush v b bs)
  then have "delivery env t pre rest"
    using assms(1) by (auto simp: delivery_def clean_result_def prefix_def intro: exI [of _ bs])
  then show ?thesis by blast
qed (use assms(1) in \<open>(intro exI [of _ pre] exI [of _ rest], auto simp: delivery_def clean_result_def)[1]\<close>)+

lemma delivery_reach: "reach env s \<Longrightarrow> \<exists>pre rest. delivery env s pre rest"
proof (induction rule: reach.induct)
  case reach_init
  have "delivery env (sse_init env) [] (plan env)"
    by (simp add: delivery_def sse_init_def clean_result_def)
  then show ?case by blast
next
  case (reach_step s t)
  then show ?case using delivery_step by blast
qed

lemma encoded_prefix: "list_all (encodable env) pre \<Longrightarrow> prefix (encoded env pre) (encoded env (pre @ rest))"
  by (simp add: encoded_append)

lemma wire_prefix: "reach env s \<Longrightarrow> prefix (events (out s)) (encoded env (plan env))"
  using delivery_reach [of env s] encoded_prefix by (metis delivery_def prefix_order.trans)

lemma flushed_complete:
  assumes "reach env s" "handler s = Flushing None" "frames s = []"
  shows "events (out s) = encoded env (plan env) \<and> list_all (encodable env) (plan env) \<and> outcome env = None"
proof -
  obtain pre rest where "delivery env s pre rest" using delivery_reach assms(1) by blast
  with assms(2,3) show ?thesis by (auto simp: delivery_def clean_result_def)
qed

section \<open>The other invariants\<close>

definition mid_wire :: "wire \<Rightarrow> bool" where
  "mid_wire w \<longleftrightarrow> (case w of WBeat \<Rightarrow> True | WEvent b \<Rightarrow> True | _ \<Rightarrow> False)"

definition final_wire :: "wire \<Rightarrow> bool" where
  "final_wire w \<longleftrightarrow> (case w of WReset b \<Rightarrow> True | WEnd b \<Rightarrow> True | _ \<Rightarrow> False)"

definition body_open :: "sse_env \<Rightarrow> wire list \<Rightarrow> bool" where
  "body_open env w \<longleftrightarrow> (\<exists>body. w = retry_field env # body \<and> list_all mid_wire body)"

definition body_closed :: "sse_env \<Rightarrow> wire list \<Rightarrow> bool" where
  "body_closed env w \<longleftrightarrow> w = [] \<or> (\<exists>body t. w = retry_field env # body @ t \<and> list_all mid_wire body \<and>
     (t = [] \<or> (\<exists>x. t = [x] \<and> final_wire x)))"

lemma body_open_snoc: "body_open env w \<Longrightarrow> mid_wire x \<Longrightarrow> body_open env (w @ [x])"
  by (auto simp: body_open_def)

lemma body_open_closed: "body_open env w \<Longrightarrow> body_closed env w"
  by (auto simp: body_open_def body_closed_def)

lemma body_close:
  "body_open env w \<Longrightarrow> t = [] \<or> (\<exists>x. t = [x] \<and> final_wire x) \<Longrightarrow> body_closed env (w @ t)"
  unfolding body_open_def body_closed_def by (metis append_Cons)

lemma control_frames:
  "reset_frame env c = [] \<or> (\<exists>x. reset_frame env c = [x] \<and> final_wire x)"
  "end_frame env = [] \<or> (\<exists>x. end_frame env = [x] \<and> final_wire x)"
  by (auto simp: reset_frame_def end_frame_def final_wire_def split: option.splits)

lemma final_frames:
  "early_frame env v = [] \<or> (\<exists>x. early_frame env v = [x] \<and> final_wire x)"
  "final_frame env a v = [] \<or> (\<exists>x. final_frame env a v = [x] \<and> final_wire x)"
  using control_frames by (auto simp: early_frame_def final_frame_def split: option.splits)

lemma body_retry [simp]: "body_open env [retry_field env]" "body_closed env []" "body_closed env [retry_field env]"
  by (auto simp: body_open_def body_closed_def)

lemma body_early [simp]: "body_closed env (retry_field env # early_frame env v)"
  using body_close [OF body_retry(1) final_frames(1)] by simp

definition wire_inv :: "sse_env \<Rightarrow> sse \<Rightarrow> bool" where
  "wire_inv env s \<longleftrightarrow>
     (case handler s of
        Waiting \<Rightarrow> out s = [] \<and> \<not> started s \<and> refusal s = None \<and> \<not> ended s
      | Loop \<Rightarrow> body_open env (out s) \<and> started s \<and> admitted s \<and> refusal s = None \<and> \<not> ended s
      | Flushing v \<Rightarrow> body_open env (out s) \<and> started s \<and> admitted s \<and> refusal s = None \<and> ended s
      | _ \<Rightarrow> body_closed env (out s) \<and> (out s \<noteq> [] \<longrightarrow> started s) \<and> (started s \<longrightarrow> refusal s = None) \<and>
              (started s \<longrightarrow> admitted s \<or> ended s))"

lemma wire_step: "step env s t \<Longrightarrow> wire_inv env s \<Longrightarrow> wire_inv env t"
  by (erule stepE)
     (auto simp: wire_inv_def body_open_snoc mid_wire_def body_open_closed
        body_close [OF _ control_frames(2)] body_close [OF _ final_frames(2)] split: handler.splits)

lemma wire_reach: "reach env s \<Longrightarrow> wire_inv env s"
  by (induction rule: reach.induct) (simp add: wire_inv_def sse_init_def, rule wire_step)

definition bound_inv :: "sse_env \<Rightarrow> sse \<Rightarrow> bool" where
  "bound_inv env s \<longleftrightarrow> length (frames s) \<le> cap env \<and>
     (handler s \<in> {Joining, Finished} \<longrightarrow> cancelled s) \<and> (slot s \<longleftrightarrow> handler s \<noteq> Finished) \<and>
     (done_ch s \<noteq> None \<or> ended s \<longrightarrow> prod s = Returned) \<and>
     (prod s = Returned \<longrightarrow> done_ch s \<noteq> None \<or> ended s) \<and>
     (handler s = Finished \<longrightarrow> prod s = Returned) \<and>
     (\<forall>v. handler s = Flushing v \<longrightarrow> ended s)"

lemma bound_step: "step env s t \<Longrightarrow> bound_inv env s \<Longrightarrow> bound_inv env t"
  by (erule stepE) (auto simp: bound_inv_def)

lemma bound_reach: "reach env s \<Longrightarrow> bound_inv env s"
  by (induction rule: reach.induct) (simp add: bound_inv_def sse_init_def, rule bound_step)

section \<open>A run\<close>

text \<open>One event through the whole handler, for the concrete instances of the properties.\<close>

definition demo_event :: owner_event where
  "demo_event = \<lparr>EvOperationId = ''op1'', EvEventSeq = ''7'', EvTransitionId = ''t1'', EvEventType = ''changed'',
     EvRevision = ''3'', EvOccurredAt = None,
     EvChanged = \<lparr>ChLifecycle = ''LIFECYCLE_RUNNING'', ChPhase = [], ChControl = ''CONTROL_STATE_NONE'',
       ChCleanup = [], ChFinance = [], ChFailureCode = [], ChStep = [], ChVisit = [], ChAttemptOrdinal = [],
       ChVerdict = ''VERDICT_UNSPECIFIED'', ChVerdictCode = [], ChNode = [], ChNodeState = [], ChRound = [], ChOutcomeCode = []\<rparr>\<rparr>"

definition demo_env :: sse_env where
  "demo_env = \<lparr>cap = 1, operation = ''op1'', encoder = (\<lambda>ev. Some (SseId ev)), retry_ms = 3000,
     script = \<lparr>list_page = Inr \<lparr>ResetRequired = False, CoveredEventSeq = ''7''\<rparr>, open_stream = None,
       header_md = Inr True, msgs = [demo_event], fin = EOF\<rparr>\<rparr>"

lemma encodeFrame_id: "encodeFrame (\<lambda>ev. Some (SseId ev)) f = Some (EventSeq f)"
proof -
  obtain payload where "marshal_event (\<lambda>ev. Some (SseId ev)) (EventSeq f) (EventType f) (frame_payload f) = Some (EventSeq f)"
    using marshal_event_strings [OF numbers_ok_payload [of f], of "\<lambda>ev. Some (SseId ev)" "EventSeq f" "EventType f"] by auto
  then show ?thesis by (simp add: encodeFrame_def)
qed

lemma demo_plan: "plan demo_env = [Admit, Emit (to_frame demo_event)]" "outcome demo_env = None"
  by (simp_all add: plan_def outcome_def demo_env_def actions_def verdict_def StreamEvents_def log_admit_def log_emit_def stream_end_def)

lemma demo_encodes: "encodeFrame (encoder demo_env) (to_frame demo_event) = Some ''7''"
  by (simp add: demo_env_def encodeFrame_id to_frame_def demo_event_def Let_def)

lemma demo_reach:
  "\<exists>s. reach demo_env s \<and> handler s = Flushing None \<and> frames s = [] \<and> out s = [WRetry 3000, WEvent ''7''] \<and> started s \<and> prod s = Returned"
proof -
  let ?f = "to_frame demo_event"
  let ?s0 = "sse_init demo_env"
  let ?s1 = "?s0\<lparr>prod := Running [Emit ?f], admitted := True\<rparr>"
  let ?s2 = "?s1\<lparr>handler := Loop, started := True, out := [retry_field demo_env]\<rparr>"
  let ?s3 = "?s2\<lparr>prod := Sending ''7'' []\<rparr>"
  let ?s4 = "?s3\<lparr>prod := Running [], frames := [''7'']\<rparr>"
  let ?s5 = "?s4\<lparr>frames := [], out := [retry_field demo_env, WEvent ''7'']\<rparr>"
  let ?s6 = "?s5\<lparr>prod := Returned, done_ch := Some None\<rparr>"
  let ?s7 = "?s6\<lparr>handler := Flushing None, ended := True, done_ch := None\<rparr>"
  have "step demo_env ?s0 ?s1" using p_admit [of ?s0 "[Emit ?f]"] by (simp add: sse_init_def demo_plan)
  moreover have "step demo_env ?s1 ?s2" using h_admitted [of ?s1 demo_env] by (simp add: sse_init_def)
  moreover have "step demo_env ?s2 ?s3" using p_encode [of ?s2 ?f "[]" demo_env "''7''"] by (simp add: demo_encodes)
  moreover have "step demo_env ?s3 ?s4" using p_send [of ?s3 "''7''" "[]" demo_env] by (simp add: sse_init_def) (simp add: demo_env_def)
  moreover have "step demo_env ?s4 ?s5" using h_frame [of ?s4 "''7''" "[]" demo_env] by simp
  moreover have "step demo_env ?s5 ?s6" using p_return [of ?s5 demo_env] by (simp add: demo_plan)
  moreover have "step demo_env ?s6 ?s7" using h_done [of ?s6 None demo_env] by simp
  ultimately have "reach demo_env ?s7" by (meson reach_init reach_step)
  then show ?thesis by (intro exI [of _ ?s7]) (simp add: retry_field_def demo_env_def)
qed

section \<open>Properties\<close>

text \<open>
  C1. Whatever the scheduling of the producer, the handler, the client and the shutdown, the events
  on the wire are at every moment a prefix of the source's frames in their order, without loss
  or duplication in the middle, and never more frames than the buffer's capacity are held.
\<close>

theorem stream_in_order:
  assumes "reach env s"
  shows "prefix (events (out s)) (encoded env (plan env)) \<and> length (frames s) \<le> cap env"
  using wire_prefix [OF assms] bound_reach [OF assms] by (simp add: bound_inv_def)

theorem stream_in_order_witness: "prefix [''7''] (encoded demo_env (plan demo_env))"
proof -
  obtain s where "reach demo_env s" "out s = [WRetry 3000, WEvent ''7'']" using demo_reach by blast
  then show ?thesis using stream_in_order [of demo_env s] by simp
qed

text \<open>
  C14. When the loop has taken a clean end of the stream and emptied the buffer, every frame of the
  source has been delivered: no message was skipped as unencodable or refused as slow.
\<close>

theorem stream_complete:
  assumes "reach env s" "handler s = Flushing None" "frames s = []"
  shows "events (out s) = encoded env (plan env) \<and> list_all (encodable env) (plan env)"
  using flushed_complete [OF assms] by blast

theorem stream_complete_witness: "[''7''] = encoded demo_env (plan demo_env)"
proof -
  obtain s where s: "reach demo_env s" "handler s = Flushing None" "frames s = []" "out s = [WRetry 3000, WEvent ''7'']"
    using demo_reach by blast
  then show ?thesis using stream_complete [OF s(1-3)] by simp
qed

text \<open>
  C32. The response has a fixed shape: nothing, or the retry field first and once, then events
  and heartbeats, then at most one reset or end frame as the last thing written.
\<close>

theorem stream_response_shape:
  assumes "reach env s"
  shows "body_closed env (out s)"
  using wire_reach [OF assms] body_open_closed by (auto simp: wire_inv_def split: handler.splits)

theorem stream_response_shape_witness: "body_closed demo_env [WRetry 3000, WEvent ''7'']"
proof -
  obtain s where "reach demo_env s" "out s = [WRetry 3000, WEvent ''7'']" using demo_reach by blast
  then show ?thesis using stream_response_shape [of demo_env s] by simp
qed

text \<open>
  A 200 is sent only once Control admitted the stream or its call ended, never together with an
  error envelope, and nothing is written to the body before the 200.
\<close>

theorem stream_begins_admitted:
  assumes "reach env s"
  shows "(started s \<longrightarrow> admitted s \<or> ended s) \<and> (started s \<longrightarrow> refusal s = None) \<and> (out s \<noteq> [] \<longrightarrow> started s)"
  using wire_reach [OF assms] by (auto simp: wire_inv_def split: handler.splits)

theorem stream_begins_admitted_witness: "\<exists>s. reach demo_env s \<and> started s \<and> refusal s = None"
proof -
  obtain s where "reach demo_env s" "started s" using demo_reach by blast
  then show ?thesis using stream_begins_admitted [of demo_env s] by blast
qed

end
