(* ===== verification/Stream_Liveness.thy ===== *)
theory Stream_Liveness
  imports Stream_Safety
begin

text \<open>
  How an event stream ends (Sse): resets happen only instead of an admitted stream, the deferred
  calls always finish and join the producer within a bounded number of steps, and the runs in
  which the first select prefers the producer's result over an admission that is also there.
\<close>

section \<open>Resets\<close>

fun remaining :: "producer \<Rightarrow> act set" where
  "remaining (Running as) = set as"
| "remaining (Sending b as) = set as"
| "remaining Returned = {}"

definition reset_inv :: "sse_env \<Rightarrow> sse \<Rightarrow> bool" where
  "reset_inv env s \<longleftrightarrow>
     remaining (prod s) \<subseteq> set (plan env) \<and> (admitted s \<longrightarrow> Admit \<in> set (plan env)) \<and>
     (\<forall>v. done_ch s = Some v \<or> handler s = Flushing v \<longrightarrow> resets v \<longrightarrow> v = outcome env) \<and>
     (\<forall>b. WReset b \<in> set (out s) \<longrightarrow> out s = [retry_field env, WReset b] \<and>
        (\<exists>e c. outcome env = Some e \<and> as_reset e = Some c \<and> encodeReset (encoder env) (operation env) c = Some b))"

lemma mid_no_reset: "body_open env w \<Longrightarrow> WReset b \<notin> set w"
  by (auto simp: body_open_def retry_field_def mid_wire_def list_all_iff split: wire.splits)

lemma retry_not_reset [simp]: "WReset b \<noteq> retry_field env" "retry_field env \<noteq> WReset b"
  by (simp_all add: retry_field_def)

lemma reset_in_frames:
  "WReset b \<in> set (reset_frame env c) \<longleftrightarrow> encodeReset (encoder env) (operation env) c = Some b"
  "WReset b \<in> set (end_frame env) \<longleftrightarrow> False"
  "reset_frame env c = [WReset b] \<longleftrightarrow> encodeReset (encoder env) (operation env) c = Some b"
  by (auto simp: reset_frame_def end_frame_def split: option.splits)

lemma early_reset:
  "WReset b \<in> set (early_frame env v) \<longleftrightarrow>
     (\<exists>e c. v = Some e \<and> as_reset e = Some c \<and> encodeReset (encoder env) (operation env) c = Some b)"
proof (cases v)
  case (Some e)
  then show ?thesis by (cases "as_reset e") (auto simp: early_frame_def reset_in_frames)
qed (simp add: early_frame_def)

lemma early_single: "WReset b \<in> set (early_frame env v) \<Longrightarrow> early_frame env v = [WReset b]"
  by (auto simp: early_frame_def reset_frame_def split: option.splits)

lemma final_reset: "WReset b \<in> set (final_frame env a v) \<Longrightarrow> resets v"
  by (auto simp: final_frame_def resets_def reset_in_frames split: option.splits if_splits)

lemma admitted_plan: "Admit \<in> set (plan env) \<Longrightarrow> \<not> resets (outcome env)"
  unfolding plan_def outcome_def by (rule control_events.admitted_no_reset)

lemma resets_simps [simp]:
  "\<not> resets None" "resets (Some e) \<longleftrightarrow> as_reset e \<noteq> None"
  by (auto simp: resets_def)

lemma reset_step:
  assumes "step env s t" "reset_inv env s" "wire_inv env s"
  shows "reset_inv env t"
  using assms(1)
proof cases
  case (h_final v)
  then have "\<not> resets v" using assms(2,3) admitted_plan by (auto simp: reset_inv_def wire_inv_def)
  moreover have "body_open env (out s)" using h_final assms(3) by (simp add: wire_inv_def)
  ultimately show ?thesis
    using h_final assms(2) final_reset mid_no_reset by (fastforce simp: reset_inv_def)
next
  case (h_early v)
  then have o: "out s = []" using assms(3) by (simp add: wire_inv_def)
  have "\<exists>e c. outcome env = Some e \<and> as_reset e = Some c \<and> encodeReset (encoder env) (operation env) c = Some b"
    if "WReset b \<in> set (early_frame env v)" for b
  proof -
    from that have "resets v" by (auto simp: early_reset)
    with h_early assms(2) have "v = outcome env" by (auto simp: reset_inv_def)
    with that show ?thesis by (simp add: early_reset)
  qed
  then show ?thesis using h_early o assms(2) early_single by (fastforce simp: reset_inv_def)
qed (use assms(2,3) in \<open>auto simp: reset_inv_def wire_inv_def reset_in_frames dest: mid_no_reset\<close>)

lemma reset_reach: "reach env s \<Longrightarrow> reset_inv env s"
proof (induction rule: reach.induct)
  case reach_init
  show ?case by (simp add: reset_inv_def sse_init_def)
next
  case (reach_step s t)
  then show ?case using reset_step wire_reach by blast
qed

section \<open>The deferred calls finish\<close>

fun producer_work :: "producer \<Rightarrow> nat" where
  "producer_work (Running as) = 2 * length as + 1"
| "producer_work (Sending b as) = 2 * length as + 2"
| "producer_work Returned = 0"

definition closing_work :: "sse \<Rightarrow> nat" where
  "closing_work s = producer_work (prod s) + (if gone s then 0 else 1) + (if draining s then 0 else 1) +
     (case handler s of Closing \<Rightarrow> 2 | Joining \<Rightarrow> 1 | _ \<Rightarrow> 0)"

lemma closing_step:
  assumes "step env s t" "handler s \<in> {Closing, Joining}"
  shows "closing_work t < closing_work s \<and> handler t \<in> {Closing, Joining, Finished}"
  using assms by (elim stepE) (auto simp: closing_work_def)

lemma closing_progress:
  assumes "reach env s" "handler s \<in> {Closing, Joining}"
  shows "\<exists>t. step env s t"
proof (cases "handler s = Closing")
  case True
  then show ?thesis using h_cancel by blast
next
  case False
  then have h: "handler s = Joining" using assms(2) by simp
  have inv: "bound_inv env s" using assms(1) by (rule bound_reach)
  show ?thesis
  proof (cases "prod s")
    case (Running as)
    with h inv show ?thesis
      using p_call_cancelled [where s = s and as = as and env = env and m = "[]"] by (auto simp: bound_inv_def)
  next
    case (Sending b as)
    with h inv show ?thesis using p_send_cancelled [where s = s and env = env] by (auto simp: bound_inv_def)
  next
    case Returned
    with h inv show ?thesis using h_join [of s] by (auto simp: bound_inv_def)
  qed
qed

interpretation sse_runs: machine "step env" "reach env" for env
  by unfold_locales (rule reach_step)

lemma closing_finishes:
  assumes "reach env s" "handler s \<in> {Closing, Joining}"
  shows "\<exists>t. (step env)\<^sup>*\<^sup>* s t \<and> handler t = Finished"
proof (rule sse_runs.descends [where P = "\<lambda>s. handler s \<in> {Closing, Joining, Finished}" and work = closing_work, OF assms(1)])
  fix s assume s: "reach env s" "handler s \<in> {Closing, Joining, Finished}" "handler s \<noteq> Finished"
  then show "\<exists>t. step env s t \<and> handler t \<in> {Closing, Joining, Finished} \<and> closing_work t < closing_work s"
    using closing_progress [OF s(1)] closing_step by blast
qed (use assms(2) in auto)

lemma closed_stays: "step env s t \<Longrightarrow> handler s \<in> {Closing, Joining, Finished} \<Longrightarrow> handler t \<in> {Closing, Joining, Finished}"
  by (elim stepE) auto

lemma finished_stays: "step env s t \<Longrightarrow> handler s = Finished \<Longrightarrow> handler t = Finished"
  by (elim stepE) auto

text \<open>A run of n steps that has not finished has used n units of the work there was.\<close>

lemma closing_bounded:
  assumes "handler s \<in> {Closing, Joining, Finished}" "(step env ^^ n) s t" "handler t \<noteq> Finished"
  shows "handler t \<in> {Closing, Joining} \<and> closing_work t + n \<le> closing_work s"
  using assms(2,3)
proof (induction n arbitrary: t)
  case 0
  then show ?case using assms(1) by auto
next
  case (Suc n)
  then obtain u where u: "(step env ^^ n) s u" "step env u t" by auto
  then have "handler u \<noteq> Finished" using finished_stays Suc.prems(2) by blast
  with Suc.IH u(1) have "handler u \<in> {Closing, Joining}" "closing_work u + n \<le> closing_work s" by blast+
  with closing_step [OF u(2)] Suc.prems(2) show ?case by auto
qed

section \<open>The result can overtake the admission\<close>

text \<open>The producer alone: it admits the stream, buffers every frame and returns.\<close>

lemma producer_run:
  assumes "reach env s" "prod s = Running (map Emit fs)" "list_all (encodable env) (map Emit fs)"
    and "length (frames s) + length fs \<le> cap env"
  shows "reach env (s\<lparr>prod := Running [], frames := frames s @ encoded env (map Emit fs)\<rparr>)"
  using assms
proof (induction fs arbitrary: s)
  case Nil
  then have "s\<lparr>prod := Running [], frames := frames s @ encoded env (map Emit [])\<rparr> = s"
    by (cases s) simp
  with Nil show ?case by (simp only:)
next
  case (Cons f fs)
  then obtain b where b: "encodeFrame (encoder env) f = Some b" by auto
  let ?s1 = "s\<lparr>prod := Sending b (map Emit fs)\<rparr>"
  let ?s2 = "s\<lparr>prod := Running (map Emit fs), frames := frames s @ [b]\<rparr>"
  have "step env s ?s1" using p_encode [OF _ b] Cons.prems(2) by simp
  moreover have "step env ?s1 ?s2" using p_send [of ?s1 b "map Emit fs" env] Cons.prems(4) by simp
  ultimately have "reach env ?s2" using Cons.prems(1) reach_step by blast
  from Cons.IH [OF this] show ?case using Cons.prems(3,4) b by simp
qed

lemma overtaken:
  assumes "plan env = Admit # map Emit fs" "list_all (encodable env) (plan env)" "length fs \<le> cap env"
    and "outcome env = None"
  shows "\<exists>s. reach env s \<and> handler s = Finished \<and> started s \<and> refusal s = None \<and> \<not> gone s \<and> \<not> draining s \<and>
     out s = [retry_field env] \<and> frames s = encoded env (plan env)"
proof -
  let ?s0 = "sse_init env"
  let ?s1 = "?s0\<lparr>prod := Running (map Emit fs), admitted := True\<rparr>"
  let ?s2 = "?s1\<lparr>prod := Running [], frames := encoded env (map Emit fs)\<rparr>"
  let ?s3 = "?s2\<lparr>prod := Returned, done_ch := Some None\<rparr>"
  let ?s4 = "?s3\<lparr>handler := Closing, ended := True, done_ch := None, started := True, out := [retry_field env]\<rparr>"
  let ?s5 = "?s4\<lparr>handler := Joining, cancelled := True\<rparr>"
  let ?s6 = "?s5\<lparr>handler := Finished, slot := False\<rparr>"
  have "reach env ?s1"
    using reach_init [of env] p_admit [of ?s0 "map Emit fs"] assms(1) by (auto simp: sse_init_def intro: reach_step)
  then have "reach env ?s2"
    using producer_run [of env ?s1 fs] assms(1-3) by (simp add: sse_init_def)
  moreover have "step env ?s2 ?s3" using p_return [of ?s2 env] assms(4) by simp
  moreover have "step env ?s3 ?s4"
    using h_early [of ?s3 None env] by (simp add: sse_init_def refuses_early_def early_frame_def)
  moreover have "step env ?s4 ?s5" using h_cancel [of ?s4 env] by simp
  moreover have "step env ?s5 ?s6" using h_join [of ?s5 "None" env] by simp
  ultimately have "reach env ?s6" by (meson reach_step)
  then show ?thesis using assms(1) by (intro exI [of _ ?s6]) (simp add: sse_init_def)
qed

section \<open>Properties\<close>

lemma demo_closing: "\<exists>s. reach demo_env s \<and> handler s = Closing"
proof -
  obtain s where s: "reach demo_env s" "handler s = Flushing None" "frames s = []" using demo_reach by blast
  let ?t = "s\<lparr>handler := Closing, out := out s @ final_frame demo_env (gone s) None\<rparr>"
  have "reach demo_env ?t" using h_final [OF s(2,3)] s(1) reach_step by blast
  then show ?thesis by (intro exI [of _ ?t]) simp
qed

text \<open>
  C16. When the handler returns, the producer's call has returned before it and the slot is released,
  and at no other time: nothing outlives the response and no slot leaks.
\<close>

theorem stream_joined:
  assumes "reach env s"
  shows "(slot s \<longleftrightarrow> handler s \<noteq> Finished) \<and> (handler s = Finished \<longrightarrow> prod s = Returned \<and> cancelled s)"
  using bound_reach [OF assms] by (auto simp: bound_inv_def)

theorem stream_joined_witness: "\<exists>s. reach demo_env s \<and> slot s"
proof -
  obtain s where "reach demo_env s" "handler s = Flushing None" using demo_reach by blast
  then show ?thesis using stream_joined [of demo_env s] by auto
qed

text \<open>
  C15. Once the handler runs its deferred calls it finishes: every run from there is finished after a
  bounded number of steps, an unfinished one can always go on, and a finishing run exists.
\<close>

theorem stream_end_terminates:
  assumes "reach env s" "handler s \<in> {Closing, Joining}"
  shows "(\<forall>n t. (step env ^^ n) s t \<longrightarrow> closing_work s < n \<longrightarrow> handler t = Finished)
    \<and> (\<forall>n t. (step env ^^ n) s t \<longrightarrow> handler t \<noteq> Finished \<longrightarrow> (\<exists>u. step env t u))
    \<and> (\<exists>t. (step env)\<^sup>*\<^sup>* s t \<and> handler t = Finished)"
proof (intro conjI allI impI)
  fix n t
  assume run: "(step env ^^ n) s t"
  show "handler t = Finished" if "closing_work s < n"
    using closing_bounded [OF _ run] assms(2) that by fastforce
  show "\<exists>u. step env t u" if "handler t \<noteq> Finished"
    using closing_bounded [OF _ run that] assms(2) closing_progress sse_runs.run_steps_possible [OF assms(1) run] by blast
qed (rule closing_finishes [OF assms])

theorem stream_end_terminates_witness: "\<exists>s t. reach demo_env s \<and> handler s = Closing \<and> (step demo_env)\<^sup>*\<^sup>* s t \<and> handler t = Finished"
proof -
  obtain s where "reach demo_env s" "handler s = Closing" using demo_closing by blast
  then show ?thesis using stream_end_terminates [of demo_env s] by blast
qed

text \<open>
  A reset frame is the whole body after the retry field and repeats the sequence Control covered:
  it is never sent after an event.
\<close>

theorem stream_reset_alone:
  assumes "reach env s" "WReset b \<in> set (out s)"
  shows "out s = [retry_field env, WReset b]
    \<and> (\<exists>e c. outcome env = Some e \<and> as_reset e = Some c \<and> encodeReset (encoder env) (operation env) c = Some b)"
  using reset_reach [OF assms(1)] assms(2) by (auto simp: reset_inv_def)

definition demo_reset_env :: sse_env where
  "demo_reset_env = demo_env\<lparr>encoder := (\<lambda>ev. Some ''r''), script := (script demo_env)\<lparr>list_page := Inr \<lparr>ResetRequired = True, CoveredEventSeq = ''9''\<rparr>\<rparr>\<rparr>"

lemma demo_reset:
  "\<exists>s. reach demo_reset_env s \<and> out s = [retry_field demo_reset_env, WReset ''r'']"
proof -
  let ?e = demo_reset_env
  let ?s0 = "sse_init ?e"
  let ?v = "Some (ResetErr ''9'')"
  let ?s1 = "?s0\<lparr>prod := Returned, done_ch := Some ?v\<rparr>"
  let ?s2 = "?s1\<lparr>handler := Closing, ended := True, done_ch := None, started := True, out := retry_field ?e # early_frame ?e ?v\<rparr>"
  have o: "plan ?e = []" "outcome ?e = ?v"
    by (simp_all add: plan_def outcome_def demo_reset_env_def demo_env_def actions_def verdict_def StreamEvents_def)
  have "step ?e ?s0 ?s1" using p_return [of ?s0 ?e] by (simp add: sse_init_def o)
  moreover have "step ?e ?s1 ?s2" using h_early [of ?s1 ?v ?e] by (simp add: sse_init_def refuses_early_def)
  ultimately have "reach ?e ?s2" by (meson reach_init reach_step)
  moreover have "encodeReset (encoder ?e) (operation ?e) ''9'' = Some ''r''"
    using marshal_event_strings [of "JObj [(''operationId'', JStr (operation ?e)), (''coveredEventSeq'', JStr ''9'')]" "encoder ?e" "[]" "''reset_required''"]
    by (auto simp: encodeReset_def demo_reset_env_def)
  ultimately show ?thesis by (intro exI [of _ ?s2]) (simp add: early_frame_def reset_frame_def)
qed

theorem stream_reset_alone_witness: "\<exists>e. outcome demo_reset_env = Some e \<and> as_reset e \<noteq> None"
proof -
  obtain s where "reach demo_reset_env s" "out s = [retry_field demo_reset_env, WReset ''r'']" using demo_reset by blast
  then show ?thesis using stream_reset_alone [of demo_reset_env s "''r''"] by auto
qed

text \<open>
  The first select can prefer the producer's result to an admission that is also there: then a
  stream Control admitted and that produced frames ends as a 200 with no event at all, although
  neither the client nor the server gave up. This is a defect of the code.
\<close>

theorem admitted_stream_can_end_empty:
  assumes "plan env = Admit # map Emit fs" "list_all (encodable env) (plan env)" "length fs \<le> cap env" "outcome env = None"
  shows "\<exists>s. reach env s \<and> handler s = Finished \<and> started s \<and> refusal s = None \<and> \<not> gone s \<and> \<not> draining s
    \<and> out s = [retry_field env] \<and> frames s = encoded env (plan env)"
  using overtaken [OF assms] by blast

theorem admitted_stream_can_end_empty_witness:
  "\<exists>s. reach demo_env s \<and> handler s = Finished \<and> out s = [WRetry 3000] \<and> frames s = [''7'']"
proof -
  have "plan demo_env = Admit # map Emit [to_frame demo_event]" "list_all (encodable demo_env) (plan demo_env)"
    "length [to_frame demo_event] \<le> cap demo_env"
    by (simp_all add: demo_plan demo_encodes) (simp add: demo_env_def)
  from admitted_stream_can_end_empty [OF this demo_plan(2)]
  show ?thesis by (auto simp: demo_plan demo_encodes retry_field_def) (auto simp: demo_env_def)
qed

end
