(* ===== verification/Http.thy ===== *)
theory Http
  imports Digest Validation Auth
begin

text \<open>
  The HTTP pipeline of internal/transport/http/server.go and observe.go: fail and errorEnvelope,
  observe, requestID, logRequests, the panic handler, authenticate, strictBody, and the order in
  which NewServer composes them, and newRequestID of handlers.go.

  A Gin context is the record \<open>gin\<close>; a handler is a function on it, and a middleware takes the
  rest of its chain, which is what its call of c.Next runs. Gin's recovery middleware, the
  verifier, the OpenAPI router and validator, the JSON scanner and SHA-256 are parameters. A
  handler below the recovery may panic: \<open>outcome\<close>.
\<close>

section \<open>The context\<close>

record envelope =
  EnvCode :: string
  EnvMessage :: string
  EnvRequestId :: string
  EnvRetryable :: bool
  EnvField :: "string option"

datatype payload = NoBody | ErrorBody envelope | OkBody string | PlainBody string

datatype log_level = Info | Warn | Error

text \<open>Levels are ordered by severity, as in log/slog.\<close>

instantiation log_level :: linorder
begin

definition severity :: "log_level \<Rightarrow> nat" where
  "severity l = (case l of Info \<Rightarrow> 0 | Warn \<Rightarrow> 4 | Error \<Rightarrow> 8)"

definition less_eq_log_level :: "log_level \<Rightarrow> log_level \<Rightarrow> bool" where
  "less_eq_log_level a b \<longleftrightarrow> severity a \<le> severity b"

definition less_log_level :: "log_level \<Rightarrow> log_level \<Rightarrow> bool" where
  "less_log_level a b \<longleftrightarrow> severity a < severity b"

instance
  by standard (auto simp: less_eq_log_level_def less_log_level_def severity_def split: log_level.splits)

end

record log_line =
  level :: log_level
  log_request_id :: string
  log_route :: string
  log_status :: nat
  log_code :: "string option"

record span =
  span_name :: string
  span_request_id :: string
  span_status :: nat
  span_error :: bool

record gin =
  Method :: string
  FullPath :: string
  Authorization :: string
  Body :: "(unit + string) option"
  ContentLength :: int
  k_principal :: "principal option"
  k_request_id :: "string option"
  k_error_code :: "string option"
  k_digest :: "string option"
  Errors :: "go_error list"
  aborted :: bool
  written :: bool
  w_status :: nat
  w_headers :: "string \<rightharpoonup> string"
  w_body :: payload
  ctx_request_id :: string
  logs :: "log_line list"
  open_span :: "span option"
  spans :: "span list"
  requests_total :: "(string \<times> string \<times> nat) list"

datatype outcome = Returned_ctx gin | Panic string gin

definition Header :: "string \<Rightarrow> string \<Rightarrow> gin \<Rightarrow> gin" where
  "Header k v c = c\<lparr>w_headers := (w_headers c)(k \<mapsto> v)\<rparr>"

definition fail :: "gin \<Rightarrow> api_error \<Rightarrow> gin" where
  "fail c e = c\<lparr>Errors := Errors c @ [ApiErr e], aborted := True\<rparr>"

definition JSON :: "nat \<Rightarrow> payload \<Rightarrow> gin \<Rightarrow> gin" where
  "JSON st b c = c\<lparr>written := True, w_status := st, w_body := b\<rparr>"

text \<open>c.Next on the rest of a chain: an aborted context runs nothing more.\<close>

definition Next :: "(gin \<Rightarrow> outcome) \<Rightarrow> gin \<Rightarrow> outcome" where
  "Next h c = (if aborted c then Returned_ctx c else h c)"

definition principal_of :: "gin \<Rightarrow> principal" where
  "principal_of c = (case k_principal c of Some p \<Rightarrow> p | None \<Rightarrow> no_principal)"

definition requestIDOf :: "gin \<Rightarrow> string" where
  "requestIDOf c = deref (k_request_id c)"

definition route_of :: "gin \<Rightarrow> string" where
  "route_of c = (if FullPath c = [] then ''unmatched'' else FullPath c)"

section \<open>Request identifiers\<close>

text \<open>base32 (RFC 4648, no padding) of 10 random bytes: 80 bits, 16 characters.\<close>

definition base32_char :: "nat \<Rightarrow> char" where
  "base32_char n = (if n < 26 then char_of (65 + n) else char_of (24 + n))"

fun bits :: "nat \<Rightarrow> nat \<Rightarrow> nat list" where
  "bits 0 n = []"
| "bits (Suc k) n = bits k (n div 2) @ [n mod 2]"

fun quintets :: "nat list \<Rightarrow> nat list" where
  "quintets (a # b # c # d # e # rest) = (16 * a + 8 * b + 4 * c + 2 * d + e) # quintets rest"
| "quintets _ = []"

definition base32 :: "char list \<Rightarrow> string" where
  "base32 bs = map base32_char (quintets (concat (map (bits 8 \<circ> char_code) bs)))"

definition newRequestID :: "char list \<Rightarrow> string" where
  "newRequestID rnd = ''req_'' @ base32 rnd"

text \<open>
  requestID: the identifier in the context, on the response, on the span that observe opened (\<open>open_span\<close>, the span of
  the request's context) and in the request's context.
\<close>

definition requestID :: "char list \<Rightarrow> (gin \<Rightarrow> gin) \<Rightarrow> gin \<Rightarrow> gin" where
  "requestID rnd next c =
     (let rid = newRequestID rnd in
      next ((Header ''X-Request-Id'' rid (c\<lparr>k_request_id := Some rid\<rparr>))
        \<lparr>open_span := map_option (\<lambda>sp. sp\<lparr>span_request_id := rid\<rparr>) (open_span c), ctx_request_id := rid\<rparr>))"

section \<open>Middleware\<close>

definition log_level_of :: "nat \<Rightarrow> log_level" where
  "log_level_of st = (if st \<ge> 500 then Error else if st \<ge> 400 then Warn else Info)"

lemma log_level_mono: "st \<le> st' \<Longrightarrow> log_level_of st \<le> log_level_of st'"
  by (simp add: log_level_of_def less_eq_log_level_def severity_def)

definition logRequests :: "(gin \<Rightarrow> gin) \<Rightarrow> gin \<Rightarrow> gin" where
  "logRequests next c =
     (let c1 = next c in
      c1\<lparr>logs := logs c1 @ [\<lparr>level = log_level_of (w_status c1), log_request_id = requestIDOf c1, log_route = route_of c1,
                            log_status = w_status c1, log_code = k_error_code c1\<rparr>]\<rparr>)"

text \<open>
  observe: one root span and one count per request; \<open>metrics\<close>: whether they are placed. The span is open while the rest
  of the chain runs.
\<close>

definition opened_span :: "gin \<Rightarrow> span" where
  "opened_span c = \<lparr>span_name = Method c @ '' '' @ route_of c, span_request_id = [], span_status = 0, span_error = False\<rparr>"

definition ended_span :: "nat \<Rightarrow> span \<Rightarrow> span" where
  "ended_span st sp = sp\<lparr>span_status := st, span_error := (st \<ge> 500)\<rparr>"

definition observe :: "bool \<Rightarrow> (gin \<Rightarrow> gin) \<Rightarrow> gin \<Rightarrow> gin" where
  "observe metrics next c =
     (let c1 = next (c\<lparr>open_span := Some (opened_span c)\<rparr>); st = w_status c1 in
      c1\<lparr>open_span := None,
         spans := (case open_span c1 of None \<Rightarrow> spans c1 | Some sp \<Rightarrow> spans c1 @ [ended_span st sp]),
         requests_total := (if metrics then requests_total c1 @ [(Method c, route_of c, st)] else requests_total c1)\<rparr>)"

definition rendered_error :: "gin \<Rightarrow> api_error" where
  "rendered_error c = (case as_api (hd (Errors c)) of Some ae \<Rightarrow> ae | None \<Rightarrow> dependencyUnavailable)"

definition envelope_of :: "api_error \<Rightarrow> string \<Rightarrow> envelope" where
  "envelope_of ae rid =
     \<lparr>EnvCode = code ae, EnvMessage = truncate_str (message ae) 512, EnvRequestId = rid, EnvRetryable = retryable ae,
      EnvField = (if field ae \<noteq> [] then Some (truncate_str (field ae) 128) else None)\<rparr>"

definition errorEnvelope :: "(gin \<Rightarrow> gin) \<Rightarrow> gin \<Rightarrow> gin" where
  "errorEnvelope next c =
     (let c1 = next c in
      if written c1 \<or> Errors c1 = [] then c1
      else (let ae = rendered_error c1;
                c2 = c1\<lparr>k_error_code := Some (code ae)\<rparr>;
                c3 = (if sends_retry_after ae then Header ''Retry-After'' (retryAfterSeconds ae) c2 else c2)
            in JSON (status ae) (ErrorBody (envelope_of ae (requestIDOf c3))) c3))"

text \<open>The handler NewServer gives to Gin's recovery: it logs the panic's type only.\<close>

definition internal_failure :: api_error where
  "internal_failure = \<lparr>status = 503, code = ''DEPENDENCY_UNAVAILABLE'', message = ''internal failure'',
     retryable = True, field = []\<rparr>"

definition onPanic :: "string \<Rightarrow> gin \<Rightarrow> gin" where
  "onPanic ty c = fail (c\<lparr>logs := logs c @ [\<lparr>level = Error, log_request_id = requestIDOf c, log_route = FullPath c,
     log_status = 0, log_code = Some ty\<rparr>]\<rparr>) internal_failure"

definition bearer_required :: api_error where
  "bearer_required = \<lparr>status = 401, code = ''UNAUTHENTICATED'', message = ''bearer token required'', retryable = False, field = []\<rparr>"

definition token_refused :: api_error where
  "token_refused = \<lparr>status = 401, code = ''UNAUTHENTICATED'', message = ''token not accepted'', retryable = False, field = []\<rparr>"

definition realm :: string where
  "realm = ''Bearer realm='' @ CHR 0x22 # ''anvilkit'' @ [CHR 0x22]"

definition authenticate :: "(string \<Rightarrow> go_error + principal) \<Rightarrow> (gin \<Rightarrow> outcome) \<Rightarrow> gin \<Rightarrow> outcome" where
  "authenticate verify next c =
     (let h = Authorization c in
      if \<not> HasPrefix h ''Bearer '' \<or> length h \<le> 7
      then Returned_ctx (fail (Header ''WWW-Authenticate'' realm c) bearer_required)
      else (case verify (TrimPrefix h ''Bearer '') of
              Inl e \<Rightarrow> Returned_ctx (fail (Header ''WWW-Authenticate'' (realm @ '', error='' @ CHR 0x22 # ''invalid_token'' @ [CHR 0x22]) c) token_refused)
            | Inr p \<Rightarrow> Next next (c\<lparr>k_principal := Some p\<rparr>)))"

text \<open>
  strictBody: the body is read up to one byte more than the limit; \<open>scan\<close> is the JSON scanner.
  The body the handler reads afterwards is the same bytes.
\<close>

definition strictBody ::
  "(string \<Rightarrow> input) \<Rightarrow> (string \<Rightarrow> string) \<Rightarrow> nat \<Rightarrow> (gin \<Rightarrow> outcome) \<Rightarrow> gin \<Rightarrow> outcome" where
  "strictBody scan sha limit next c =
     (if Body c = None \<or> ContentLength c = 0 then Next next c
      else (case the (Body c) of
              Inl _ \<Rightarrow> Returned_ctx (fail c (invalidArgument ''unreadable body''))
            | Inr stream \<Rightarrow>
                let raw = take (limit + 1) stream in
                if length raw > limit then Returned_ctx (fail c (invalidArgument ''body exceeds the size bound''))
                else (case strictDecode (scan raw) of
                        Inl m \<Rightarrow> Returned_ctx (fail c (invalidArgument m))
                      | Inr v \<Rightarrow>
                          (case CanonicalDigest sha v of
                             Inl m \<Rightarrow> Returned_ctx (fail c (invalidArgument ''body cannot be canonicalized''))
                           | Inr d \<Rightarrow> Next next (c\<lparr>k_digest := Some d, Body := Some (Inr raw)\<rparr>)))))"

definition validator ::
  "(gin \<Rightarrow> 'r option) \<Rightarrow> (gin \<Rightarrow> 'r \<Rightarrow> validation_error option) \<Rightarrow> (gin \<Rightarrow> outcome) \<Rightarrow> gin \<Rightarrow> outcome" where
  "validator find_route validate next c =
     (case requestValidator find_route validate c of
        Some e \<Rightarrow> Returned_ctx (fail c e)
      | None \<Rightarrow> Next next c)"

lemmas [handler_defs] = Next_def fail_def Header_def JSON_def

section \<open>The composition\<close>

text \<open>What runs for a request of the API group, below the recovery.\<close>

definition api_chain where
  "api_chain verify scan sha limit find_route validate handler =
     authenticate verify (strictBody scan sha limit (validator find_route validate handler))"

definition engine where
  "engine recovery metrics rnd inner =
     observe metrics (requestID rnd (logRequests (errorEnvelope (recovery onPanic inner))))"

text \<open>
  A generated strict handler with the three error handlers of NewServer: a request that cannot be bound or decoded
  (RequestErrorHandlerFunc), an error of the operation (HandlerErrorFunc), and an error of writing its
  response (ResponseErrorHandlerFunc), with nothing written yet (\<open>OpUnwritable\<close>: the status is set, the encoding
  failed) or after the response began (\<open>OpCut\<close>: \<open>b\<close> is what was written). An operation may panic.
\<close>

datatype op_result =
    OpErr go_error | OpOk nat string | OpPanic string
  | OpUndecodable | OpUnwritable nat go_error | OpCut nat string go_error

definition undecodable :: api_error where
  "undecodable = invalidArgument ''request could not be decoded''"

definition strict_handler :: "(gin \<Rightarrow> op_result) \<Rightarrow> gin \<Rightarrow> outcome" where
  "strict_handler op c =
     (case op c of
        OpErr e \<Rightarrow> Returned_ctx (fail c (fromControl e))
      | OpOk st b \<Rightarrow> Returned_ctx (JSON st (OkBody b) c)
      | OpPanic ty \<Rightarrow> Panic ty c
      | OpUndecodable \<Rightarrow> Returned_ctx (fail c undecodable)
      | OpUnwritable st e \<Rightarrow> Returned_ctx (fail (c\<lparr>w_status := st\<rparr>) (fromControl e))
      | OpCut st b e \<Rightarrow> Returned_ctx (fail (JSON st (OkBody b) c) (fromControl e)))"

text \<open>Documented behaviour of Gin's recovery: it runs the chain, and its handler on a panic.\<close>

definition recovers :: "((string \<Rightarrow> gin \<Rightarrow> gin) \<Rightarrow> (gin \<Rightarrow> outcome) \<Rightarrow> gin \<Rightarrow> gin) \<Rightarrow> bool" where
  "recovers recovery \<longleftrightarrow>
     (\<forall>h inner c. recovery h inner c = (case inner c of Returned_ctx c' \<Rightarrow> c' | Panic ty c' \<Rightarrow> h ty c'))"

definition gin_recovery :: "(string \<Rightarrow> gin \<Rightarrow> gin) \<Rightarrow> (gin \<Rightarrow> outcome) \<Rightarrow> gin \<Rightarrow> gin" where
  "gin_recovery h inner c = (case inner c of Returned_ctx c' \<Rightarrow> c' | Panic ty c' \<Rightarrow> h ty c')"

lemma gin_recovers: "recovers gin_recovery"
  by (simp add: recovers_def gin_recovery_def)

definition new_request :: "string \<Rightarrow> string \<Rightarrow> string \<Rightarrow> (unit + string) option \<Rightarrow> int \<Rightarrow> gin" where
  "new_request m path auth body len =
     \<lparr>Method = m, FullPath = path, Authorization = auth, Body = body, ContentLength = len, k_principal = None,
      k_request_id = None, k_error_code = None, k_digest = None, Errors = [], aborted = False, written = False,
      w_status = 200, w_headers = Map.empty, w_body = NoBody, ctx_request_id = [], logs = [], open_span = None, spans = [],
      requests_total = []\<rparr>"

section \<open>Nothing runs before it is allowed to\<close>

text \<open>
  What a middleware decides does not depend on the rest of the chain: it stops with an error of its
  own, or runs the rest on a context of its own.
\<close>

definition challenged :: "(string \<rightharpoonup> string) \<Rightarrow> (string \<rightharpoonup> string) \<Rightarrow> bool" where
  "challenged hs hs' \<longleftrightarrow> (\<forall>k. k \<noteq> ''WWW-Authenticate'' \<longrightarrow> hs' k = hs k)"

lemma challenged_refl [simp]: "challenged hs hs"
  by (simp add: challenged_def)

lemma challenged_upd [simp]: "challenged hs (hs(''WWW-Authenticate'' \<mapsto> v))"
  by (simp add: challenged_def)

definition stops :: "((gin \<Rightarrow> outcome) \<Rightarrow> gin \<Rightarrow> outcome) \<Rightarrow> gin \<Rightarrow> nat set \<Rightarrow> bool" where
  "stops mw c sts \<longleftrightarrow>
     (\<exists>e hs. status e \<in> sts \<and> challenged (w_headers c) hs \<and> (\<forall>next. mw next c = Returned_ctx (fail (c\<lparr>w_headers := hs\<rparr>) e)))"

definition goes_on :: "((gin \<Rightarrow> outcome) \<Rightarrow> gin \<Rightarrow> outcome) \<Rightarrow> gin \<Rightarrow> gin \<Rightarrow> bool" where
  "goes_on mw c c' \<longleftrightarrow> (\<forall>next. mw next c = Next next c')"

lemma stopsI: "status e \<in> sts \<Longrightarrow> (\<And>next. mw next c = Returned_ctx (fail c e)) \<Longrightarrow> stops mw c sts"
  unfolding stops_def by (intro exI [of _ e] exI [of _ "w_headers c"]) simp

lemma stops_challenge:
  "status e \<in> sts \<Longrightarrow> (\<And>next. mw next c = Returned_ctx (fail (Header ''WWW-Authenticate'' v c) e)) \<Longrightarrow> stops mw c sts"
  unfolding stops_def Header_def
  by (intro exI [of _ e] exI [of _ "(w_headers c)(''WWW-Authenticate'' \<mapsto> v)"] conjI challenged_upd) auto

lemma authenticate_cases:
  "stops (authenticate verify) c {401} \<or>
   (\<exists>p t. Authorization c = ''Bearer '' @ t \<and> t \<noteq> [] \<and> verify t = Inr p \<and> goes_on (authenticate verify) c (c\<lparr>k_principal := Some p\<rparr>))"
proof (cases "HasPrefix (Authorization c) ''Bearer '' \<and> length (Authorization c) > 7")
  case True
  then obtain t where t: "Authorization c = ''Bearer '' @ t" "t \<noteq> []"
    by (auto elim!: HasPrefixE)
  have tr: "TrimPrefix (Authorization c) ''Bearer '' = t" using t(1) by (simp only: TrimPrefix_append)
  show ?thesis
  proof (cases "verify t")
    case (Inl e)
    with True tr show ?thesis
      by (intro disjI1 stops_challenge [of token_refused]) (auto simp: authenticate_def Let_def token_refused_def)
  next
    case (Inr p)
    with True t tr show ?thesis by (auto simp: goes_on_def authenticate_def Let_def)
  qed
next
  case False
  then show ?thesis
    by (intro disjI1 stops_challenge [of bearer_required]) (auto simp: authenticate_def Let_def bearer_required_def)
qed

lemma strictBody_cases:
  "stops (strictBody scan sha limit) c {400} \<or>
   (Body c = None \<or> ContentLength c = 0) \<and> goes_on (strictBody scan sha limit) c c \<or>
   (\<exists>raw v d. Body c = Some (Inr raw) \<and> ContentLength c \<noteq> 0 \<and> length raw \<le> limit \<and> strictDecode (scan raw) = Inr v \<and> CanonicalDigest sha v = Inr d \<and>
      goes_on (strictBody scan sha limit) c (c\<lparr>k_digest := Some d\<rparr>))"
proof (cases "Body c = None \<or> ContentLength c = 0")
  case no: False
  let ?b = "strictBody scan sha limit"
  have refuse: "stops ?b c {400}" if "\<And>k. ?b k c = Returned_ctx (fail c (invalidArgument m))" for m
    using that by (intro stopsI [of "invalidArgument m"]) (simp_all add: invalidArgument_def)
  from no consider (unreadable) u where "Body c = Some (Inl u)" | (long) s where "Body c = Some (Inr s)" "\<not> length s \<le> limit"
    | (body) s where "Body c = Some (Inr s)" "length s \<le> limit"
    by (metis option.exhaust sum.exhaust)
  then show ?thesis
  proof cases
    case unreadable
    with no show ?thesis by (intro disjI1 refuse [of "''unreadable body''"]) (auto simp: strictBody_def)
  next
    case long
    with no show ?thesis
      by (intro disjI1 refuse [of "''body exceeds the size bound''"]) (auto simp: strictBody_def min_def)
  next
    case (body s)
    have t: "take (limit + 1) s = s" using body(2) by simp
    have u: "c\<lparr>k_digest := d, Body := Some (Inr s)\<rparr> = c\<lparr>k_digest := d\<rparr>" for d
      using body(1) by (cases c) simp
    show ?thesis
    proof (cases "strictDecode (scan s)")
      case (Inl m)
      with no body show ?thesis by (intro disjI1 refuse [of m]) (auto simp: strictBody_def t)
    next
      case v: (Inr v)
      show ?thesis
      proof (cases "CanonicalDigest sha v")
        case (Inl m)
        with no body v show ?thesis
          by (intro disjI1 refuse [of "''body cannot be canonicalized''"]) (auto simp: strictBody_def t)
      next
        case (Inr d)
        then have "goes_on ?b c (c\<lparr>k_digest := Some d\<rparr>)" using no body v by (simp add: goes_on_def strictBody_def t u)
        then show ?thesis using no body v Inr by blast
      qed
    qed
  qed
qed (simp add: goes_on_def strictBody_def)

lemma validator_cases:
  "stops (validator find_route validate) c {400} \<or>
   requestValidator find_route validate c = None \<and> goes_on (validator find_route validate) c c"
proof (cases "requestValidator find_route validate c")
  case None
  then show ?thesis by (simp add: goes_on_def validator_def)
next
  case (Some e)
  then have "status e = 400"
    using requestInvalid_refuses(1) by (auto simp: requestValidator_def invalidArgument_def split: option.splits)
  then show ?thesis using Some by (intro disjI1 stopsI [of e]) (auto simp: validator_def)
qed

lemma stops_goes_on:
  assumes "goes_on mw c c1" "\<not> aborted c1" "stops mw' c1 sts"
  shows "\<exists>e hs. status e \<in> sts \<and> challenged (w_headers c1) hs \<and> (\<forall>next. mw (mw' next) c = Returned_ctx (fail (c1\<lparr>w_headers := hs\<rparr>) e))"
  using assms by (auto simp: goes_on_def stops_def Next_def)

text \<open>
  The context a request may carry into its operation: the principal of an accepted token and, unless the request has no
  body, the digest of a body within the limit that is strictly decoded.
\<close>

definition admitted_ctx :: "(string \<Rightarrow> go_error + principal) \<Rightarrow> (string \<Rightarrow> input) \<Rightarrow> (string \<Rightarrow> string) \<Rightarrow> nat \<Rightarrow> gin \<Rightarrow> gin \<Rightarrow> bool" where
  "admitted_ctx verify scan sha limit c c' \<longleftrightarrow>
     (\<exists>p t. Authorization c = ''Bearer '' @ t \<and> t \<noteq> [] \<and> verify t = Inr p \<and>
        ((Body c = None \<or> ContentLength c = 0) \<and> c' = c\<lparr>k_principal := Some p\<rparr> \<or>
         (\<exists>raw v d. Body c = Some (Inr raw) \<and> ContentLength c \<noteq> 0 \<and> length raw \<le> limit \<and> strictDecode (scan raw) = Inr v \<and> CanonicalDigest sha v = Inr d \<and>
            c' = c\<lparr>k_principal := Some p, k_digest := Some d\<rparr>)))"

text \<open>A middleware that stops refuses the whole chain, with what the middlewares before it have put into the context.\<close>

lemma stops_refuses:
  assumes "stops mw c2 S" "S \<subseteq> {400, 401}" "c2 = c\<lparr>k_principal := kp, k_digest := kd\<rparr>" "\<And>h. \<exists>k. F h = mw k c2"
  shows "\<exists>e c1. status e \<in> {400, 401} \<and> (\<exists>kp kd hs. challenged (w_headers c) hs \<and> c1 = c\<lparr>k_principal := kp, k_digest := kd, w_headers := hs\<rparr>) \<and>
    (\<forall>h. F h = Returned_ctx (fail c1 e))"
proof -
  from assms(1,3) obtain e hs where e: "status e \<in> S" "challenged (w_headers c) hs" "\<And>k. mw k c2 = Returned_ctx (fail (c2\<lparr>w_headers := hs\<rparr>) e)"
    by (auto simp: stops_def)
  moreover have "c2\<lparr>w_headers := hs\<rparr> = c\<lparr>k_principal := kp, k_digest := kd, w_headers := hs\<rparr>" using assms(3) by simp
  moreover have "\<forall>h. F h = Returned_ctx (fail (c2\<lparr>w_headers := hs\<rparr>) e)" using assms(4) e(3) by metis
  ultimately show ?thesis using assms(2) by blast
qed

lemma goes_on_apply: "goes_on mw c c' \<Longrightarrow> \<not> aborted c' \<Longrightarrow> mw k c = k c'"
  by (simp add: goes_on_def Next_def)

lemma api_chain_gate:
  assumes "\<not> aborted c"
  shows "(\<exists>e c1. status e \<in> {400, 401} \<and> (\<exists>kp kd hs. challenged (w_headers c) hs \<and> c1 = c\<lparr>k_principal := kp, k_digest := kd, w_headers := hs\<rparr>) \<and>
       (\<forall>h. api_chain verify scan sha limit find_route validate h c = Returned_ctx (fail c1 e))) \<or>
    (\<exists>c'. admitted_ctx verify scan sha limit c c' \<and> requestValidator find_route validate c' = None \<and>
      (\<forall>h. api_chain verify scan sha limit find_route validate h c = h c'))"
  (is "?refused \<or> ?admitted")
proof -
  let ?a = "authenticate verify" and ?b = "strictBody scan sha limit" and ?v = "validator find_route validate"
  let ?F = "\<lambda>h. api_chain verify scan sha limit find_route validate h c"
  consider (no) "stops ?a c {401}"
    | (yes) p t where "Authorization c = ''Bearer '' @ t" "t \<noteq> []" "verify t = Inr p" "goes_on ?a c (c\<lparr>k_principal := Some p\<rparr>)"
    using authenticate_cases by blast
  then show ?thesis
  proof cases
    case no
    have "?refused"
      by (rule stops_refuses [OF no, where kp = "k_principal c" and kd = "k_digest c"]) (auto simp: api_chain_def)
    then show ?thesis ..
  next
    case yes
    let ?c = "c\<lparr>k_principal := Some p\<rparr>"
    have F: "?F = (\<lambda>h. ?b (?v h) ?c)"
      unfolding api_chain_def using goes_on_apply [OF yes(4)] assms by simp
    have v: "?refused \<or> ?admitted" if go: "goes_on ?b ?c c2" and c2: "c2 = ?c\<lparr>k_digest := kd\<rparr>"
      and ad: "admitted_ctx verify scan sha limit c c2" for c2 kd
    proof -
      have F': "?F = (\<lambda>h. ?v h c2)" unfolding F using goes_on_apply [OF go] assms c2 by simp
      have "?refused" if "stops ?v c2 {400}"
        by (rule stops_refuses [OF that, where kp = "Some p" and kd = kd]) (auto simp: c2 fun_cong [OF F'])
      moreover have "?F h = h c2" if "goes_on ?v c2 c2" for h
        using goes_on_apply [OF that] assms c2 by (simp add: fun_cong [OF F'])
      ultimately show ?thesis using validator_cases ad by blast
    qed
    have bad: "?refused" if "stops ?b ?c {400}"
      by (rule stops_refuses [OF that, where kp = "Some p" and kd = "k_digest c"]) (auto simp: fun_cong [OF F])
    consider "stops ?b ?c {400}" | (plain) "Body c = None \<or> ContentLength c = 0" "goes_on ?b ?c ?c"
      | (body) raw d u where "Body c = Some (Inr raw)" "ContentLength c \<noteq> 0" "length raw \<le> limit" "strictDecode (scan raw) = Inr u" "CanonicalDigest sha u = Inr d"
          "goes_on ?b ?c (?c\<lparr>k_digest := Some d\<rparr>)"
      using strictBody_cases [of scan sha limit ?c] by auto
    then show ?thesis
    proof cases
      case plain
      then have "admitted_ctx verify scan sha limit c ?c" using yes unfolding admitted_ctx_def by blast
      with v [OF plain(2), of "k_digest c"] show ?thesis by simp
    next
      case body
      then have "admitted_ctx verify scan sha limit c (?c\<lparr>k_digest := Some d\<rparr>)" using yes unfolding admitted_ctx_def by fastforce
      with v [OF body(6) refl] show ?thesis by blast
    qed (use bad in blast)
  qed
qed

text \<open>Conversely every such context reaches the validator, and the operation when the validator lets it through.\<close>

lemma authenticate_accepts:
  "Authorization c = ''Bearer '' @ t \<Longrightarrow> t \<noteq> [] \<Longrightarrow> verify t = Inr p \<Longrightarrow> \<not> aborted c \<Longrightarrow>
   authenticate verify next c = next (c\<lparr>k_principal := Some p\<rparr>)"
  using TrimPrefix_append [of "''Bearer ''" t]
  by (cases t) (simp_all add: authenticate_def HasPrefix_def Let_def Next_def)

lemma admitted_validated:
  assumes "\<not> aborted c" "admitted_ctx verify scan sha limit c c'"
  shows "api_chain verify scan sha limit find_route validate h c = validator find_route validate h c'"
    "\<not> aborted c'"
proof -
  from assms(2) obtain p t where a: "Authorization c = ''Bearer '' @ t" "t \<noteq> []" "verify t = Inr p"
    and b: "(Body c = None \<or> ContentLength c = 0) \<and> c' = c\<lparr>k_principal := Some p\<rparr> \<or>
         (\<exists>raw v d. Body c = Some (Inr raw) \<and> ContentLength c \<noteq> 0 \<and> length raw \<le> limit \<and> strictDecode (scan raw) = Inr v \<and>
            CanonicalDigest sha v = Inr d \<and> c' = c\<lparr>k_principal := Some p, k_digest := Some d\<rparr>)"
    unfolding admitted_ctx_def by blast
  let ?c = "c\<lparr>k_principal := Some p\<rparr>"
  show ab: "\<not> aborted c'" using b assms(1) by auto
  have "strictBody scan sha limit k ?c = k c'" for k
    using b
  proof
    assume "(Body c = None \<or> ContentLength c = 0) \<and> c' = ?c"
    then show ?thesis using assms(1) by (simp add: strictBody_def Next_def)
  next
    assume "\<exists>raw v d. Body c = Some (Inr raw) \<and> ContentLength c \<noteq> 0 \<and> length raw \<le> limit \<and> strictDecode (scan raw) = Inr v \<and>
            CanonicalDigest sha v = Inr d \<and> c' = c\<lparr>k_principal := Some p, k_digest := Some d\<rparr>"
    then obtain raw v d where w: "Body c = Some (Inr raw)" "ContentLength c \<noteq> 0" "length raw \<le> limit" "strictDecode (scan raw) = Inr v"
      "CanonicalDigest sha v = Inr d" "c' = c\<lparr>k_principal := Some p, k_digest := Some d\<rparr>" by blast
    then have "strictBody scan sha limit k ?c = k (c\<lparr>k_principal := Some p, k_digest := Some d, Body := Some (Inr raw)\<rparr>)"
      using assms(1) by (simp add: strictBody_def Next_def)
    also have "c\<lparr>k_principal := Some p, k_digest := Some d, Body := Some (Inr raw)\<rparr> = c\<lparr>k_principal := Some p, k_digest := Some d\<rparr>"
      using w(1) by (cases c) simp
    also have "\<dots> = c'" using w(6) by simp
    finally show ?thesis .
  qed
  then show "api_chain verify scan sha limit find_route validate h c = validator find_route validate h c'"
    unfolding api_chain_def authenticate_accepts [where c = c and t = t and verify = verify and p = p, OF a assms(1)] .
qed

lemma admitted_runs:
  assumes "\<not> aborted c" "admitted_ctx verify scan sha limit c c'" "requestValidator find_route validate c' = None"
  shows "api_chain verify scan sha limit find_route validate h c = h c'"
  using admitted_validated(1) [OF assms(1,2), of find_route validate h] admitted_validated(2) [OF assms(1,2)] assms(3) by (simp add: validator_def Next_def)

text \<open>The context with which the operation of a request is called, if it is called: what a handler that stops the chain finds.\<close>

definition operation_ctx where
  "operation_ctx verify scan sha limit find_route validate c =
     (case api_chain verify scan sha limit find_route validate (Panic []) c of Panic ty c' \<Rightarrow> Some c' | Returned_ctx c' \<Rightarrow> None)"

lemma operation_ctx_gate:
  assumes "\<not> aborted c"
  shows "operation_ctx verify scan sha limit find_route validate c = Some c' \<longleftrightarrow>
      admitted_ctx verify scan sha limit c c' \<and> requestValidator find_route validate c' = None"
    "operation_ctx verify scan sha limit find_route validate c = Some c' \<longleftrightarrow>
      (\<forall>h. api_chain verify scan sha limit find_route validate h c = h c')"
    "operation_ctx verify scan sha limit find_route validate c = None \<Longrightarrow>
      \<exists>e c1. status e \<in> {400, 401} \<and> (\<exists>kp kd hs. challenged (w_headers c) hs \<and> c1 = c\<lparr>k_principal := kp, k_digest := kd, w_headers := hs\<rparr>) \<and>
        (\<forall>h. api_chain verify scan sha limit find_route validate h c = Returned_ctx (fail c1 e))"
proof -
  have runs: "operation_ctx verify scan sha limit find_route validate c = Some c'"
    if "\<forall>h. api_chain verify scan sha limit find_route validate h c = h c'" for c'
    using that by (simp add: operation_ctx_def)
  have stopped: "operation_ctx verify scan sha limit find_route validate c = None"
    if "\<forall>h. api_chain verify scan sha limit find_route validate h c = Returned_ctx c1" for c1
    using that by (simp add: operation_ctx_def)
  note gate = api_chain_gate [OF assms, of verify scan sha limit find_route validate]
  have some: "admitted_ctx verify scan sha limit c c' \<and> requestValidator find_route validate c' = None \<and>
      (\<forall>h. api_chain verify scan sha limit find_route validate h c = h c')"
    if "operation_ctx verify scan sha limit find_route validate c = Some c'" for c'
    using gate that runs stopped by (metis option.distinct(1) option.inject)
  show "operation_ctx verify scan sha limit find_route validate c = Some c' \<longleftrightarrow>
      admitted_ctx verify scan sha limit c c' \<and> requestValidator find_route validate c' = None"
    using some runs admitted_runs [OF assms] by blast
  show "operation_ctx verify scan sha limit find_route validate c = Some c' \<longleftrightarrow>
      (\<forall>h. api_chain verify scan sha limit find_route validate h c = h c')"
    using some runs by blast
  show "\<exists>e c1. status e \<in> {400, 401} \<and> (\<exists>kp kd hs. challenged (w_headers c) hs \<and> c1 = c\<lparr>k_principal := kp, k_digest := kd, w_headers := hs\<rparr>) \<and>
        (\<forall>h. api_chain verify scan sha limit find_route validate h c = Returned_ctx (fail c1 e))"
    if "operation_ctx verify scan sha limit find_route validate c = None"
    using gate that runs by (metis option.distinct(1))
qed

section \<open>Request identifiers are distinct\<close>

lemma length_bits [simp]: "length (bits k n) = k"
  by (induction k arbitrary: n) auto

lemma bits_binary: "b \<in> set (bits k n) \<Longrightarrow> b < 2"
  by (induction k arbitrary: n) auto

lemma bits_inj: "bits k m = bits k n \<Longrightarrow> m < 2 ^ k \<Longrightarrow> n < 2 ^ k \<Longrightarrow> m = n"
proof (induction k arbitrary: m n)
  case (Suc k)
  then have "bits k (m div 2) = bits k (n div 2)" "m mod 2 = n mod 2" by auto
  moreover from Suc.prems have "m div 2 < 2 ^ k" "n div 2 < 2 ^ k" by auto
  ultimately show ?case using Suc.IH by (metis mult_div_mod_eq)
qed simp

lemma byte_bits_inj: "bits 8 (char_code c) = bits 8 (char_code d) \<Longrightarrow> c = d"
  using bits_inj [of 8 "char_code c" "char_code d"] char_code_inj by simp

lemma concat_bits_inj:
  "length bs = length cs \<Longrightarrow> concat (map (bits 8 \<circ> char_code) bs) = concat (map (bits 8 \<circ> char_code) cs) \<Longrightarrow> bs = cs"
proof (induction bs cs rule: list_induct2)
  case (Cons b bs c cs)
  then show ?case using byte_bits_inj by simp
qed simp

lemma quintet_less: "list_all (\<lambda>b. b < 2) xs \<Longrightarrow> q \<in> set (quintets xs) \<Longrightarrow> q < 32"
  by (induction xs rule: quintets.induct) auto

lemma length_quintets: "length xs = 5 * k \<Longrightarrow> length (quintets xs) = k"
proof (induction xs arbitrary: k rule: quintets.induct)
  case (1 a b c d e rest)
  then obtain j where "k = Suc j" by (cases k) auto
  with 1 show ?case by auto
qed auto

lemma bit_inj: "2 * x + e = 2 * y + e' \<Longrightarrow> e < 2 \<Longrightarrow> e' < 2 \<Longrightarrow> x = y \<and> e = (e' :: nat)"
  by presburger

lemma five_bits_inj:
  fixes a b c d e :: nat
  assumes "16 * a + 8 * b + 4 * c + 2 * d + e = 16 * a' + 8 * b' + 4 * c' + 2 * d' + e'"
    and "a < 2" "b < 2" "c < 2" "d < 2" "e < 2" "a' < 2" "b' < 2" "c' < 2" "d' < 2" "e' < 2"
  shows "a = a' \<and> b = b' \<and> c = c' \<and> d = d' \<and> e = e'"
proof -
  have e: "2 * (8 * a + 4 * b + 2 * c + d) + e = 2 * (8 * a' + 4 * b' + 2 * c' + d') + e'" using assms(1) by simp
  note e = bit_inj [OF e assms(6,11)]
  have d: "2 * (4 * a + 2 * b + c) + d = 2 * (4 * a' + 2 * b' + c') + d'" using e [THEN conjunct1] by (simp add: algebra_simps)
  note d = bit_inj [OF d assms(5,10)]
  have c: "2 * (2 * a + b) + c = 2 * (2 * a' + b') + c'" using d [THEN conjunct1] by (simp add: algebra_simps)
  note c = bit_inj [OF c assms(4,9)]
  have b: "2 * a + b = 2 * a' + b'" using c [THEN conjunct1] by (simp add: algebra_simps)
  note b = bit_inj [OF b assms(3,8)]
  show ?thesis using b c d e by blast
qed

lemma quintets_inj:
  "quintets xs = quintets ys \<Longrightarrow> length xs = 5 * k \<Longrightarrow> length ys = 5 * k \<Longrightarrow>
   list_all (\<lambda>b. b < 2) xs \<Longrightarrow> list_all (\<lambda>b. b < 2) ys \<Longrightarrow> xs = ys"
proof (induction k arbitrary: xs ys)
  case (Suc k)
  obtain a b c d e r where x: "xs = a # b # c # d # e # r" "length r = 5 * k"
    using Suc.prems(2) by (auto simp: length_Suc_conv numeral_eq_Suc)
  obtain a' b' c' d' e' r' where y: "ys = a' # b' # c' # d' # e' # r'" "length r' = 5 * k"
    using Suc.prems(3) by (auto simp: length_Suc_conv numeral_eq_Suc)
  have "16 * a + 8 * b + 4 * c + 2 * d + e = 16 * a' + 8 * b' + 4 * c' + 2 * d' + e'" "quintets r = quintets r'"
    using Suc.prems(1) x y by simp_all
  moreover have "r = r'" using Suc.IH [of r r'] Suc.prems x y calculation(2) by simp
  ultimately show ?case using five_bits_inj [of a b c d e a' b' c' d' e'] Suc.prems(4,5) x(1) y(1) by simp
qed simp

lemma base32_char_inj: "m < 32 \<Longrightarrow> n < 32 \<Longrightarrow> base32_char m = base32_char n \<Longrightarrow> m = n"
proof -
  assume "m < 32" "n < 32" "base32_char m = base32_char n"
  then have "char_code (base32_char m) = char_code (base32_char n)" "m < 32" "n < 32" by simp_all
  then show ?thesis by (auto simp: base32_char_def split: if_splits)
qed

lemma bytes_binary: "list_all (\<lambda>b. b < 2) (concat (map (bits 8 \<circ> char_code) bs))"
  using bits_binary by (auto simp: list_all_iff)

lemma length_bytes: "length (concat (map (bits 8 \<circ> char_code) bs)) = 8 * length bs"
  by (induction bs) auto

lemma base32_inj:
  assumes "length bs = 5 * k" "length cs = 5 * k" "base32 bs = base32 cs"
  shows "bs = cs"
proof -
  let ?x = "concat (map (bits 8 \<circ> char_code) bs)" and ?y = "concat (map (bits 8 \<circ> char_code) cs)"
  have "quintets ?x = quintets ?y"
  proof (rule map_inj_on)
    show "map base32_char (quintets ?x) = map base32_char (quintets ?y)" using assms(3) by (simp only: base32_def)
    show "inj_on base32_char (set (quintets ?x) \<union> set (quintets ?y))"
      using quintet_less [OF bytes_binary] base32_char_inj by (intro inj_onI) blast
  qed
  then have "?x = ?y"
    using quintets_inj [of ?x ?y "8 * k"] bytes_binary length_bytes assms(1,2) by simp
  then show ?thesis using concat_bits_inj assms(1,2) by simp
qed

section \<open>The response\<close>

text \<open>The context behind observe and requestID.\<close>

definition prepared :: "char list \<Rightarrow> gin \<Rightarrow> gin" where
  "prepared rnd c = (Header ''X-Request-Id'' (newRequestID rnd) (c\<lparr>k_request_id := Some (newRequestID rnd)\<rparr>))
     \<lparr>open_span := Some ((opened_span c)\<lparr>span_request_id := newRequestID rnd\<rparr>), ctx_request_id := newRequestID rnd\<rparr>"

text \<open>What the outer middleware has put into a context to which nothing was answered yet.\<close>

definition unanswered :: "string \<Rightarrow> gin \<Rightarrow> bool" where
  "unanswered rid c \<longleftrightarrow> Errors c = [] \<and> \<not> written c \<and> k_request_id c = Some rid \<and> k_error_code c = None \<and>
     w_headers c ''X-Request-Id'' = Some rid \<and> w_headers c ''Retry-After'' = None \<and> spans c = [] \<and>
     (\<exists>sp. open_span c = Some sp \<and> span_request_id sp = rid)"

text \<open>The identifier, the last log line and the one span of a response agree with it.\<close>

definition recorded :: "string \<Rightarrow> gin \<Rightarrow> bool" where
  "recorded rid c \<longleftrightarrow>
     w_headers c ''X-Request-Id'' = Some rid \<and>
     (\<exists>l. logs c \<noteq> [] \<and> List.last (logs c) = l \<and> log_request_id l = rid \<and> log_status l = w_status c \<and> level l = log_level_of (w_status c)) \<and>
     (\<exists>sp. spans c = [sp] \<and> span_request_id sp = rid \<and> span_status sp = w_status c \<and> (span_error sp \<longleftrightarrow> w_status c \<ge> 500))"

definition finished :: "string \<Rightarrow> api_error option \<Rightarrow> gin \<Rightarrow> bool" where
  "finished rid err c \<longleftrightarrow>
     written c \<and> recorded rid c \<and> log_code (List.last (logs c)) = map_option code err \<and>
     (case err of
        None \<Rightarrow> (\<exists>b. w_body c = OkBody b) \<and> w_headers c ''Retry-After'' = None
      | Some ae \<Rightarrow> w_body c = ErrorBody (envelope_of ae rid) \<and> w_status c = status ae \<and>
          w_headers c ''Retry-After'' = (if sends_retry_after ae then Some (retryAfterSeconds ae) else None))"

lemma engine_eq:
  "engine recovery metrics rnd inner c =
     observe metrics (\<lambda>_. logRequests (\<lambda>_. errorEnvelope (\<lambda>_. recovery onPanic inner (prepared rnd c)) c) c) c"
  by (simp add: engine_def observe_def requestID_def logRequests_def errorEnvelope_def Let_def prepared_def Header_def)

text \<open>A recorded error and nothing written: the envelope.\<close>

lemma rendered:
  assumes "recovery onPanic inner (prepared rnd c) = fail c1 ae" "unanswered rid c1"
  shows "finished rid (Some ae) (engine recovery metrics rnd inner c)"
proof -
  obtain sp where "open_span c1 = Some sp" "span_request_id sp = rid" using assms(2) by (auto simp: unanswered_def)
  with assms(2) show ?thesis
    unfolding engine_eq assms(1) unanswered_def finished_def recorded_def
    by (simp add: observe_def logRequests_def errorEnvelope_def rendered_error_def Let_def Header_def JSON_def requestIDOf_def
        fail_def ended_span_def)
qed

text \<open>A response that has begun stays as it is, whatever error is recorded after it.\<close>

lemma response_ok:
  assumes "recovery onPanic inner (prepared rnd c) = (JSON st (OkBody b) c1)\<lparr>Errors := es, aborted := ab\<rparr>" "unanswered rid c1"
  shows "finished rid None (engine recovery metrics rnd inner c) \<and> w_status (engine recovery metrics rnd inner c) = st
    \<and> w_body (engine recovery metrics rnd inner c) = OkBody b"
proof -
  obtain sp where "open_span c1 = Some sp" "span_request_id sp = rid" using assms(2) by (auto simp: unanswered_def)
  with assms(2) show ?thesis
    unfolding engine_eq assms(1) unanswered_def finished_def recorded_def
    by (simp add: observe_def logRequests_def errorEnvelope_def Let_def JSON_def requestIDOf_def ended_span_def)
qed

lemma prepared_new: "unanswered (newRequestID rnd) (prepared rnd (new_request m path auth body len))"
  "\<not> aborted (prepared rnd (new_request m path auth body len))"
  by (simp_all add: prepared_def unanswered_def new_request_def Header_def)

lemma prepared_keeps [simp]:
  "Authorization (prepared rnd c) = Authorization c" "Body (prepared rnd c) = Body c" "ContentLength (prepared rnd c) = ContentLength c"
  "ctx_request_id (prepared rnd c) = newRequestID rnd"
  by (simp_all add: prepared_def Header_def)

text \<open>What the middleware of the API changes leaves a context unanswered.\<close>

lemma unanswered_keeps:
  assumes "unanswered rid c"
  shows "unanswered rid (c\<lparr>k_principal := kp\<rparr>)" "unanswered rid (c\<lparr>k_principal := kp, k_digest := kd\<rparr>)" "unanswered rid (c\<lparr>w_status := st\<rparr>)"
    "challenged (w_headers c) hs \<Longrightarrow> unanswered rid (c\<lparr>k_principal := kp, k_digest := kd, w_headers := hs\<rparr>)"
    "challenged (w_headers c) hs \<Longrightarrow> unanswered rid (c\<lparr>w_headers := hs\<rparr>)"
  using assms by (auto simp: unanswered_def challenged_def)

lemma admitted_unanswered: "admitted_ctx verify scan sha limit c c' \<Longrightarrow> unanswered rid c \<Longrightarrow> unanswered rid c'"
  unfolding admitted_ctx_def using unanswered_keeps by blast

lemma finished_error:
  assumes "recovers recovery" "inner (prepared rnd c) = Returned_ctx (fail c1 ae)" "unanswered rid c1"
  shows "finished rid (Some ae) (engine recovery metrics rnd inner c)"
  using assms by (intro rendered) (simp_all add: recovers_def)

lemma finished_panic:
  assumes "recovers recovery" "inner (prepared rnd c) = Panic ty c1" "unanswered rid c1"
  shows "finished rid (Some internal_failure) (engine recovery metrics rnd inner c)"
  by (rule rendered [where ?c1.0 = "c1\<lparr>logs := logs c1 @ [\<lparr>level = Error, log_request_id = requestIDOf c1, log_route = FullPath c1,
     log_status = 0, log_code = Some ty\<rparr>]\<rparr>"])
     (use assms in \<open>simp_all add: recovers_def onPanic_def unanswered_def\<close>)

text \<open>The answer of an operation's result.\<close>

definition answers_result :: "string \<Rightarrow> op_result \<Rightarrow> gin \<Rightarrow> bool" where
  "answers_result rid res r \<longleftrightarrow>
     (case res of
        OpErr e \<Rightarrow> finished rid (Some (fromControl e)) r
      | OpUndecodable \<Rightarrow> finished rid (Some undecodable) r
      | OpUnwritable st e \<Rightarrow> finished rid (Some (fromControl e)) r
      | OpPanic ty \<Rightarrow> finished rid (Some internal_failure) r
      | OpOk st b \<Rightarrow> finished rid None r \<and> w_status r = st \<and> w_body r = OkBody b
      | OpCut st b e \<Rightarrow> finished rid None r \<and> w_status r = st \<and> w_body r = OkBody b)"

lemma operation_answered:
  assumes rec: "recovers recovery" and run: "inner (prepared rnd c) = strict_handler op c1" and u: "unanswered rid c1"
  shows "answers_result rid (op c1) (engine recovery metrics rnd inner c)"
proof (cases "op c1")
  case (OpErr e)
  with finished_error [where inner = inner and rnd = rnd and c = c, OF rec _ u] run show ?thesis by (simp add: strict_handler_def answers_result_def)
next
  case (OpOk st b)
  with run rec have "recovery onPanic inner (prepared rnd c) = (JSON st (OkBody b) c1)\<lparr>Errors := Errors c1, aborted := aborted c1\<rparr>"
    by (simp add: recovers_def strict_handler_def JSON_def)
  from response_ok [where recovery = recovery and inner = inner and rnd = rnd and c = c and ?c1.0 = c1 and st = st and b = b and es = "Errors c1" and ab = "aborted c1", OF this u] OpOk show ?thesis by (simp add: answers_result_def)
next
  case (OpPanic ty)
  with finished_panic [where inner = inner and rnd = rnd and c = c, OF rec _ u] run show ?thesis by (simp add: strict_handler_def answers_result_def)
next
  case OpUndecodable
  with finished_error [where inner = inner and rnd = rnd and c = c, OF rec _ u] run show ?thesis by (simp add: strict_handler_def answers_result_def)
next
  case (OpUnwritable st e)
  with finished_error [where inner = inner and rnd = rnd and c = c, OF rec _ unanswered_keeps(3) [OF u, of st]] run show ?thesis by (simp add: strict_handler_def answers_result_def)
next
  case (OpCut st b e)
  with run rec have "recovery onPanic inner (prepared rnd c) =
      (JSON st (OkBody b) c1)\<lparr>Errors := Errors c1 @ [ApiErr (fromControl e)], aborted := True\<rparr>"
    by (simp add: recovers_def strict_handler_def fail_def JSON_def)
  from response_ok [where recovery = recovery and inner = inner and rnd = rnd and c = c and ?c1.0 = c1 and st = st and b = b and es = "Errors c1 @ [ApiErr (fromControl e)]" and ab = True, OF this u] OpCut show ?thesis by (simp add: answers_result_def)
qed

lemma answered:
  fixes m path auth body len rnd
  defines "c \<equiv> new_request m path auth body len"
  assumes rec: "recovers recovery"
  shows "case operation_ctx verify scan sha limit find_route validate (prepared rnd c) of
      None \<Rightarrow> \<exists>ae. status ae \<in> {400, 401} \<and>
        finished (newRequestID rnd) (Some ae) (engine recovery metrics rnd (api_chain verify scan sha limit find_route validate (strict_handler op)) c)
    | Some c' \<Rightarrow> answers_result (newRequestID rnd) (op c')
        (engine recovery metrics rnd (api_chain verify scan sha limit find_route validate (strict_handler op)) c)"
proof -
  let ?p = "prepared rnd c"
  have p: "\<not> aborted ?p" "unanswered (newRequestID rnd) ?p" by (simp_all add: c_def prepared_new)
  note gate = operation_ctx_gate [OF p(1), of verify scan sha limit find_route validate]
  show ?thesis
  proof (cases "operation_ctx verify scan sha limit find_route validate ?p")
    case None
    from gate(3) [OF this] obtain e c1 kp kd hs where e: "status e \<in> {400, 401}" "challenged (w_headers ?p) hs"
      "c1 = ?p\<lparr>k_principal := kp, k_digest := kd, w_headers := hs\<rparr>"
      "api_chain verify scan sha limit find_route validate (strict_handler op) ?p = Returned_ctx (fail c1 e)" by blast
    have "unanswered (newRequestID rnd) c1" unfolding e(3) by (rule unanswered_keeps(4) [OF p(2) e(2)])
    with None e(1) finished_error [where inner = "api_chain verify scan sha limit find_route validate (strict_handler op)" and rnd = rnd and c = c, OF rec e(4)]
    show ?thesis by auto
  next
    case (Some c')
    then have r: "api_chain verify scan sha limit find_route validate (strict_handler op) ?p = strict_handler op c'"
      and "admitted_ctx verify scan sha limit ?p c'" using gate(1,2) by blast+
    with operation_answered [where inner = "api_chain verify scan sha limit find_route validate (strict_handler op)" and rnd = rnd and c = c, OF rec r] admitted_unanswered p(2) Some show ?thesis by fastforce
  qed
qed

lemma answers_finished: "answers_result rid res r \<Longrightarrow> \<exists>err. finished rid err r"
  by (cases res) (auto simp: answers_result_def)

lemma always_finished:
  assumes "recovers recovery"
  shows "\<exists>err. finished (newRequestID rnd) err (engine recovery metrics rnd
    (api_chain verify scan sha limit find_route validate (strict_handler op)) (new_request m path auth body len))"
  using answered [OF assms, where verify = verify and scan = scan and sha = sha and limit = limit and find_route = find_route and validate = validate
      and rnd = rnd and m = m and path = path and auth = auth and body = body and len = len and metrics = metrics and op = op] answers_finished
  by (auto split: option.splits)

section \<open>Properties\<close>

text \<open>
  C11. An operation runs exactly for a request whose bearer token the verifier accepts, whose body, if it has one, is
  within the limit, strictly decoded and canonicalized, and which the contract's validator lets through; it runs with
  that principal and, exactly when there is a body, with that body's canonical digest. Every other request ends with a 400 or 401, whatever
  the operation is.
\<close>

theorem operation_is_gated:
  "(operation_ctx verify scan sha limit find_route validate (new_request m path auth body len) = Some c' \<longleftrightarrow>
      admitted_ctx verify scan sha limit (new_request m path auth body len) c' \<and> requestValidator find_route validate c' = None) \<and>
   (operation_ctx verify scan sha limit find_route validate (new_request m path auth body len) = Some c' \<longleftrightarrow>
      (\<forall>h. api_chain verify scan sha limit find_route validate h (new_request m path auth body len) = h c')) \<and>
   (operation_ctx verify scan sha limit find_route validate (new_request m path auth body len) = None \<longleftrightarrow>
      (\<exists>e c1. status e \<in> {400, 401} \<and>
        (\<forall>h. api_chain verify scan sha limit find_route validate h (new_request m path auth body len) = Returned_ctx (fail c1 e))))"
proof -
  have "\<not> aborted (new_request m path auth body len)" by (simp add: new_request_def)
  note gate = operation_ctx_gate [OF this, of verify scan sha limit find_route validate]
  have "operation_ctx verify scan sha limit find_route validate (new_request m path auth body len) = None"
    if "\<forall>h. api_chain verify scan sha limit find_route validate h (new_request m path auth body len) = Returned_ctx (fail c1 e)" for c1 e
    using that by (simp add: operation_ctx_def)
  with gate show ?thesis by blast
qed



text \<open>
  C35. A request whose body the contract refuses is answered with 400 and an envelope with INVALID_ARGUMENT, a fixed
  message that depends on the failed keyword only and is never cut, and as field the first 128 bytes of a JSON pointer: from a
  pointer that is not longer, the location is read back exactly.
\<close>

theorem refused_body_located:
  assumes "recovers recovery" "admitted_ctx verify scan sha limit (prepared rnd (new_request m path auth body len)) c'"
    and "find_route c' = Some rt" "validate c' rt = Some (RequestErr re)"
    and "Parameter re = None" "HasBody re" "SchemaErr re = Some se"
  shows "\<exists>env r. r = engine recovery metrics rnd (api_chain verify scan sha limit find_route validate (strict_handler op)) (new_request m path auth body len)
    \<and> w_status r = 400 \<and> w_body r = ErrorBody env \<and> EnvCode env = ''INVALID_ARGUMENT'' \<and> \<not> EnvRetryable env
    \<and> EnvMessage env = ''request body: '' @ schemaFailure se \<and> EnvRequestId env = newRequestID rnd
    \<and> deref (EnvField env) = take 128 (jsonPointer (Pointer se))
    \<and> (length (jsonPointer (Pointer se)) \<le> 128 \<longrightarrow> pointerPath (deref (EnvField env)) = Pointer se)"
proof -
  let ?c = "new_request m path auth body len"
  let ?inner = "api_chain verify scan sha limit find_route validate (strict_handler op)"
  let ?r = "engine recovery metrics rnd ?inner ?c" and ?e = "requestInvalid (RequestErr re)"
  have "?inner (prepared rnd ?c) = Returned_ctx (fail c' ?e)"
    using admitted_validated(1) [OF prepared_new(2) assms(2), of find_route validate "strict_handler op"] assms(3,4)
    by (simp add: validator_def requestValidator_def)
  from finished_error [where inner = ?inner and rnd = rnd and c = ?c and ?c1.0 = c', OF assms(1) this admitted_unanswered [OF assms(2) prepared_new(1)]]
  have f: "w_status ?r = status ?e" "w_body ?r = ErrorBody (envelope_of ?e (newRequestID rnd))" by (simp_all add: finished_def)
  have p: "field ?e = jsonPointer (Pointer se)"
    using assms(5-7) by (simp add: requestInvalid_def invalidField_def)
  then have d: "deref (EnvField (envelope_of ?e (newRequestID rnd))) = take 128 (jsonPointer (Pointer se))"
    by (simp add: envelope_of_def truncate_str_def)
  then have "pointerPath (deref (EnvField (envelope_of ?e (newRequestID rnd)))) = Pointer se" if "length (jsonPointer (Pointer se)) \<le> 128"
    using that by (simp add: pointerPath_jsonPointer)
  moreover have "EnvMessage (envelope_of ?e (newRequestID rnd)) = ''request body: '' @ schemaFailure se"
    using body_refusal(1,3) [OF assms(5-7)] by (simp add: envelope_of_def)
  moreover have "EnvCode (envelope_of ?e (newRequestID rnd)) = ''INVALID_ARGUMENT''" "\<not> EnvRetryable (envelope_of ?e (newRequestID rnd))"
    "EnvRequestId (envelope_of ?e (newRequestID rnd)) = newRequestID rnd"
    using requestInvalid_refuses(2,3) by (simp_all add: envelope_of_def)
  ultimately show ?thesis using f requestInvalid_refuses(1) d by auto
qed

theorem refused_body_located_witness:
  "\<exists>env. w_body (engine gin_recovery True ''0123456789'' (api_chain (\<lambda>_. Inr no_principal) (\<lambda>_. []) id 10 (\<lambda>_. Some ())
       (\<lambda>_ _. Some (RequestErr \<lparr>Parameter = None, HasBody = True, SchemaErr = Some \<lparr>SchemaField = ''maxLength'', Pointer = [''a/b'', ''c~'']\<rparr>\<rparr>))
       (strict_handler (\<lambda>_. OpPanic ''x''))) (new_request ''POST'' ''/api/v1/x'' (''Bearer '' @ ''k'') None 0)) = ErrorBody env
     \<and> EnvField env = Some ''/a~1b/c~0'' \<and> EnvMessage env = ''request body: a value violates maxLength''"
proof -
  let ?p = "prepared ''0123456789'' (new_request ''POST'' ''/api/v1/x'' (''Bearer '' @ ''k'') None 0)"
  let ?se = "\<lparr>SchemaField = ''maxLength'', Pointer = [''a/b'', ''c~'']\<rparr>"
  have "admitted_ctx (\<lambda>_. Inr no_principal) (\<lambda>_. []) id 10 ?p (?p\<lparr>k_principal := Some no_principal\<rparr>)"
    by (simp add: admitted_ctx_def) (simp add: new_request_def)
  from refused_body_located [OF gin_recovers this, where find_route = "\<lambda>_. Some ()"
      and validate = "\<lambda>_ _. Some (RequestErr \<lparr>Parameter = None, HasBody = True, SchemaErr = Some ?se\<rparr>)"
      and rt = "()" and re = "\<lparr>Parameter = None, HasBody = True, SchemaErr = Some ?se\<rparr>" and se = ?se and metrics = True and op = "\<lambda>_. OpPanic ''x''"]
  obtain env where e: "w_body (engine gin_recovery True ''0123456789'' (api_chain (\<lambda>_. Inr no_principal) (\<lambda>_. []) id 10 (\<lambda>_. Some ())
       (\<lambda>_ _. Some (RequestErr \<lparr>Parameter = None, HasBody = True, SchemaErr = Some ?se\<rparr>))
       (strict_handler (\<lambda>_. OpPanic ''x''))) (new_request ''POST'' ''/api/v1/x'' (''Bearer '' @ ''k'') None 0)) = ErrorBody env"
    "deref (EnvField env) = take 128 (jsonPointer (Pointer ?se))" "EnvMessage env = ''request body: '' @ schemaFailure ?se" by auto
  have "jsonPointer (Pointer ?se) = ''/a~1b/c~0''" by (simp add: jsonPointer_def)
  with e(2) have "EnvField env = Some ''/a~1b/c~0''" by (cases "EnvField env") simp_all
  moreover have "schemaFailure ?se = ''a value violates maxLength''" by code_simp
  ultimately show ?thesis using e(1,3) by (intro exI [of _ env]) simp
qed

text \<open>
  A request identifier is the prefix req_ and 16 base32 characters that spell the ten random
  bytes: two requests share one exactly when they drew the same bytes.
\<close>

theorem request_ids_distinct:
  assumes "length r = 10" "length r' = 10"
  shows "length (newRequestID r) = 20 \<and> (newRequestID r = newRequestID r' \<longleftrightarrow> r = r')"
  using base32_inj [of r 2 r'] assms length_quintets [of "concat (map (bits 8 \<circ> char_code) r)" 16] length_bytes [of r]
  by (auto simp: newRequestID_def base32_def)

theorem request_ids_distinct_witness:
  "newRequestID (replicate 10 CHR ''a'') \<noteq> newRequestID (replicate 10 CHR ''b'')"
proof -
  have "length (replicate 10 CHR ''a'') = 10" "length (replicate 10 CHR ''b'') = 10" by simp_all
  from request_ids_distinct [OF this] show ?thesis by simp
qed

end
