(* ===== verification/Owner.thy ===== *)
theory Owner
  imports Events Auth
begin

text \<open>
  The messages the API exchanges with Control: the projections of
  internal/application/principal.go and the conversions of internal/adapters/control/client.go
  (scope, command, kinds, commandKinds, artifactClasses, toView, toReceipt, toTransfer and the
  requests of CreateOperation, CreatePreparation, SubmitAnswer, SubmitCommand, BeginTransfer and
  FinalizeTransfer).

  The protobuf messages are generated code: their records hold the fields the conversions read or
  set, an optional field or message being an option, an enum value the name its String method
  gives; \<^const>\<open>None\<close> is the enum's zero value where the code looks a word up.
\<close>

section \<open>Scopes and commands\<close>

record scope_msg =
  ScTenantId :: string
  ScProjectId :: string
  ScActorId :: string
  ScRoles :: "string list"

record command_msg =
  CmTenantId :: string
  CmCommandId :: string
  CmActorId :: string
  CmRequestDigest :: string

definition scope :: "principal \<Rightarrow> scope_msg" where
  "scope p = \<lparr>ScTenantId = TenantID p, ScProjectId = ProjectID p, ScActorId = ActorID p, ScRoles = Roles p\<rparr>"

definition command :: "command_identity \<Rightarrow> command_msg" where
  "command cmd = \<lparr>CmTenantId = CmdTenantID cmd, CmCommandId = CommandID cmd, CmActorId = CmdActorID cmd,
     CmRequestDigest = RequestDigest cmd\<rparr>"

section \<open>Contract words\<close>

definition kinds :: "string \<Rightarrow> string option" where
  "kinds = map_of
    [(''preparation'', ''OPERATION_KIND_PREPARATION''), (''generation'', ''OPERATION_KIND_GENERATION''),
     (''refinement'', ''OPERATION_KIND_REFINEMENT''), (''preview_build'', ''OPERATION_KIND_PREVIEW_BUILD''),
     (''release'', ''OPERATION_KIND_RELEASE''), (''local_check'', ''OPERATION_KIND_LOCAL_CHECK'')]"

definition commandKinds :: "string \<Rightarrow> string option" where
  "commandKinds = map_of
    [(''cancel'', ''COMMAND_KIND_CANCEL''), (''hold'', ''COMMAND_KIND_HOLD''),
     (''resume'', ''COMMAND_KIND_RESUME''), (''change_definition'', ''COMMAND_KIND_CHANGE_DEFINITION'')]"

definition artifactClasses :: "string \<Rightarrow> string option" where
  "artifactClasses = map_of
    [(''prompt'', ''ARTIFACT_CLASS_PROMPT''), (''brief'', ''ARTIFACT_CLASS_BRIEF''), (''source'', ''ARTIFACT_CLASS_SOURCE''),
     (''stage'', ''ARTIFACT_CLASS_STAGE''), (''result'', ''ARTIFACT_CLASS_RESULT''), (''evidence'', ''ARTIFACT_CLASS_EVIDENCE''),
     (''answer'', ''ARTIFACT_CLASS_ANSWER''), (''argument'', ''ARTIFACT_CLASS_ARGUMENT''),
     (''npm'', ''ARTIFACT_CLASS_NPM''), (''browser'', ''ARTIFACT_CLASS_BROWSER''), (''css'', ''ARTIFACT_CLASS_CSS'')]"

text \<open>A contract word as the gateways build an enum name from it, before the lookup of the name.\<close>

definition enum_name :: "string \<Rightarrow> string \<Rightarrow> string" where
  "enum_name prefix w = prefix @ ToUpper w"

section \<open>Operations\<close>

record subject_msg =
  SmProfileId :: string
  SmSubjectDigest :: string
  SmBriefId :: "string option"
  SmSourceRevision :: "string option"
  SmSourceHandle :: "string option"
  SmSourceOperationId :: "string option"
  SmPackageVersion :: "string option"

record progress_msg =
  PgStep :: string
  PgVisit :: string
  PgAttemptOrdinal :: string
  PgNode :: string
  PgNodeState :: string
  PgRound :: string
  PgEventSeq :: string

record clarification_msg =
  ClQuestionSetId :: string
  ClQuestionSetRevision :: string
  ClRound :: string
  ClAskedAt :: timestamp
  ClExpiresAt :: timestamp
  ClQuestions :: "(string \<times> string) list"

record operation_msg =
  OmOperationId :: string
  OmTenantId :: string
  OmProjectId :: string
  OmActorId :: string
  OmKind :: string
  OmSubject :: "subject_msg option"
  OmLifecycle :: string
  OmPhase :: string
  OmControl :: string
  OmCleanup :: string
  OmFinance :: string
  OmRevision :: string
  OmCoveredEventSeq :: string
  OmExecutionEpoch :: string
  OmCreatedAt :: timestamp
  OmUpdatedAt :: timestamp
  OmDeadline :: timestamp
  OmFailureCode :: string
  OmActiveDeadline :: timestamp
  OmProgress :: "progress_msg option"
  OmClarification :: "clarification_msg option"

record operation_subject =
  SubProfileID :: string
  SubSubjectDigest :: string
  SubBriefID :: string
  SubSourceRevision :: string
  SubSourceHandle :: string
  SubSourceOperationID :: string
  SubPackageVersion :: string

record operation_progress =
  PrStep :: string
  PrVisit :: string
  PrAttemptOrdinal :: string
  PrNode :: string
  PrNodeState :: string
  PrRound :: string
  PrEventSeq :: string

record clarification =
  QuestionSetID :: string
  QuestionSetRevision :: string
  CRound :: string
  AskedAt :: int
  ExpiresAt :: int
  Questions :: "(string \<times> string) list"

record operation_view =
  OvOperationID :: string
  OvTenantID :: string
  OvProjectID :: string
  OvActorID :: string
  OvKind :: string
  OvSubject :: operation_subject
  OvLifecycle :: string
  OvPhase :: string
  OvControl :: string
  OvCleanup :: string
  OvFinance :: string
  OvRevision :: string
  OvCoveredEventSeq :: string
  OvExecutionEpoch :: string
  OvCreatedAt :: int
  OvUpdatedAt :: int
  OvDeadline :: int
  OvFailureCode :: string
  OvActiveDeadline :: "int option"
  OvClarification :: "clarification option"
  OvProgress :: "operation_progress option"

definition no_subject_msg :: subject_msg where
  "no_subject_msg = \<lparr>SmProfileId = [], SmSubjectDigest = [], SmBriefId = None, SmSourceRevision = None,
     SmSourceHandle = None, SmSourceOperationId = None, SmPackageVersion = None\<rparr>"

text \<open>The getters of an absent message answer empty values.\<close>

definition read_subject :: "subject_msg option \<Rightarrow> operation_subject" where
  "read_subject so =
     (let s = (case so of Some m \<Rightarrow> m | None \<Rightarrow> no_subject_msg) in
      \<lparr>SubProfileID = SmProfileId s, SubSubjectDigest = SmSubjectDigest s, SubBriefID = deref (SmBriefId s),
       SubSourceRevision = deref (SmSourceRevision s), SubSourceHandle = deref (SmSourceHandle s),
       SubSourceOperationID = deref (SmSourceOperationId s), SubPackageVersion = deref (SmPackageVersion s)\<rparr>)"

definition to_progress :: "progress_msg \<Rightarrow> operation_progress" where
  "to_progress p = \<lparr>PrStep = PgStep p, PrVisit = PgVisit p, PrAttemptOrdinal = PgAttemptOrdinal p, PrNode = PgNode p,
     PrNodeState = PgNodeState p, PrRound = PgRound p, PrEventSeq = PgEventSeq p\<rparr>"

definition to_clarification :: "clarification_msg \<Rightarrow> clarification" where
  "to_clarification c = \<lparr>QuestionSetID = ClQuestionSetId c, QuestionSetRevision = ClQuestionSetRevision c, CRound = ClRound c,
     AskedAt = AsTime (ClAskedAt c), ExpiresAt = AsTime (ClExpiresAt c), Questions = ClQuestions c\<rparr>"

definition toView :: "operation_msg \<Rightarrow> operation_view" where
  "toView v =
     \<lparr>OvOperationID = OmOperationId v, OvTenantID = OmTenantId v, OvProjectID = OmProjectId v, OvActorID = OmActorId v,
      OvKind = enumWord (OmKind v) ''OPERATION_KIND_'', OvSubject = read_subject (OmSubject v),
      OvLifecycle = enumWord (OmLifecycle v) ''LIFECYCLE_'', OvPhase = OmPhase v,
      OvControl = enumWord (OmControl v) ''CONTROL_STATE_'', OvCleanup = enumWord (OmCleanup v) ''CLEANUP_STATE_'',
      OvFinance = enumWord (OmFinance v) ''FINANCE_STATE_'', OvRevision = OmRevision v,
      OvCoveredEventSeq = OmCoveredEventSeq v, OvExecutionEpoch = OmExecutionEpoch v,
      OvCreatedAt = AsTime (OmCreatedAt v), OvUpdatedAt = AsTime (OmUpdatedAt v), OvDeadline = AsTime (OmDeadline v),
      OvFailureCode = OmFailureCode v, OvActiveDeadline = map_option (\<lambda>t. AsTime (Some t)) (OmActiveDeadline v),
      OvClarification = map_option to_clarification (OmClarification v),
      OvProgress = map_option to_progress (OmProgress v)\<rparr>"

definition subject_request :: "operation_subject \<Rightarrow> subject_msg" where
  "subject_request s =
     \<lparr>SmProfileId = SubProfileID s, SmSubjectDigest = SubSubjectDigest s, SmBriefId = optStr (SubBriefID s),
      SmSourceRevision = optStr (SubSourceRevision s), SmSourceHandle = optStr (SubSourceHandle s),
      SmSourceOperationId = optStr (SubSourceOperationID s), SmPackageVersion = optStr (SubPackageVersion s)\<rparr>"

record preparation_intake =
  PromptTransferID :: string
  PromptDigest :: string
  BrandReferences :: "(string \<times> string) list"
  AssetReferences :: "(string \<times> string) list"

record transfer_intent =
  TiClass :: string
  TiMediaType :: string
  TiExpectedDigest :: string
  TiExpectedSize :: string
  TiOperationID :: string
  TiAttemptID :: string
  TiDeadline :: int

text \<open>The requests of the mutating methods, as the owner receives them.\<close>

datatype control_request =
    CreateOperationReq command_msg scope_msg "string option" subject_msg "preparation_intake option"
  | SubmitAnswerReq command_msg scope_msg string string string string string
  | GetOperationReq scope_msg string
  | SubmitCommandReq command_msg scope_msg string "string option" string "string option"
  | GetCommandReq scope_msg string string
  | BeginTransferReq command_msg scope_msg "string option" string string string timestamp "string option" "string option"
  | FinalizeTransferReq command_msg string string

definition CreateOperation :: "command_identity \<Rightarrow> principal \<Rightarrow> string \<Rightarrow> operation_subject \<Rightarrow> control_request" where
  "CreateOperation cmd p kind s = CreateOperationReq (command cmd) (scope p) (kinds kind) (subject_request s) None"

definition CreatePreparation ::
  "command_identity \<Rightarrow> principal \<Rightarrow> string \<Rightarrow> string \<Rightarrow> preparation_intake \<Rightarrow> control_request" where
  "CreatePreparation cmd p profileID subjectDigest intake =
     CreateOperationReq (command cmd) (scope p) (kinds ''preparation'')
       (no_subject_msg\<lparr>SmProfileId := profileID, SmSubjectDigest := subjectDigest\<rparr>) (Some intake)"

definition SubmitAnswer ::
  "command_identity \<Rightarrow> principal \<Rightarrow> string \<Rightarrow> string \<Rightarrow> string \<Rightarrow> string \<Rightarrow> string \<Rightarrow> control_request" where
  "SubmitAnswer cmd p operationID qs qrev transferID digest =
     SubmitAnswerReq (command cmd) (scope p) operationID qs qrev transferID digest"

definition SubmitCommand ::
  "command_identity \<Rightarrow> principal \<Rightarrow> string \<Rightarrow> string \<Rightarrow> string \<Rightarrow> string \<Rightarrow> control_request" where
  "SubmitCommand cmd p operationID kind expectedRevision targetActivation =
     SubmitCommandReq (command cmd) (scope p) operationID (commandKinds kind) expectedRevision (optStr targetActivation)"

definition BeginTransfer :: "command_identity \<Rightarrow> principal \<Rightarrow> transfer_intent \<Rightarrow> control_request" where
  "BeginTransfer cmd p i =
     BeginTransferReq (command cmd) (scope p) (artifactClasses (TiClass i)) (TiExpectedDigest i) (TiExpectedSize i) (TiMediaType i)
       (timestamppb_New (TiDeadline i)) (optStr (TiOperationID i)) (optStr (TiAttemptID i))"

definition FinalizeTransfer :: "command_identity \<Rightarrow> string \<Rightarrow> string \<Rightarrow> control_request" where
  "FinalizeTransfer cmd handle objectVersion = FinalizeTransferReq (command cmd) handle objectVersion"

text \<open>A unary call: the owner's answer converted, or its error mapped.\<close>

definition call :: "string \<Rightarrow> ('q \<Rightarrow> rpc_error + 'm) \<Rightarrow> ('m \<Rightarrow> 'v) \<Rightarrow> 'q \<Rightarrow> go_error + 'v" where
  "call service rpc conv req = (case rpc req of Inl e \<Rightarrow> Inl (mapErr service e) | Inr m \<Rightarrow> Inr (conv m))"

text \<open>The same where the answer's message is read through its pointer: without it the call panics, \<^const>\<open>None\<close>.\<close>

definition call_present :: "string \<Rightarrow> ('q \<Rightarrow> rpc_error + 'm option) \<Rightarrow> ('m \<Rightarrow> 'v) \<Rightarrow> 'q \<Rightarrow> go_error + 'v option" where
  "call_present service rpc conv = call service rpc (map_option conv)"

definition GetOperation :: "principal \<Rightarrow> string \<Rightarrow> control_request" where
  "GetOperation p operationID = GetOperationReq (scope p) operationID"

definition GetCommand :: "principal \<Rightarrow> string \<Rightarrow> string \<Rightarrow> control_request" where
  "GetCommand p operationID commandID = GetCommandReq (scope p) operationID commandID"

text \<open>What a mutating request and a read name: a command identity, a scope.\<close>

fun control_scope :: "control_request \<Rightarrow> scope_msg option" where
  "control_scope (CreateOperationReq c s k sub i) = Some s"
| "control_scope (SubmitAnswerReq c s a b d e f) = Some s"
| "control_scope (GetOperationReq s a) = Some s"
| "control_scope (SubmitCommandReq c s a b d e) = Some s"
| "control_scope (GetCommandReq s a b) = Some s"
| "control_scope (BeginTransferReq c s k a b d e f g) = Some s"
| "control_scope (FinalizeTransferReq c a b) = None"

fun control_command :: "control_request \<Rightarrow> command_msg option" where
  "control_command (CreateOperationReq c s k sub i) = Some c"
| "control_command (SubmitAnswerReq c s a b d e f) = Some c"
| "control_command (GetOperationReq s a) = None"
| "control_command (SubmitCommandReq c s a b d e) = Some c"
| "control_command (GetCommandReq s a b) = None"
| "control_command (BeginTransferReq c s k a b d e f g) = Some c"
| "control_command (FinalizeTransferReq c a b) = Some c"

record answer_msg =
  AnAnswerId :: string
  AnOperationId :: string
  AnQuestionSetId :: string
  AnQuestionSetRevision :: string
  AnUpdateId :: string
  AnAcceptedAt :: timestamp

record answer_receipt =
  ArAnswerID :: string
  ArOperationID :: string
  ArQuestionSetID :: string
  ArQuestionSetRevision :: string
  ArUpdateID :: string
  ArAcceptedAt :: int

definition to_answer :: "answer_msg \<Rightarrow> answer_receipt" where
  "to_answer a =
     \<lparr>ArAnswerID = AnAnswerId a, ArOperationID = AnOperationId a, ArQuestionSetID = AnQuestionSetId a,
      ArQuestionSetRevision = AnQuestionSetRevision a, ArUpdateID = AnUpdateId a, ArAcceptedAt = AsTime (AnAcceptedAt a)\<rparr>"

section \<open>Receipts and transfers\<close>

record receipt_msg =
  RmCommandId :: string
  RmOperationId :: string
  RmKind :: string
  RmOutcome :: string
  RmOperationRevision :: string
  RmReasonCode :: string
  RmAcceptedAt :: timestamp
  RmSettledAt :: timestamp

record command_receipt =
  CrCommandID :: string
  CrOperationID :: string
  CrKind :: string
  CrOutcome :: string
  CrOperationRevision :: string
  CrReasonCode :: string
  CrAcceptedAt :: int
  CrSettledAt :: "int option"

definition toReceipt :: "receipt_msg \<Rightarrow> command_receipt" where
  "toReceipt r =
     \<lparr>CrCommandID = RmCommandId r, CrOperationID = RmOperationId r, CrKind = enumWord (RmKind r) ''COMMAND_KIND_'',
      CrOutcome = enumWord (RmOutcome r) ''COMMAND_OUTCOME_'', CrOperationRevision = RmOperationRevision r,
      CrReasonCode = RmReasonCode r, CrAcceptedAt = AsTime (RmAcceptedAt r),
      CrSettledAt = map_option (\<lambda>t. AsTime (Some t)) (RmSettledAt r)\<rparr>"

record capability_msg =
  CpUrl :: string
  CpMethod :: string
  CpHeaders :: "(string \<times> string) list"
  CpExpiresAt :: timestamp

record upload_capability =
  UcURL :: string
  UcMethod :: string
  UcHeaders :: "(string \<times> string) list"
  UcExpiresAt :: int

record transfer_msg =
  TmTransferId :: string
  TmHandle :: string
  TmClass :: string
  TmExpectedDigest :: string
  TmExpectedSize :: string
  TmState :: string
  TmDeadline :: timestamp
  TmObjectVersion :: string
  TmReasonCode :: string

record transfer_view =
  TvTransferID :: string
  TvHandle :: string
  TvClass :: string
  TvExpectedDigest :: string
  TvExpectedSize :: string
  TvState :: string
  TvDeadline :: int
  TvObjectVersion :: string
  TvReasonCode :: string
  TvUpload :: "upload_capability option"

definition toTransfer :: "transfer_msg \<Rightarrow> capability_msg option \<Rightarrow> transfer_view" where
  "toTransfer t upload =
     \<lparr>TvTransferID = TmTransferId t, TvHandle = TmHandle t, TvClass = enumWord (TmClass t) ''ARTIFACT_CLASS_'',
      TvExpectedDigest = TmExpectedDigest t, TvExpectedSize = TmExpectedSize t, TvState = enumWord (TmState t) ''TRANSFER_STATE_'',
      TvDeadline = AsTime (TmDeadline t), TvObjectVersion = TmObjectVersion t, TvReasonCode = TmReasonCode t,
      TvUpload = (case upload of
          None \<Rightarrow> None
        | Some u \<Rightarrow>
            if CpUrl u = [] then None
            else Some \<lparr>UcURL = CpUrl u, UcMethod = CpMethod u, UcHeaders = CpHeaders u, UcExpiresAt = AsTime (CpExpiresAt u)\<rparr>)\<rparr>"

lemmas [conv_defs] = scope_def command_def read_subject_def to_progress_def to_clarification_def toView_def
  subject_request_def toReceipt_def toTransfer_def

section \<open>Round trips\<close>

lemma read_subject_request: "read_subject (Some (subject_request s)) = s"
  by (simp add: conv_defs)

lemma map_of_words:
  assumes "map_of ws w = Some e" "\<forall>(w, e)\<in>set ws. is_lower_word w \<and> e = prefix @ ToUpper w"
  shows "enumWord e prefix = w"
proof -
  have "(w, e) \<in> set ws" using assms(1) by (rule map_of_SomeD)
  with assms(2) have "is_lower_word w" "e = prefix @ ToUpper w" by auto
  then show ?thesis by (simp add: ToLower_ToUpper)
qed

lemma kinds_word: "kinds w = Some e \<Longrightarrow> enumWord e ''OPERATION_KIND_'' = w"
  unfolding kinds_def by (rule map_of_words) (assumption, code_simp)

lemma commandKinds_word: "commandKinds w = Some e \<Longrightarrow> enumWord e ''COMMAND_KIND_'' = w"
  unfolding commandKinds_def by (rule map_of_words) (assumption, code_simp)

lemma artifactClasses_word: "artifactClasses w = Some e \<Longrightarrow> enumWord e ''ARTIFACT_CLASS_'' = w"
  unfolding artifactClasses_def by (rule map_of_words) (assumption, code_simp)

lemma kinds_known: "kinds ''generation'' = Some ''OPERATION_KIND_GENERATION''"
  by (simp add: kinds_def)

lemma enum_name_word: "is_lower_word w \<Longrightarrow> enumWord (enum_name prefix w) prefix = w"
  by (simp add: enum_name_def ToLower_ToUpper)

section \<open>Properties\<close>

text \<open>
  C39. An operation comes back as it was requested: the request CreateOperation sends names the
  caller's scope and command, and the view of an operation that the owner stored with that kind and
  that subject has the requested kind word and the requested subject, absent members included.
\<close>

theorem operation_round_trip:
  assumes "CreateOperation cmd p w s = CreateOperationReq c sc (Some e) sm i" "OmKind v = e" "OmSubject v = Some sm"
  shows "OvKind (toView v) = w \<and> OvSubject (toView v) = s \<and> c = command cmd \<and> sc = scope p \<and> i = None"
proof -
  from assms(1) have k: "kinds w = Some e" and sm: "sm = subject_request s"
    and rest: "c = command cmd" "sc = scope p" "i = None"
    by (simp_all add: CreateOperation_def)
  have "OvKind (toView v) = enumWord (OmKind v) ''OPERATION_KIND_''" "OvSubject (toView v) = read_subject (OmSubject v)"
    by (simp_all add: toView_def)
  with kinds_word [OF k] assms(2,3) sm rest read_subject_request [of s] show ?thesis by simp
qed

theorem operation_round_trip_witness:
  "let s = \<lparr>SubProfileID = ''p'', SubSubjectDigest = ''d'', SubBriefID = ''b'', SubSourceRevision = [], SubSourceHandle = [],
        SubSourceOperationID = [], SubPackageVersion = []\<rparr>;
      v = \<lparr>OmOperationId = ''o'', OmTenantId = ''t'', OmProjectId = [], OmActorId = ''a'', OmKind = ''OPERATION_KIND_GENERATION'',
        OmSubject = Some (subject_request s), OmLifecycle = ''LIFECYCLE_RUNNING'', OmPhase = [], OmControl = [], OmCleanup = [],
        OmFinance = [], OmRevision = ''1'', OmCoveredEventSeq = ''0'', OmExecutionEpoch = ''1'', OmCreatedAt = None, OmUpdatedAt = None,
        OmDeadline = None, OmFailureCode = [], OmActiveDeadline = None, OmProgress = None, OmClarification = None\<rparr>
   in OvKind (toView v) = ''generation'' \<and> OvSubject (toView v) = s"
proof -
  have r: "CreateOperation cmd p ''generation'' s
      = CreateOperationReq (command cmd) (scope p) (Some ''OPERATION_KIND_GENERATION'') (subject_request s) None" for cmd p s
    by (simp add: CreateOperation_def kinds_known)
  show ?thesis unfolding Let_def
    by (intro conjI operation_round_trip [OF r [where cmd = "\<lparr>CmdTenantID = [], CommandID = [], CmdActorID = [], RequestDigest = []\<rparr>" and p = no_principal], THEN conjunct1]
        operation_round_trip [OF r [where cmd = "\<lparr>CmdTenantID = [], CommandID = [], CmdActorID = [], RequestDigest = []\<rparr>" and p = no_principal], THEN conjunct2, THEN conjunct1])
      simp_all
qed

end
