(* ===== verification/Reads.thy ===== *)
theory Reads
  imports Owner
begin

text \<open>
  The reads of committed results: preview.go and release.go of internal/adapters/control. Each
  method is a function of Control's answers (\<open>owners\<close>) and of the artifact store's (\<open>fetch\<close>), and
  returns its result with the calls it made, in order, so that what was asked of whom before a
  refusal is part of the model. SHA-256 in hexadecimal is the parameter \<open>sha\<close>.
\<close>

section \<open>Messages\<close>

record artifact_ref =
  ArClass :: string
  ArDigest :: string
  ArSizeBytes :: string
  ArHandle :: string

record preview_msg =
  PmOperationId :: string
  PmSubjectDigest :: string
  PmBaseRevision :: string
  PmState :: string
  PmSourceDigest :: string
  PmBuildProfileId :: string
  PmHostProfileId :: string
  PmRevision :: string
  PmUpdatedAt :: timestamp
  PmSourceRevision :: "string option"
  PmCurrentRevision :: "string option"
  PmFailureCode :: "string option"
  PmModule :: "artifact_ref option"
  PmStyles :: "artifact_ref list"

record preview_artifact =
  PaDigest :: string
  PaSizeBytes :: string
  PaMediaType :: string

record preview =
  PvOperationId :: string
  PvSubjectDigest :: string
  PvBaseRevision :: string
  PvState :: string
  PvSourceDigest :: string
  PvBuildProfileId :: string
  PvHostProfileId :: string
  PvRevision :: string
  PvUpdatedAt :: int
  PvSourceRevision :: "string option"
  PvCurrentRevision :: "string option"
  PvFailureCode :: "string option"
  PvModule :: "preview_artifact option"
  PvStyles :: "preview_artifact list"

definition mediaTypeOf :: "string \<Rightarrow> string" where
  "mediaTypeOf class = (if class = ''css'' then ''text/css'' else ''text/javascript'')"

definition to_preview_artifact :: "artifact_ref \<Rightarrow> preview_artifact" where
  "to_preview_artifact a = \<lparr>PaDigest = ArDigest a, PaSizeBytes = ArSizeBytes a, PaMediaType = mediaTypeOf (ArClass a)\<rparr>"

text \<open>The fields of an absent message are read through its pointer, which panics: \<^const>\<open>None\<close>.\<close>

definition toPreview :: "preview_msg option \<Rightarrow> preview option" where
  "toPreview po = map_option (\<lambda>p.
     \<lparr>PvOperationId = PmOperationId p, PvSubjectDigest = PmSubjectDigest p, PvBaseRevision = PmBaseRevision p,
      PvState = enumWord (PmState p) ''PREVIEW_STATE_'', PvSourceDigest = PmSourceDigest p,
      PvBuildProfileId = PmBuildProfileId p, PvHostProfileId = PmHostProfileId p, PvRevision = PmRevision p,
      PvUpdatedAt = AsTime (PmUpdatedAt p), PvSourceRevision = PmSourceRevision p, PvCurrentRevision = PmCurrentRevision p,
      PvFailureCode = PmFailureCode p, PvModule = map_option to_preview_artifact (PmModule p),
      PvStyles = map to_preview_artifact (PmStyles p)\<rparr>) po"

record source_msg =
  SoArtifact :: artifact_ref
  SoLineage :: string
  SoRevision :: string

record download =
  DlUrl :: string
  DlHeaders :: "(string \<times> string) list"

section \<open>Calls\<close>

datatype owner_call =
    CallGetOperation scope_msg string
  | CallGetPreview string string
  | CallGetSource string string
  | CallGetRelease string string
  | CallReadArtifact string string string
  | Fetch string "(string \<times> string) list"

text \<open>
  \<open>fetch\<close>: the store's answer to one GET without redirects, \<^const>\<open>None\<close> when it cannot be
  reached; a status and the body, or a failed read of it.
\<close>

text \<open>\<open>'r\<close> is the release message, which Releases.thy fills in.\<close>

record 'r owners =
  get_operation :: "scope_msg \<Rightarrow> string \<Rightarrow> rpc_error + operation_msg"
  get_preview :: "string \<Rightarrow> string \<Rightarrow> rpc_error + preview_msg option"
  get_source :: "string \<Rightarrow> string \<Rightarrow> rpc_error + source_msg"
  get_release :: "string \<Rightarrow> string \<Rightarrow> rpc_error + 'r"
  read_artifact :: "string \<Rightarrow> string \<Rightarrow> string \<Rightarrow> rpc_error + download"
  usable :: "string \<Rightarrow> bool"
  fetch :: "string \<Rightarrow> (string \<times> string) list \<Rightarrow> (nat \<times> (unit + string)) option"

text \<open>A method's result and its calls; the next part runs only after a result without an error.\<close>

type_synonym 'a logged = "(go_error + 'a) \<times> owner_call list"

definition andThen :: "'a logged \<Rightarrow> ('a \<Rightarrow> 'b logged) \<Rightarrow> 'b logged" where
  "andThen m f =
     (case m of
        (Inl e, cs) \<Rightarrow> (Inl e, cs)
      | (Inr v, cs) \<Rightarrow> (case f v of (r, cs') \<Rightarrow> (r, cs @ cs')))"

definition rpc :: "owner_call \<Rightarrow> rpc_error + 'a \<Rightarrow> 'a logged" where
  "rpc c r = (case r of Inl e \<Rightarrow> (Inl (mapErr ''control'' e), [c]) | Inr v \<Rightarrow> (Inr v, [c]))"

definition refuse :: "string \<Rightarrow> string \<Rightarrow> bool \<Rightarrow> 'a logged" where
  "refuse c m r = (Inl (ControlErr (ctl_err c m r)), [])"

definition authorize :: "'r owners \<Rightarrow> principal \<Rightarrow> string \<Rightarrow> unit logged" where
  "authorize ow p operationID =
     andThen (rpc (CallGetOperation (scope p) operationID) (get_operation ow (scope p) operationID)) (\<lambda>_. (Inr (), []))"

definition read_preview :: "'r owners \<Rightarrow> principal \<Rightarrow> string \<Rightarrow> preview_msg option logged" where
  "read_preview ow p operationID =
     andThen (authorize ow p operationID) (\<lambda>_.
       rpc (CallGetPreview (TenantID p) operationID) (get_preview ow (TenantID p) operationID))"

definition GetPreview :: "'r owners \<Rightarrow> principal \<Rightarrow> string \<Rightarrow> preview option logged" where
  "GetPreview ow p operationID = andThen (read_preview ow p operationID) (\<lambda>pv. (Inr (toPreview pv), []))"

text \<open>strconv.ParseInt in base 10 for 64 bits.\<close>

definition ParseInt :: "string \<Rightarrow> int option" where
  "ParseInt s =
     (let neg = (s \<noteq> [] \<and> hd s = CHR ''-''); ds = (if s \<noteq> [] \<and> (hd s = CHR ''-'' \<or> hd s = CHR ''+'') then tl s else s);
          n = (if neg then - int (undec ds) else int (undec ds))
      in if ds \<noteq> [] \<and> list_all is_digit ds \<and> - (2 ^ 63) \<le> n \<and> n < 2 ^ 63 then Some n else None)"

definition maxPreviewArtifact :: int where "maxPreviewArtifact = 2097152"
definition maxSourceArchive :: int where "maxSourceArchive = 16777216"

definition readVerified ::
  "(string \<Rightarrow> string) \<Rightarrow> 'r owners \<Rightarrow> string \<Rightarrow> string \<Rightarrow> string \<Rightarrow> string \<Rightarrow> int \<Rightarrow> string logged" where
  "readVerified sha ow tenantID handle operationID digest sz =
     andThen (rpc (CallReadArtifact handle operationID tenantID) (read_artifact ow handle operationID tenantID)) (\<lambda>dl.
       if \<not> usable ow (DlUrl dl) then refuse ''DEPENDENCY_UNAVAILABLE'' ''artifact capability unusable'' True
       else andThen (Inr (), [Fetch (DlUrl dl) (DlHeaders dl)]) (\<lambda>_.
         (case fetch ow (DlUrl dl) (DlHeaders dl) of
            None \<Rightarrow> refuse ''DEPENDENCY_UNAVAILABLE'' ''artifact store unreachable'' True
          | Some (st, Inl _) \<Rightarrow> refuse ''DEPENDENCY_UNAVAILABLE'' (''artifact read answered '' @ dec st) True
          | Some (st, Inr stream) \<Rightarrow>
              let body = take (nat (sz + 1)) stream in
              if st \<noteq> 200 then refuse ''DEPENDENCY_UNAVAILABLE'' (''artifact read answered '' @ dec st) True
              else if int (length body) \<noteq> sz \<or> ''sha256:'' @ sha body \<noteq> digest
              then refuse ''EFFECT_UNCERTAIN'' ''artifact bytes differ from the recorded digest or size'' False
              else (Inr body, []))))"

text \<open>The last of the module and the styles with the digest.\<close>

definition find_artifact :: "preview_msg option \<Rightarrow> string \<Rightarrow> artifact_ref option" where
  "find_artifact po digest =
     (case po of
        None \<Rightarrow> None
      | Some pv \<Rightarrow> find (\<lambda>a. ArDigest a = digest) (rev ((case PmModule pv of Some m \<Rightarrow> [m] | None \<Rightarrow> []) @ PmStyles pv)))"

definition ReadPreviewArtifact ::
  "(string \<Rightarrow> string) \<Rightarrow> 'r owners \<Rightarrow> principal \<Rightarrow> string \<Rightarrow> string \<Rightarrow> (string \<times> string) logged" where
  "ReadPreviewArtifact sha ow p operationID digest =
     andThen (read_preview ow p operationID) (\<lambda>pv.
       (case find_artifact pv digest of
          None \<Rightarrow> refuse ''NOT_FOUND'' ''no artifact of this preview has that digest'' False
        | Some ref \<Rightarrow>
            (case ParseInt (ArSizeBytes ref) of
               None \<Rightarrow> refuse ''INVALID_ARGUMENT'' ''preview artifact exceeds the bound'' False
             | Some sz \<Rightarrow>
                 if sz < 0 \<or> sz > maxPreviewArtifact
                 then refuse ''INVALID_ARGUMENT'' ''preview artifact exceeds the bound'' False
                 else andThen (readVerified sha ow (TenantID p) (ArHandle ref) operationID digest sz) (\<lambda>body.
                   (Inr (mediaTypeOf (ArClass ref), body), [])))))"

record source_bytes =
  SbLineage :: string
  SbRevision :: string
  SbDigest :: string
  SbBody :: string

definition ReadSource :: "(string \<Rightarrow> string) \<Rightarrow> 'r owners \<Rightarrow> principal \<Rightarrow> string \<Rightarrow> source_bytes logged" where
  "ReadSource sha ow p operationID =
     andThen (authorize ow p operationID) (\<lambda>_.
     andThen (rpc (CallGetSource (TenantID p) operationID) (get_source ow (TenantID p) operationID)) (\<lambda>src.
       (case ParseInt (ArSizeBytes (SoArtifact src)) of
          None \<Rightarrow> refuse ''INVALID_ARGUMENT'' ''source archive exceeds the bound'' False
        | Some sz \<Rightarrow>
            if sz < 0 \<or> sz > maxSourceArchive
            then refuse ''INVALID_ARGUMENT'' ''source archive exceeds the bound'' False
            else andThen (readVerified sha ow (TenantID p) (ArHandle (SoArtifact src)) operationID (ArDigest (SoArtifact src)) sz) (\<lambda>body.
              (Inr \<lparr>SbLineage = SoLineage src, SbRevision = SoRevision src, SbDigest = ArDigest (SoArtifact src), SbBody = body\<rparr>, [])))))"

section \<open>Authorization comes first\<close>

lemma andThen_Inr: "fst (andThen m f) = Inr v \<longleftrightarrow> (\<exists>u. fst m = Inr u \<and> fst (f u) = Inr v)"
  by (auto simp: andThen_def split: sum.splits prod.splits)

lemma andThen_calls: "snd (andThen m f) = snd m @ (case fst m of Inl e \<Rightarrow> [] | Inr u \<Rightarrow> snd (f u))"
  by (auto simp: andThen_def split: sum.splits prod.splits)

lemma andThen_Inl: "fst m = Inl e \<Longrightarrow> andThen m f = (Inl e, snd m)"
  by (cases m) (auto simp: andThen_def)

lemma rpc_simps [simp]:
  "snd (rpc c r) = [c]" "fst (rpc c (Inr v)) = Inr v" "fst (rpc c (Inl e)) = Inl (mapErr ''control'' e)"
  by (auto simp: rpc_def split: sum.splits)

lemma rpc_Inr: "fst (rpc c r) = Inr v \<longleftrightarrow> r = Inr v"
  by (cases r) auto

lemma refuse_Inr: "fst (refuse c m r) = Inr v \<longleftrightarrow> False"
  by (simp add: refuse_def)

lemma option_Inr: "fst (case q of None \<Rightarrow> refuse c m r | Some x \<Rightarrow> g x) = Inr v \<longleftrightarrow> (\<exists>x. q = Some x \<and> fst (g x) = Inr v)"
  by (simp add: refuse_Inr split: option.splits)

lemma guard_Inr: "fst (if b then refuse c m r else k) = Inr v \<longleftrightarrow> \<not> b \<and> fst k = Inr v"
  by (simp add: refuse_Inr)

lemmas logged_ok = andThen_Inr rpc_Inr refuse_Inr option_Inr guard_Inr

text \<open>The calls of one method: all of them name the principal's scope or tenant and the operation.\<close>

definition own_call :: "principal \<Rightarrow> string \<Rightarrow> owner_call \<Rightarrow> bool" where
  "own_call p op c \<longleftrightarrow>
     (case c of
        CallGetOperation s o' \<Rightarrow> s = scope p \<and> o' = op
      | CallGetPreview t o' \<Rightarrow> t = TenantID p \<and> o' = op
      | CallGetSource t o' \<Rightarrow> t = TenantID p \<and> o' = op
      | CallGetRelease t o' \<Rightarrow> t = TenantID p \<and> o' = op
      | CallReadArtifact h o' t \<Rightarrow> t = TenantID p \<and> o' = op
      | Fetch u hs \<Rightarrow> True)"

lemma authorize_calls [simp]: "snd (authorize ow p op) = [CallGetOperation (scope p) op]"
  by (simp add: authorize_def andThen_calls split: sum.splits)

lemma authorize_ok: "fst (authorize ow p op) = Inr u \<longleftrightarrow> (\<exists>v. get_operation ow (scope p) op = Inr v)"
  by (auto simp: authorize_def andThen_Inr rpc_Inr)

lemma authorize_refused:
  "get_operation ow (scope p) op = Inl e \<Longrightarrow> authorize ow p op = (Inl (mapErr ''control'' e), [CallGetOperation (scope p) op])"
  by (simp add: authorize_def rpc_def andThen_def)

text \<open>A method that authorizes first asks nothing else when the authorization fails.\<close>

definition authorized_first :: "'r owners \<Rightarrow> principal \<Rightarrow> string \<Rightarrow> 'a logged \<Rightarrow> bool" where
  "authorized_first ow p op m \<longleftrightarrow>
     (\<exists>rest. snd m = CallGetOperation (scope p) op # rest \<and> list_all (own_call p op) rest) \<and>
     (case get_operation ow (scope p) op of
        Inl e \<Rightarrow> m = (Inl (mapErr ''control'' e), [CallGetOperation (scope p) op])
      | Inr _ \<Rightarrow> True)"

lemma authorized_firstI:
  assumes "m = andThen (authorize ow p op) f" "\<And>u. list_all (own_call p op) (snd (f u))"
  shows "authorized_first ow p op m"
proof (cases "get_operation ow (scope p) op")
  case (Inl e)
  then show ?thesis by (simp add: authorized_first_def assms(1) authorize_refused andThen_def)
next
  case (Inr v)
  then have "snd m = CallGetOperation (scope p) op # snd (f ())"
    by (auto simp: assms(1) andThen_calls authorize_def rpc_def andThen_def split: sum.splits prod.splits)
  with Inr assms(2) show ?thesis by (simp add: authorized_first_def)
qed

lemma own_andThen:
  "list_all (own_call p op) (snd m) \<Longrightarrow> (\<And>u. list_all (own_call p op) (snd (f u))) \<Longrightarrow> list_all (own_call p op) (snd (andThen m f))"
  by (auto simp: andThen_calls split: sum.splits)

lemma own_refuse [simp]: "snd (refuse c m r) = []"
  by (simp add: refuse_def)

lemma own_readVerified: "list_all (own_call p op) (snd (readVerified sha ow (TenantID p) h op d n))"
  unfolding readVerified_def
  by (intro own_andThen) (auto simp: own_call_def andThen_calls Let_def split: sum.splits option.splits prod.splits)

lemma andThen_assoc: "andThen (andThen m f) g = andThen m (\<lambda>u. andThen (f u) g)"
  by (auto simp: andThen_def split: sum.splits prod.splits)

lemma GetPreview_first: "authorized_first ow p op (GetPreview ow p op)"
  unfolding GetPreview_def read_preview_def andThen_assoc
  by (rule authorized_firstI [OF refl], intro own_andThen) (auto simp: own_call_def)

lemma ReadPreviewArtifact_first: "authorized_first ow p op (ReadPreviewArtifact sha ow p op d)"
  unfolding ReadPreviewArtifact_def read_preview_def andThen_assoc
  by (rule authorized_firstI [OF refl], intro own_andThen)
     (auto simp: own_call_def intro: own_andThen own_readVerified split: option.splits)

lemma ReadSource_first: "authorized_first ow p op (ReadSource sha ow p op)"
  unfolding ReadSource_def
  by (rule authorized_firstI [OF refl], intro own_andThen)
     (auto simp: own_call_def intro: own_andThen own_readVerified split: option.splits)

section \<open>Bytes are verified\<close>

lemma readVerified_ok:
  assumes "fst (readVerified sha ow t h op d n) = Inr body"
  shows "int (length body) = n \<and> ''sha256:'' @ sha body = d \<and>
    (\<exists>dl stream. read_artifact ow h op t = Inr dl \<and> fetch ow (DlUrl dl) (DlHeaders dl) = Some (200, Inr stream) \<and> body = take (nat (n + 1)) stream)"
  using assms unfolding readVerified_def
  by (auto simp: andThen_Inr rpc_Inr refuse_def Let_def split: if_splits option.splits sum.splits prod.splits)

lemma find_mem: "find P xs = Some x \<Longrightarrow> x \<in> set xs \<and> P x"
  by (auto simp: find_Some_iff)

lemma ReadPreviewArtifact_ok:
  assumes "fst (ReadPreviewArtifact sha ow p op d) = Inr (mt, body)"
  shows "\<exists>pv ref. get_preview ow (TenantID p) op = Inr (Some pv) \<and> ref \<in> set (PmStyles pv) \<union> set_option (PmModule pv) \<and> ArDigest ref = d
    \<and> mt = mediaTypeOf (ArClass ref) \<and> ParseInt (ArSizeBytes ref) = Some (int (length body))
    \<and> int (length body) \<le> maxPreviewArtifact \<and> ''sha256:'' @ sha body = d"
proof -
  from assms obtain po ref sz where po: "get_preview ow (TenantID p) op = Inr po" and f0: "find_artifact po d = Some ref"
    and s: "ParseInt (ArSizeBytes ref) = Some sz" "sz \<le> maxPreviewArtifact" "mt = mediaTypeOf (ArClass ref)"
    and b: "fst (readVerified sha ow (TenantID p) (ArHandle ref) op d sz) = Inr body"
    unfolding ReadPreviewArtifact_def read_preview_def
    by (auto simp: logged_ok)
  from f0 obtain pv where pv: "po = Some pv"
    and f: "find (\<lambda>a. ArDigest a = d) (rev ((case PmModule pv of Some m \<Rightarrow> [m] | None \<Rightarrow> []) @ PmStyles pv)) = Some ref"
    by (auto simp: find_artifact_def split: option.splits)
  have "ref \<in> set (rev ((case PmModule pv of Some m \<Rightarrow> [m] | None \<Rightarrow> []) @ PmStyles pv)) \<and> ArDigest ref = d"
    using find_mem [OF f] by simp
  then have "ref \<in> set (PmStyles pv) \<union> set_option (PmModule pv)" "ArDigest ref = d"
    by (auto split: option.splits)
  with pv po s readVerified_ok [OF b] show ?thesis by auto
qed

lemma ReadSource_ok:
  assumes "fst (ReadSource sha ow p op) = Inr src"
  shows "\<exists>so. get_source ow (TenantID p) op = Inr so \<and> SbDigest src = ArDigest (SoArtifact so)
    \<and> ParseInt (ArSizeBytes (SoArtifact so)) = Some (int (length (SbBody src)))
    \<and> int (length (SbBody src)) \<le> maxSourceArchive \<and> ''sha256:'' @ sha (SbBody src) = SbDigest src"
proof -
  from assms obtain so sz body where so: "get_source ow (TenantID p) op = Inr so"
    and s: "ParseInt (ArSizeBytes (SoArtifact so)) = Some sz" "sz \<le> maxSourceArchive"
    and b: "fst (readVerified sha ow (TenantID p) (ArHandle (SoArtifact so)) op (ArDigest (SoArtifact so)) sz) = Inr body"
    and src: "src = \<lparr>SbLineage = SoLineage so, SbRevision = SoRevision so, SbDigest = ArDigest (SoArtifact so), SbBody = body\<rparr>"
    unfolding ReadSource_def by (auto simp: logged_ok)
  with readVerified_ok [OF b] show ?thesis by auto
qed

section \<open>Properties\<close>

lemma readVerified_calls:
  assumes "fst (readVerified sha ow t h op d n) = Inr body" "read_artifact ow h op t = Inr dl"
  shows "snd (readVerified sha ow t h op d n) = [CallReadArtifact h op t, Fetch (DlUrl dl) (DlHeaders dl)]"
  using assms unfolding readVerified_def
  by (auto simp: andThen_Inr andThen_calls rpc_Inr refuse_def Let_def split: if_splits option.splits sum.splits prod.splits)

text \<open>
  C27. The bytes of a preview artifact that are served are the ones asked for: Control shows the
  operation to the caller, the caller's tenant has a preview that lists an artifact of that digest,
  and the body has that digest, the recorded size and at most the bound.
\<close>

theorem preview_bytes_verified:
  assumes "fst (ReadPreviewArtifact sha ow p op d) = Inr (mt, body)"
  shows "(\<exists>v. get_operation ow (scope p) op = Inr v) \<and>
    (\<exists>pv ref. get_preview ow (TenantID p) op = Inr (Some pv) \<and> ref \<in> set (PmStyles pv) \<union> set_option (PmModule pv)
      \<and> ArDigest ref = d \<and> mt = mediaTypeOf (ArClass ref) \<and> ParseInt (ArSizeBytes ref) = Some (int (length body))
      \<and> int (length body) \<le> maxPreviewArtifact \<and> ''sha256:'' @ sha body = d)"
proof
  from assms obtain pv where "fst (read_preview ow p op) = Inr pv"
    by (auto simp: ReadPreviewArtifact_def logged_ok)
  then show "\<exists>v. get_operation ow (scope p) op = Inr v" by (auto simp: read_preview_def andThen_Inr authorize_ok)
qed (rule ReadPreviewArtifact_ok [OF assms])

text \<open>
  The source archive that is served is the recorded one: Control shows the operation to the
  caller, and the body has the digest the answer names, the recorded size and at most the bound.
\<close>

theorem source_bytes_verified:
  assumes "fst (ReadSource sha ow p op) = Inr src"
  shows "(\<exists>v. get_operation ow (scope p) op = Inr v) \<and>
    (\<exists>so. get_source ow (TenantID p) op = Inr so \<and> SbDigest src = ArDigest (SoArtifact so)
      \<and> ParseInt (ArSizeBytes (SoArtifact so)) = Some (int (length (SbBody src)))
      \<and> int (length (SbBody src)) \<le> maxSourceArchive \<and> ''sha256:'' @ sha (SbBody src) = SbDigest src)"
proof
  from assms show "\<exists>v. get_operation ow (scope p) op = Inr v" by (auto simp: ReadSource_def andThen_Inr authorize_ok)
qed (rule ReadSource_ok [OF assms])

section \<open>An owner with one preview and one source\<close>

definition demo_ref :: artifact_ref where
  "demo_ref = \<lparr>ArClass = ''css'', ArDigest = ''sha256:ab'', ArSizeBytes = ''2'', ArHandle = ''h''\<rparr>"

definition demo_preview :: preview_msg where
  "demo_preview = \<lparr>PmOperationId = ''o'', PmSubjectDigest = [], PmBaseRevision = [], PmState = [], PmSourceDigest = [],
     PmBuildProfileId = [], PmHostProfileId = [], PmRevision = [], PmUpdatedAt = None, PmSourceRevision = None,
     PmCurrentRevision = None, PmFailureCode = None, PmModule = None, PmStyles = [demo_ref]\<rparr>"

definition demo_owners :: "unit owners" where
  "demo_owners =
     \<lparr>get_operation = (\<lambda>s op. Inr \<lparr>OmOperationId = op, OmTenantId = ScTenantId s, OmProjectId = [], OmActorId = [], OmKind = [],
        OmSubject = None, OmLifecycle = [], OmPhase = [], OmControl = [], OmCleanup = [], OmFinance = [], OmRevision = [],
        OmCoveredEventSeq = [], OmExecutionEpoch = [], OmCreatedAt = None, OmUpdatedAt = None, OmDeadline = None,
        OmFailureCode = [], OmActiveDeadline = None, OmProgress = None, OmClarification = None\<rparr>),
      get_preview = (\<lambda>t op. Inr (Some demo_preview)),
      get_source = (\<lambda>t op. Inr \<lparr>SoArtifact = demo_ref, SoLineage = ''l'', SoRevision = ''r''\<rparr>),
      get_release = (\<lambda>t op. Inr ()),
      read_artifact = (\<lambda>h op t. Inr \<lparr>DlUrl = ''u'', DlHeaders = []\<rparr>),
      usable = (\<lambda>u. True),
      fetch = (\<lambda>u hs. Some (200, Inr ''ab''))\<rparr>"

lemma demo_readVerified: "fst (readVerified id demo_owners t h op ''sha256:ab'' 2) = Inr ''ab''"
  by (simp add: readVerified_def demo_owners_def andThen_def rpc_def refuse_def)

lemma demo_size: "ParseInt (ArSizeBytes demo_ref) = Some 2"
  by code_simp

theorem preview_bytes_verified_witness:
  "fst (ReadPreviewArtifact id demo_owners no_principal ''o'' ''sha256:ab'') = Inr (''text/css'', ''ab'')
   \<and> ''sha256:'' @ id ''ab'' = ''sha256:ab''"
proof
  have p: "fst (read_preview demo_owners no_principal ''o'') = Inr (Some demo_preview)"
    by (simp add: read_preview_def authorize_def demo_owners_def andThen_def rpc_def)
  have f: "find_artifact (Some demo_preview) ''sha256:ab'' = Some demo_ref" "mediaTypeOf (ArClass demo_ref) = ''text/css''"
    by (simp_all add: find_artifact_def demo_ref_def demo_preview_def mediaTypeOf_def)
  show r: "fst (ReadPreviewArtifact id demo_owners no_principal ''o'' ''sha256:ab'') = Inr (''text/css'', ''ab'')"
    unfolding ReadPreviewArtifact_def by (simp add: logged_ok p f demo_size maxPreviewArtifact_def demo_readVerified)
  show "''sha256:'' @ id ''ab'' = ''sha256:ab''" using preview_bytes_verified [OF r] by blast
qed

theorem source_bytes_verified_witness:
  "fst (ReadSource id demo_owners no_principal ''o'') = Inr \<lparr>SbLineage = ''l'', SbRevision = ''r'', SbDigest = ''sha256:ab'', SbBody = ''ab''\<rparr>
   \<and> ''sha256:'' @ id ''ab'' = ''sha256:ab''"
proof
  have s: "get_source demo_owners t op = Inr \<lparr>SoArtifact = demo_ref, SoLineage = ''l'', SoRevision = ''r''\<rparr>" for t op
    by (simp add: demo_owners_def)
  have a: "fst (authorize demo_owners no_principal op) = Inr ()" for op
    by (simp add: authorize_ok demo_owners_def)
  have d: "ArDigest demo_ref = ''sha256:ab''" by (simp add: demo_ref_def)
  show r: "fst (ReadSource id demo_owners no_principal ''o'') = Inr \<lparr>SbLineage = ''l'', SbRevision = ''r'', SbDigest = ''sha256:ab'', SbBody = ''ab''\<rparr>"
    unfolding ReadSource_def
    by (simp add: logged_ok s a d demo_size maxSourceArchive_def demo_readVerified)
  show "''sha256:'' @ id ''ab'' = ''sha256:ab''" using source_bytes_verified [OF r] by auto
qed

end
