(* ===== verification/Streams.thy ===== *)
theory Streams
  imports Stream_Liveness Http Reads
begin

text \<open>
  The event streams of the whole server: the route of NewServer (authenticate, then streamEvents)
  for any number of requests, whose handlers and producers run concurrently on one limiter.
  A stream is an entry with its own state \<open>sse\<close>; a step of the server is the arrival of a
  request, one step of one stream, or the close of the channel \<open>draining\<close> that every handler
  selects on (Stop). The step that ends a stream's handler returns its slot (the deferred release).

  What Control answers is the environment's and may differ from request to request: \<open>answers\<close> and
  \<open>control_script\<close> are indexed by the number of the request.
\<close>

section \<open>One request\<close>

record 'r stream_deps =
  verify_token :: "string \<Rightarrow> go_error + principal"
  answers :: "nat \<Rightarrow> 'r owners"
  control_script :: "nat \<Rightarrow> principal \<Rightarrow> string \<Rightarrow> string \<Rightarrow> owner_script"
  frame_buffer :: nat
  sse_encoder :: "sse_event \<Rightarrow> string option"
  random_below :: "int \<Rightarrow> int"
  base_interval :: int

text \<open>The existence and authorization check of streamEvents: Control's GetOperation under the caller's scope.\<close>

definition operation_error :: "'r owners \<Rightarrow> principal \<Rightarrow> string \<Rightarrow> go_error option" where
  "operation_error ow p op =
     (case get_operation ow (scope p) op of Inl e \<Rightarrow> Some (mapErr ''control'' e) | Inr _ \<Rightarrow> None)"

definition stream_env :: "'r stream_deps \<Rightarrow> nat \<Rightarrow> principal \<Rightarrow> string \<Rightarrow> string \<Rightarrow> sse_env" where
  "stream_env d n p op cursor =
     \<lparr>cap = frame_buffer d, operation = op, encoder = sse_encoder d, retry_ms = retryMillis (random_below d) (base_interval d),
      script = control_script d n p op cursor\<rparr>"

definition stream_route ::
  "'r stream_deps \<Rightarrow> nat \<Rightarrow> string \<Rightarrow> string \<Rightarrow> string \<Rightarrow> gin \<Rightarrow> stream_limiter
   \<Rightarrow> (api_error + principal \<times> string) \<times> stream_limiter" where
  "stream_route d n op after_q last_event_id c l =
     (case authenticate (verify_token d) Returned_ctx c of
        Panic ty c1 \<Rightarrow> (Inl internal_failure, l)
      | Returned_ctx c1 \<Rightarrow>
          (case Errors c1 of
             e # es \<Rightarrow> (Inl (fromControl e), l)
           | [] \<Rightarrow>
               (let p = principal_of c1 in
                case open_stream_request after_q last_event_id (operation_error (answers d n) p op) p l of
                  (Inl e, l') \<Rightarrow> (Inl e, l')
                | (Inr cursor, l') \<Rightarrow> (Inr (p, cursor), l'))))"

section \<open>All requests\<close>

record stream_entry =
  en_number :: nat
  en_caller :: principal
  en_operation :: string
  en_cursor :: string
  en_state :: sse

record stream_server =
  limiter :: stream_limiter
  streams :: "stream_entry list"
  arrived :: nat
  turned_away :: "api_error list"
  shutdown :: bool

definition entry_env :: "'r stream_deps \<Rightarrow> stream_entry \<Rightarrow> sse_env" where
  "entry_env d e = stream_env d (en_number e) (en_caller e) (en_operation e) (en_cursor e)"

text \<open>A stream that arrives after the shutdown began finds its drain channel closed.\<close>

definition opened_entry :: "'r stream_deps \<Rightarrow> nat \<Rightarrow> principal \<Rightarrow> string \<Rightarrow> string \<Rightarrow> bool \<Rightarrow> stream_entry" where
  "opened_entry d n p op cursor late =
     \<lparr>en_number = n, en_caller = p, en_operation = op, en_cursor = cursor,
      en_state = (sse_init (stream_env d n p op cursor))\<lparr>draining := late\<rparr>\<rparr>"

definition drained_entry :: "stream_entry \<Rightarrow> stream_entry" where
  "drained_entry e = e\<lparr>en_state := (en_state e)\<lparr>draining := True\<rparr>\<rparr>"

definition returned :: "stream_entry \<Rightarrow> sse \<Rightarrow> stream_limiter \<Rightarrow> stream_limiter" where
  "returned e t l = (if slot (en_state e) \<and> \<not> slot t then release l (stream_subject (en_caller e)) else l)"

inductive server_step :: "'r stream_deps \<Rightarrow> stream_server \<Rightarrow> stream_server \<Rightarrow> bool" for d where
  turned: "stream_route d (arrived s) op after_q last_event_id (new_request m path auth body len) (limiter s) = (Inl e, l') \<Longrightarrow>
    server_step d s (s\<lparr>limiter := l', arrived := Suc (arrived s), turned_away := e # turned_away s\<rparr>)"
| opens: "stream_route d (arrived s) op after_q last_event_id (new_request m path auth body len) (limiter s) = (Inr (p, cursor), l') \<Longrightarrow>
    server_step d s (s\<lparr>limiter := l', arrived := Suc (arrived s),
                        streams := streams s @ [opened_entry d (arrived s) p op cursor (shutdown s)]\<rparr>)"
| moves: "i < length (streams s) \<Longrightarrow> step (entry_env d (streams s ! i)) (en_state (streams s ! i)) t \<Longrightarrow>
    draining t = draining (en_state (streams s ! i)) \<Longrightarrow>
    server_step d s (s\<lparr>streams := (streams s)[i := (streams s ! i)\<lparr>en_state := t\<rparr>], limiter := returned (streams s ! i) t (limiter s)\<rparr>)"
| drains: "\<not> shutdown s \<Longrightarrow> server_step d s (s\<lparr>shutdown := True, streams := map drained_entry (streams s)\<rparr>)"

definition new_server :: "int \<Rightarrow> int \<Rightarrow> stream_server" where
  "new_server mx per = \<lparr>limiter = newStreamLimiter mx per, streams = [], arrived = 0, turned_away = [], shutdown = False\<rparr>"

inductive server_reach :: "'r stream_deps \<Rightarrow> int \<Rightarrow> int \<Rightarrow> stream_server \<Rightarrow> bool" for d mx per where
  server_new: "server_reach d mx per (new_server mx per)"
| server_next: "server_reach d mx per s \<Longrightarrow> server_step d s t \<Longrightarrow> server_reach d mx per t"

section \<open>What an opened stream has passed\<close>

text \<open>The caller's token was accepted, Control showed the operation to that caller, the cursor is canonical.\<close>

definition entitled :: "'r stream_deps \<Rightarrow> stream_entry \<Rightarrow> bool" where
  "entitled d e \<longleftrightarrow>
     (\<exists>t. verify_token d t = Inr (en_caller e)) \<and>
     (\<exists>v. get_operation (answers d (en_number e)) (scope (en_caller e)) (en_operation e) = Inr v) \<and>
     (en_cursor e = [] \<or> matches sequencePattern (en_cursor e))"

lemma bindCursor_ok: "bindCursor a b = Inr cursor \<Longrightarrow> cursor = [] \<or> matches sequencePattern cursor"
  by (auto simp: bindCursor_def split: if_splits)

lemma authenticated_request:
  assumes "authenticate verify Returned_ctx (new_request m path auth body len) = Returned_ctx c1" "Errors c1 = []"
  shows "\<exists>t. auth = ''Bearer '' @ t \<and> verify t = Inr (principal_of c1)"
  using authenticate_cases [of verify "new_request m path auth body len"]
proof
  assume "stops (authenticate verify) (new_request m path auth body len) {401}"
  with assms show ?thesis by (auto simp: stops_def fail_def)
next
  assume "\<exists>p t. Authorization (new_request m path auth body len) = ''Bearer '' @ t \<and> t \<noteq> [] \<and> verify t = Inr p
    \<and> goes_on (authenticate verify) (new_request m path auth body len) ((new_request m path auth body len)\<lparr>k_principal := Some p\<rparr>)"
  then obtain p t where "auth = ''Bearer '' @ t" "verify t = Inr p"
    and g: "goes_on (authenticate verify) (new_request m path auth body len) ((new_request m path auth body len)\<lparr>k_principal := Some p\<rparr>)"
    unfolding new_request_def gin.select_convs by blast
  moreover have "\<not> aborted (new_request m path auth body len)" by (simp add: new_request_def)
  with g assms(1) have "c1 = (new_request m path auth body len)\<lparr>k_principal := Some p\<rparr>" by (simp add: goes_on_def Next_def)
  then have "principal_of c1 = p" by (simp add: principal_of_def)
  ultimately show ?thesis by blast
qed

lemma stream_route_opens:
  assumes "stream_route d n op after_q last_event_id (new_request m path auth body len) l = (Inr (p, cursor), l')"
  shows "entitled d (opened_entry d n p op cursor late)" "acquire l (stream_subject p) = Some l'"
proof -
  from assms obtain c1 where c1: "authenticate (verify_token d) Returned_ctx (new_request m path auth body len) = Returned_ctx c1"
      "Errors c1 = []" "p = principal_of c1"
    and o: "open_stream_request after_q last_event_id (operation_error (answers d n) p op) p l = (Inr cursor, l')"
    by (auto simp: stream_route_def Let_def split: outcome.splits list.splits prod.splits sum.splits)
  from o have "bindCursor after_q last_event_id = Inr cursor" "operation_error (answers d n) p op = None"
    and a: "acquire l (stream_subject p) = Some l'"
    by (auto simp: open_stream_request_def split: sum.splits option.splits)
  with authenticated_request [OF c1(1,2)] c1(3) bindCursor_ok show "entitled d (opened_entry d n p op cursor late)"
    by (auto simp: entitled_def opened_entry_def operation_error_def split: sum.splits)
  show "acquire l (stream_subject p) = Some l'" by (rule a)
qed

lemma stream_route_turned:
  assumes "stream_route d n op after_q last_event_id c l = (Inl e, l')"
  shows "l' = l"
  using assms
  by (auto simp: stream_route_def open_stream_request_def Let_def split: outcome.splits list.splits prod.splits sum.splits option.splits)

section \<open>The server's invariant\<close>

text \<open>The subjects that hold a slot: one for every stream whose handler has not returned.\<close>

definition open_entries :: "stream_server \<Rightarrow> stream_entry list" where
  "open_entries s = filter (\<lambda>e. slot (en_state e)) (streams s)"

definition subjects_open :: "stream_server \<Rightarrow> string multiset" where
  "subjects_open s = mset (map (\<lambda>e. stream_subject (en_caller e)) (open_entries s))"

definition entry_inv :: "'r stream_deps \<Rightarrow> bool \<Rightarrow> stream_entry \<Rightarrow> bool" where
  "entry_inv d late e \<longleftrightarrow> entitled d e \<and> reach (entry_env d e) (en_state e) \<and> draining (en_state e) = late"

definition server_inv :: "'r stream_deps \<Rightarrow> int \<Rightarrow> int \<Rightarrow> stream_server \<Rightarrow> bool" where
  "server_inv d mx per s \<longleftrightarrow>
     limiter_rep mx per (limiter s) (subjects_open s) \<and> (\<forall>e\<in>set (streams s). entry_inv d (shutdown s) e)"

lemma slot_stays_lost: "step env s t \<Longrightarrow> slot t \<Longrightarrow> slot s"
  by (erule stepE) auto

lemma entry_env_state [simp]: "entry_env d (e\<lparr>en_state := t\<rparr>) = entry_env d e"
  by (simp add: entry_env_def)

lemma entitled_state [simp]: "entitled d (e\<lparr>en_state := t\<rparr>) = entitled d e"
  by (simp add: entitled_def)

lemma drained_entry_simps [simp]:
  "entry_env d (drained_entry e) = entry_env d e" "entitled d (drained_entry e) = entitled d e"
  "en_caller (drained_entry e) = en_caller e" "en_state (drained_entry e) = (en_state e)\<lparr>draining := True\<rparr>"
  by (simp_all add: drained_entry_def)

lemma reach_drained: "reach env s \<Longrightarrow> reach env (s\<lparr>draining := True\<rparr>)"
proof (cases "draining s")
  case True
  moreover assume "reach env s"
  moreover from True have "s\<lparr>draining := True\<rparr> = s" by (cases s) simp
  ultimately show ?thesis by (simp only:)
qed (blast intro: e_drain reach_step)

lemma opened_entry_inv:
  assumes "entitled d (opened_entry d n p op cursor late)"
  shows "entry_inv d late (opened_entry d n p op cursor late)"
proof -
  let ?env = "stream_env d n p op cursor"
  have "reach ?env ((sse_init ?env)\<lparr>draining := late\<rparr>)"
  proof (cases late)
    case True
    then show ?thesis using reach_drained [OF reach_init] by simp
  next
    case False
    then have "(sse_init ?env)\<lparr>draining := late\<rparr> = sse_init ?env" by (simp add: sse_init_def)
    then show ?thesis using reach_init [of ?env] by (simp only:)
  qed
  with assms show ?thesis by (simp add: entry_inv_def opened_entry_def entry_env_def)
qed

lemma drained_entry_inv: "entry_inv d late e \<Longrightarrow> entry_inv d True (drained_entry e)"
  by (auto simp: entry_inv_def intro: reach_drained)

text \<open>One entry's step in the multiset of the open subjects.\<close>

lemma open_update:
  assumes "i < length xs"
  shows "mset (map f (filter P (xs[i := y]))) =
    (if P y then {#f y#} else {#}) + (mset (map f (filter P xs)) - (if P (xs ! i) then {#f (xs ! i)#} else {#}))"
  using assms
proof (induction xs arbitrary: i)
  case (Cons x xs)
  show ?case
  proof (cases i)
    case (Suc j)
    with Cons.prems have j: "j < length xs" by simp
    then have "P (xs ! j) \<Longrightarrow> f (xs ! j) \<in># mset (map f (filter P xs))" by simp
    with Suc Cons.IH [OF j] show ?thesis by (auto simp del: mset_map)
  qed simp
qed simp

lemma subjects_move:
  assumes "i < length (streams s)" "step env (en_state (streams s ! i)) t"
  shows "subjects_open (s\<lparr>streams := (streams s)[i := (streams s ! i)\<lparr>en_state := t\<rparr>], limiter := l\<rparr>) =
    (if slot (en_state (streams s ! i)) \<and> \<not> slot t
     then subjects_open s - {#stream_subject (en_caller (streams s ! i))#} else subjects_open s)"
proof -
  let ?e = "streams s ! i" and ?f = "\<lambda>e. stream_subject (en_caller e)" and ?P = "\<lambda>e. slot (en_state e)"
  have "?P ?e \<Longrightarrow> ?f ?e \<in># subjects_open s"
    using assms(1) by (simp add: subjects_open_def open_entries_def)
  moreover have "subjects_open (s\<lparr>streams := (streams s)[i := ?e\<lparr>en_state := t\<rparr>], limiter := l\<rparr>) =
      (if slot t then {#?f ?e#} else {#}) + (subjects_open s - (if ?P ?e then {#?f ?e#} else {#}))"
    using open_update [OF assms(1), of ?f ?P "?e\<lparr>en_state := t\<rparr>"] by (simp add: subjects_open_def open_entries_def del: mset_map)
  ultimately show ?thesis using slot_stays_lost [OF assms(2)] by auto
qed

lemma server_inv_step:
  assumes "server_step d s t" "server_inv d mx per s"
  shows "server_inv d mx per t"
  using assms(1)
proof cases
  case (turned op after_q last_event_id m path auth body len e l')
  then have "l' = limiter s" using stream_route_turned by blast
  with turned assms(2) show ?thesis by (simp add: server_inv_def subjects_open_def open_entries_def)
next
  case (opens op after_q last_event_id m path auth body len p cursor l')
  note o = stream_route_opens [OF opens(2)]
  let ?e = "opened_entry d (arrived s) p op cursor (shutdown s)"
  have "limiter_rep mx per l' (add_mset (stream_subject p) (subjects_open s))"
    using assms(2) o(2) limiter.granted by (auto simp: server_inv_def)
  moreover have "subjects_open t = add_mset (stream_subject p) (subjects_open s)"
    by (simp add: opens(1) subjects_open_def open_entries_def opened_entry_def sse_init_def)
  moreover have "entry_inv d (shutdown s) ?e" by (rule opened_entry_inv [OF o(1)])
  ultimately show ?thesis
    using assms(2) by (simp add: server_inv_def opens(1))
next
  case (moves i u)
  let ?e = "streams s ! i"
  have sub: "subjects_open t = (if slot (en_state ?e) \<and> \<not> slot u
      then subjects_open s - {#stream_subject (en_caller ?e)#} else subjects_open s)"
    unfolding moves(1) by (rule subjects_move [OF moves(2,3)])
  have "slot (en_state ?e) \<Longrightarrow> stream_subject (en_caller ?e) \<in># subjects_open s"
    using moves(2) by (simp add: subjects_open_def open_entries_def)
  then have "limiter_rep mx per (limiter t) (subjects_open t)"
    using assms(2) limiter.released sub by (auto simp: moves(1) server_inv_def returned_def)
  moreover have "entry_inv d (shutdown s) ?e" using assms(2) moves(2) by (simp add: server_inv_def)
  then have "entry_inv d (shutdown s) (?e\<lparr>en_state := u\<rparr>)"
    using moves(3,4) by (auto simp: entry_inv_def intro: reach_step)
  then have "\<forall>e\<in>set (streams t). entry_inv d (shutdown s) e"
    using assms(2) set_update_subset_insert [of "streams s" i "?e\<lparr>en_state := u\<rparr>"] by (auto simp: moves(1) server_inv_def)
  ultimately show ?thesis by (simp add: server_inv_def moves(1))
next
  case drains
  then have "subjects_open t = subjects_open s"
    by (simp add: subjects_open_def open_entries_def filter_map comp_def)
  then show ?thesis
    using assms(2) drained_entry_inv by (auto simp: server_inv_def drains(1))
qed

lemma server_reach_inv: "server_reach d mx per s \<Longrightarrow> server_inv d mx per s"
proof (induction rule: server_reach.induct)
  case server_new
  then show ?case
    by (simp add: server_inv_def new_server_def subjects_open_def open_entries_def newStreamLimiter_rep)
qed (rule server_inv_step)

interpretation server_runs: machine "server_step d" "server_reach d mx per" for d mx per
  by unfold_locales (rule server_next)

text \<open>What the invariant says of an entry and of the limiter.\<close>

lemma entry_facts:
  assumes "server_reach d mx per s" "e \<in> set (streams s)"
  shows "entitled d e" "reach (entry_env d e) (en_state e)" "draining (en_state e) = shutdown s"
    "slot (en_state e) \<longleftrightarrow> handler (en_state e) \<noteq> Finished"
proof -
  have "entry_inv d (shutdown s) e" using server_reach_inv [OF assms(1)] assms(2) by (simp add: server_inv_def)
  then show "entitled d e" "draining (en_state e) = shutdown s" and r: "reach (entry_env d e) (en_state e)"
    by (auto simp: entry_inv_def)
  show "slot (en_state e) \<longleftrightarrow> handler (en_state e) \<noteq> Finished" using bound_reach [OF r] by (simp add: bound_inv_def)
qed

lemma limiter_facts:
  assumes "server_reach d mx per s"
  shows "total (limiter s) = int (length (open_entries s))" "Limiter.within mx per (subjects_open s)"
  using server_reach_inv [OF assms] by (auto simp: server_inv_def limiter_rep_def subjects_open_def)

lemma count_at_least: "length (filter (\<lambda>x. f x = y) xs) \<le> count (mset (map (g \<circ> f) xs)) (g y)"
  by (induction xs) auto

lemma caller_count:
  "length (filter (\<lambda>e. en_caller e = p) (open_entries s)) \<le> count (subjects_open s) (stream_subject p)"
  using count_at_least [of en_caller p "open_entries s" stream_subject] by (simp add: subjects_open_def comp_def)

section \<open>The drain\<close>

text \<open>A step that neither the client nor the server's shutdown makes.\<close>

definition unaided :: "sse_env \<Rightarrow> sse \<Rightarrow> sse \<Rightarrow> bool" where
  "unaided env s t \<longleftrightarrow> step env s t \<and> gone t = gone s \<and> draining t = draining s"

fun handler_work :: "handler \<Rightarrow> nat" where
  "handler_work Waiting = 3" | "handler_work Loop = 3" | "handler_work (Flushing v) = 3"
| "handler_work Closing = 2" | "handler_work Joining = 1" | "handler_work Finished = 0"

definition drain_work :: "sse \<Rightarrow> nat" where
  "drain_work s = length (frames s) + producer_work (prod s) + handler_work (handler s)"

lemma joining_progress:
  assumes "reach env s" "handler s = Joining"
  shows "\<exists>t. unaided env s t \<and> drain_work t < drain_work s"
proof -
  have inv: "cancelled s" "prod s = Returned \<Longrightarrow> done_ch s \<noteq> None \<or> ended s"
    using bound_reach [OF assms(1)] assms(2) by (auto simp: bound_inv_def)
  show ?thesis
  proof (cases "prod s")
    case (Running as)
    then show ?thesis using p_call_cancelled [of s as env "[]"] inv(1) assms(2)
      by (intro exI [of _ "s\<lparr>prod := Returned, done_ch := Some (Some (mapErr ''control'' (StatusErr Canceled [])))\<rparr>"])
         (simp add: unaided_def drain_work_def)
  next
    case (Sending b as)
    then show ?thesis using p_send_cancelled [of s b as env] inv(1) assms(2)
      by (intro exI [of _ "s\<lparr>prod := Returned, done_ch := Some (Some CtxErr)\<rparr>"]) (simp add: unaided_def drain_work_def)
  next
    case Returned
    then have "step env s (s\<lparr>handler := Finished, slot := False\<rparr>)"
      using assms(2) inv(2) h_join [of s _ env] by blast
    with assms(2) show ?thesis
      by (intro exI [of _ "s\<lparr>handler := Finished, slot := False\<rparr>"]) (simp add: unaided_def drain_work_def)
  qed
qed

lemma unaided_progress:
  assumes "reach env s" "draining s" "handler s \<noteq> Finished"
  shows "\<exists>t. unaided env s t \<and> drain_work t < drain_work s"
proof (cases "handler s")
  case Waiting
  then show ?thesis using h_wait_drain [of s env] assms(2)
    by (intro exI [of _ "s\<lparr>handler := Closing, refusal := Some shutting_down\<rparr>"]) (simp add: unaided_def drain_work_def)
next
  case Loop
  then show ?thesis using h_drain [of s env] assms(2)
    by (intro exI [of _ "s\<lparr>handler := Closing, out := out s @ end_frame env\<rparr>"]) (simp add: unaided_def drain_work_def)
next
  case (Flushing v)
  show ?thesis
  proof (cases "frames s")
    case Nil
    with Flushing show ?thesis using h_final [of s v env]
      by (intro exI [of _ "s\<lparr>handler := Closing, out := out s @ final_frame env (gone s) v\<rparr>"]) (simp add: unaided_def drain_work_def)
  next
    case (Cons b bs)
    with Flushing show ?thesis using h_flush [of s v b bs env]
      by (intro exI [of _ "s\<lparr>frames := bs, out := out s @ [WEvent b]\<rparr>"]) (simp add: unaided_def drain_work_def)
  qed
next
  case Closing
  then show ?thesis using h_cancel [of s env]
    by (intro exI [of _ "s\<lparr>handler := Joining, cancelled := True\<rparr>"]) (simp add: unaided_def drain_work_def)
next
  case Joining
  from joining_progress [OF assms(1) this] show ?thesis .
qed (use assms(3) in simp)

interpretation unaided_runs: machine "unaided env" "reach env" for env
  by unfold_locales (auto simp: unaided_def intro: reach_step)

lemma unaided_finishes:
  assumes "reach env s" "draining s"
  shows "\<exists>t. (unaided env)\<^sup>*\<^sup>* s t \<and> handler t = Finished"
proof (rule unaided_runs.descends [where P = draining and work = drain_work, OF assms])
  fix s assume "reach env s" "draining s" "handler s \<noteq> Finished"
  then show "\<exists>t. unaided env s t \<and> draining t \<and> drain_work t < drain_work s"
    using unaided_progress [of env s] by (auto simp: unaided_def)
qed

lemma unaided_gone: "(unaided env)\<^sup>*\<^sup>* s t \<Longrightarrow> gone t = gone s"
  by (induction rule: rtranclp_induct) (auto simp: unaided_def)

text \<open>One stream's run is a run of the server.\<close>

definition only_moved :: "nat \<Rightarrow> sse \<Rightarrow> stream_server \<Rightarrow> stream_server \<Rightarrow> bool" where
  "only_moved i t s u \<longleftrightarrow> streams u = (streams s)[i := (streams s ! i)\<lparr>en_state := t\<rparr>] \<and> shutdown u = shutdown s \<and> arrived u = arrived s"

lemma stream_run_lifts:
  assumes "(unaided (entry_env d (streams s ! i)))\<^sup>*\<^sup>* (en_state (streams s ! i)) t" "i < length (streams s)"
  shows "\<exists>u. (server_step d)\<^sup>*\<^sup>* s u \<and> only_moved i t s u"
  using assms(1)
proof (induction rule: rtranclp_induct)
  case base
  then show ?case using assms(2) by (intro exI [of _ s]) (simp add: only_moved_def)
next
  case (step t t')
  then obtain u where u: "(server_step d)\<^sup>*\<^sup>* s u" "only_moved i t s u" by blast
  then have e: "streams u ! i = (streams s ! i)\<lparr>en_state := t\<rparr>" "i < length (streams u)"
    using assms(2) by (simp_all add: only_moved_def)
  let ?u' = "u\<lparr>streams := (streams u)[i := (streams u ! i)\<lparr>en_state := t'\<rparr>], limiter := returned (streams u ! i) t' (limiter u)\<rparr>"
  have "server_step d u ?u'"
    by (rule moves) (use step(2) e in \<open>simp_all add: unaided_def\<close>)
  with u(1) have "(server_step d)\<^sup>*\<^sup>* s ?u'" by simp
  moreover have "only_moved i t' s ?u'" using u(2) e(1) by (simp add: only_moved_def)
  ultimately show ?case by blast
qed

definition request_of :: "stream_entry \<Rightarrow> nat \<times> principal \<times> string \<times> string \<times> bool" where
  "request_of e = (en_number e, en_caller e, en_operation e, en_cursor e, gone (en_state e))"

lemma one_more_finishes:
  assumes "server_reach d mx per s" "shutdown s" "i < length (streams s)"
  shows "\<exists>u t. (server_step d)\<^sup>*\<^sup>* s u \<and> only_moved i t s u \<and> handler t = Finished \<and> map request_of (streams u) = map request_of (streams s)"
proof -
  let ?e = "streams s ! i"
  have e: "reach (entry_env d ?e) (en_state ?e)" "draining (en_state ?e)"
    using entry_facts [OF assms(1) nth_mem [OF assms(3)]] assms(2) by simp_all
  obtain t where t: "(unaided (entry_env d ?e))\<^sup>*\<^sup>* (en_state ?e) t" "handler t = Finished" using unaided_finishes [OF e] by blast
  obtain u where u: "(server_step d)\<^sup>*\<^sup>* s u" "only_moved i t s u" using stream_run_lifts [OF t(1) assms(3)] by blast
  have "request_of (?e\<lparr>en_state := t\<rparr>) = request_of ?e" using unaided_gone [OF t(1)] by (simp add: request_of_def)
  then have "map request_of (streams u) = map request_of (streams s)"
    using u(2) assms(3) by (simp add: only_moved_def map_update) (metis list_update_id map_update nth_map)
  with t(2) u show ?thesis by blast
qed

lemma all_finish:
  assumes "server_reach d mx per s" "shutdown s" "k \<le> length (streams s)"
  shows "\<exists>u. (server_step d)\<^sup>*\<^sup>* s u \<and> shutdown u \<and> arrived u = arrived s \<and> map request_of (streams u) = map request_of (streams s)
    \<and> (\<forall>i<k. handler (en_state (streams u ! i)) = Finished)"
  using assms(3)
proof (induction k)
  case 0
  then show ?case using assms(2) by blast
next
  case (Suc k)
  then obtain u where u: "(server_step d)\<^sup>*\<^sup>* s u" "shutdown u" "arrived u = arrived s"
    "map request_of (streams u) = map request_of (streams s)" "\<forall>i<k. handler (en_state (streams u ! i)) = Finished"
    by auto
  have k: "k < length (streams u)" using Suc.prems arg_cong [OF u(4), of length] by simp
  from one_more_finishes [OF server_runs.run_possible [OF assms(1) u(1)] u(2) k] obtain v t where v: "(server_step d)\<^sup>*\<^sup>* u v"
    "only_moved k t u v" "handler t = Finished" "map request_of (streams v) = map request_of (streams u)" by blast
  have "handler (en_state (streams v ! i)) = Finished" if "i < Suc k" for i
    using v(2,3) u(5) k that by (cases "i = k") (simp_all add: only_moved_def)
  moreover have "(server_step d)\<^sup>*\<^sup>* s v" using u(1) v(1) by simp
  moreover have "shutdown v" "arrived v = arrived s" using v(2) u(2,3) by (simp_all add: only_moved_def)
  ultimately show ?case using v(4) u(4) by auto
qed

lemma streams_drained:
  assumes "server_reach d mx per s" "shutdown s"
  shows "\<exists>t. (server_step d)\<^sup>*\<^sup>* s t \<and> arrived t = arrived s \<and> map request_of (streams t) = map request_of (streams s)
    \<and> (\<forall>e\<in>set (streams t). handler (en_state e) = Finished) \<and> total (limiter t) = 0"
proof -
  obtain t where t: "(server_step d)\<^sup>*\<^sup>* s t" "arrived t = arrived s" "map request_of (streams t) = map request_of (streams s)"
    "\<forall>i<length (streams s). handler (en_state (streams t ! i)) = Finished"
    using all_finish [OF assms order_refl] by blast
  have fin: "\<forall>e\<in>set (streams t). handler (en_state e) = Finished"
    using t(4) arg_cong [OF t(3), of length] by (auto simp: in_set_conv_nth)
  have r: "server_reach d mx per t" by (rule server_runs.run_possible [OF assms(1) t(1)])
  have "open_entries t = []" using fin entry_facts(4) [OF r] by (auto simp: open_entries_def filter_empty_conv)
  then have "total (limiter t) = 0" using limiter_facts(1) [OF r] by simp
  with t fin show ?thesis by blast
qed

section \<open>A server with one stream\<close>

definition demo_streams :: "unit stream_deps" where
  "demo_streams = \<lparr>verify_token = (\<lambda>t. if t = ''k'' then Inr no_principal else Inl CtxErr), answers = (\<lambda>n. demo_owners),
     control_script = (\<lambda>n p op cursor. script demo_env), frame_buffer = 1, sse_encoder = encoder demo_env,
     random_below = (\<lambda>n. 0), base_interval = 0\<rparr>"

definition demo_server :: stream_server where
  "demo_server = (new_server 1 1)\<lparr>limiter := \<lparr>max_streams = 1, perSubject = 1, total = 1, bySubject = Map.empty(''/'' \<mapsto> 1)\<rparr>,
     arrived := 1, streams := [opened_entry demo_streams 0 no_principal ''o'' [] False]\<rparr>"

lemma demo_route:
  "stream_route demo_streams 0 ''o'' [] [] (new_request ''GET'' ''/x'' ''Bearer k'' None 0) (newStreamLimiter 1 1) =
   (Inr (no_principal, []), limiter demo_server)"
  by (simp add: stream_route_def demo_streams_def authenticate_def new_request_def Next_def HasPrefix_def TrimPrefix_def principal_of_def
      operation_error_def demo_owners_def open_stream_request_def bindCursor_def acquire_def newStreamLimiter_def count_of_def
      stream_subject_def no_principal_def demo_server_def new_server_def)

lemma demo_server_step: "server_step demo_streams (new_server 1 1) demo_server"
  using opens [of demo_streams "new_server 1 1" "''o''" "[]" "[]" "''GET''" "''/x''" "''Bearer k''" None 0 no_principal "[]" "limiter demo_server"]
    demo_route by (simp add: new_server_def demo_server_def)

lemma demo_server_reach: "server_reach demo_streams 1 1 demo_server"
  using server_next [OF server_new demo_server_step] .

section \<open>Properties\<close>

text \<open>
  C5. However requests arrive and the streams interleave, every open stream holds exactly one slot, so
  neither the process nor a caller has more open streams than its bound; every stream belongs to a caller
  whose token was accepted and to whom Control showed the operation, and it starts from a canonical
  cursor; what it wrote is a prefix of the events of its own operation, in order; and its slot is
  returned when its handler finishes, not before.
\<close>

theorem streams_bounded_and_entitled:
  assumes "server_reach d mx per s"
  shows "total (limiter s) = int (length (open_entries s))
    \<and> (mx > 0 \<longrightarrow> int (length (open_entries s)) \<le> mx)
    \<and> (per > 0 \<longrightarrow> int (length (filter (\<lambda>e. en_caller e = p) (open_entries s))) \<le> per)
    \<and> (\<forall>e\<in>set (streams s). entitled d e
         \<and> prefix (events (out (en_state e))) (encoded (entry_env d e) (plan (entry_env d e)))
         \<and> (e \<in> set (open_entries s) \<longleftrightarrow> handler (en_state e) \<noteq> Finished))"
proof (intro conjI impI ballI)
  note l = limiter_facts [OF assms]
  show "total (limiter s) = int (length (open_entries s))" by (rule l(1))
  show "int (length (open_entries s)) \<le> mx" if "mx > 0"
    using l(2) that by (simp add: Limiter.within_def subjects_open_def)
  show "int (length (filter (\<lambda>e. en_caller e = p) (open_entries s))) \<le> per" if "per > 0"
  proof -
    have "int (count (subjects_open s) (stream_subject p)) \<le> per" using l(2) that by (simp add: Limiter.within_def)
    then show ?thesis using caller_count [of p s] by linarith
  qed
next
  fix e assume "e \<in> set (streams s)"
  note f = entry_facts [OF assms this]
  show "entitled d e" by (rule f(1))
  show "prefix (events (out (en_state e))) (encoded (entry_env d e) (plan (entry_env d e)))" by (rule wire_prefix [OF f(2)])
  show "e \<in> set (open_entries s) \<longleftrightarrow> handler (en_state e) \<noteq> Finished"
    using f(4) \<open>e \<in> set (streams s)\<close> by (simp add: open_entries_def)
qed

theorem streams_bounded_and_entitled_witness:
  "length (open_entries demo_server) = 1 \<and> total (limiter demo_server) = 1
    \<and> list_all (entitled demo_streams) (streams demo_server)"
  using streams_bounded_and_entitled [OF demo_server_reach, of no_principal] by (simp add: demo_server_def)

text \<open>
  Once the shutdown began, the drain is not held by a stream: from every state of the server there is a run in
  which every handler finishes and every slot is returned, although no client leaves, no request
  arrives and Control ends no call.
\<close>

theorem drain_ends_every_stream:
  assumes "server_reach d mx per s" "shutdown s"
  shows "\<exists>t. (server_step d)\<^sup>*\<^sup>* s t \<and> arrived t = arrived s \<and> map request_of (streams t) = map request_of (streams s)
    \<and> (\<forall>e\<in>set (streams t). handler (en_state e) = Finished) \<and> total (limiter t) = 0"
  by (rule streams_drained [OF assms])

theorem drain_ends_every_stream_witness:
  "\<exists>s t. server_reach demo_streams 1 1 s \<and> total (limiter s) = 1 \<and> (server_step demo_streams)\<^sup>*\<^sup>* s t \<and> total (limiter t) = 0"
proof -
  let ?s = "demo_server\<lparr>shutdown := True, streams := map drained_entry (streams demo_server)\<rparr>"
  have "\<not> shutdown demo_server" by (simp add: demo_server_def new_server_def)
  then have "server_reach demo_streams 1 1 ?s" using demo_server_reach drains server_next by blast
  moreover have "total (limiter ?s) = 1" by (simp add: demo_server_def)
  ultimately show ?thesis using drain_ends_every_stream [of demo_streams 1 1 ?s] by auto
qed

end
