(* ===== verification/Readiness.thy ===== *)
theory Readiness
  imports Errors
begin

text \<open>
  The readiness of internal/bootstrap/readiness.go: Control's health cached for a while, withdrawn
  when the shutdown begins. A probe first reads the stopping flag, then takes the mutex, then
  answers from the cache or asks Control; probes interleave, and the mutex orders their second part.
  The step relation has the clock in nanoseconds; Control's answer and its duration are the
  environment's.
\<close>

section \<open>The cache\<close>

record readiness =
  cacheFor :: int
  stopping :: bool
  checked :: int
  last :: "go_error option"

definition errStopping :: go_error where "errStopping = OtherErr ''stopping''"

definition newReadiness :: readiness where
  "newReadiness = \<lparr>cacheFor = 5 * 10 ^ 9, stopping = False, checked = 0, last = None\<rparr>"

definition stop :: "readiness \<Rightarrow> readiness" where
  "stop r = r\<lparr>stopping := True\<rparr>"

text \<open>The part of check under the mutex; \<open>took\<close> and \<open>res\<close> are the duration and the answer of Control's health.\<close>

definition fresh :: "readiness \<Rightarrow> int \<Rightarrow> bool" where
  "fresh r now \<longleftrightarrow> now - checked r < cacheFor r"

definition check_locked :: "int \<Rightarrow> int \<Rightarrow> go_error option \<Rightarrow> readiness \<Rightarrow> go_error option \<times> readiness" where
  "check_locked now took res r =
     (if fresh r now then (last r, r) else (res, r\<lparr>last := res, checked := now + took\<rparr>))"

text \<open>A probe alone.\<close>

definition check :: "int \<Rightarrow> int \<Rightarrow> go_error option \<Rightarrow> readiness \<Rightarrow> go_error option \<times> readiness" where
  "check now took res r = (if stopping r then (Some errStopping, r) else check_locked now took res r)"

section \<open>Probes in any order\<close>

record probe_state =
  cache :: readiness
  clock :: int
  inside :: "nat set"
  asks :: "(int \<times> int \<times> go_error option) list"
  answers :: "(nat \<times> int \<times> go_error option) list"

text \<open>
  \<open>asks\<close>: the questions to Control, newest first, with the times they began and ended;
  \<open>answers\<close>: the probes' answers with their times, newest first.
\<close>

inductive probe :: "probe_state \<Rightarrow> probe_state \<Rightarrow> bool" where
  tick: "0 \<le> d \<Longrightarrow> probe s (s\<lparr>clock := clock s + d\<rparr>)"
| shutdown: "probe s (s\<lparr>cache := stop (cache s)\<rparr>)"
| refused: "stopping (cache s) \<Longrightarrow> probe s (s\<lparr>answers := (i, clock s, Some errStopping) # answers s\<rparr>)"
| begun: "\<not> stopping (cache s) \<Longrightarrow> probe s (s\<lparr>inside := insert i (inside s)\<rparr>)"
| cached: "i \<in> inside s \<Longrightarrow> fresh (cache s) (clock s) \<Longrightarrow>
    probe s (s\<lparr>inside := inside s - {i}, answers := (i, clock s, last (cache s)) # answers s\<rparr>)"
| asked: "i \<in> inside s \<Longrightarrow> \<not> fresh (cache s) (clock s) \<Longrightarrow> 0 \<le> took \<Longrightarrow> check_locked (clock s) took res (cache s) = (a, r) \<Longrightarrow>
    probe s (s\<lparr>cache := r, clock := clock s + took, inside := inside s - {i}, asks := (clock s, clock s + took, res) # asks s,
               answers := (i, clock s + took, a) # answers s\<rparr>)"

inductive_cases probeE: "probe s t"

text \<open>The zero time.Time is long past when the process starts.\<close>

definition started :: "int \<Rightarrow> probe_state" where
  "started now = \<lparr>cache = newReadiness, clock = now, inside = {}, asks = [], answers = []\<rparr>"

inductive reached :: "int \<Rightarrow> probe_state \<Rightarrow> bool" for now where
  start: "reached now (started now)"
| step: "reached now s \<Longrightarrow> probe s t \<Longrightarrow> reached now t"

text \<open>Questions do not overlap and are at least the cache time apart.\<close>

fun spaced :: "int \<Rightarrow> (int \<times> int \<times> go_error option) list \<Rightarrow> bool" where
  "spaced g [] \<longleftrightarrow> True"
| "spaced g [(b, e, r)] \<longleftrightarrow> b \<le> e"
| "spaced g ((b, e, r) # (b', e', r') # rest) \<longleftrightarrow> b \<le> e \<and> e' + g \<le> b \<and> spaced g ((b', e', r') # rest)"

text \<open>An answer repeats what Control said at most the cache time before, or the shutdown has begun.\<close>

definition answered_from :: "int \<Rightarrow> (int \<times> int \<times> go_error option) list \<Rightarrow> int \<Rightarrow> go_error option \<Rightarrow> bool" where
  "answered_from g qs t a \<longleftrightarrow> (\<exists>(b, e, r)\<in>set qs. a = r \<and> e \<le> t \<and> t < e + g)"

definition readiness_inv :: "probe_state \<Rightarrow> bool" where
  "readiness_inv s \<longleftrightarrow>
     cacheFor (cache s) = 5 * 10 ^ 9 \<and> spaced (5 * 10 ^ 9) (asks s) \<and> checked (cache s) \<le> clock s \<and>
     (case asks s of
        [] \<Rightarrow> checked (cache s) = 0 \<and> \<not> fresh (cache s) (clock s)
      | (b, e, r) # rest \<Rightarrow> checked (cache s) = e \<and> last (cache s) = r) \<and>
     (\<forall>(i, t, a)\<in>set (answers s). answered_from (5 * 10 ^ 9) (asks s) t a \<or> a = Some errStopping \<and> stopping (cache s))"

lemma answered_from_Cons: "answered_from g qs t a \<Longrightarrow> answered_from g (q # qs) t a"
  by (auto simp: answered_from_def)

lemma spaced_Cons: "spaced g qs \<Longrightarrow> b \<le> e \<Longrightarrow> (\<And>b' e' r' rest. qs = (b', e', r') # rest \<Longrightarrow> e' + g \<le> b) \<Longrightarrow> spaced g ((b, e, r) # qs)"
  by (cases qs) auto

lemma inv_start: "5 * 10 ^ 9 \<le> now \<Longrightarrow> readiness_inv (started now)"
  by (simp add: readiness_inv_def started_def newReadiness_def fresh_def)

lemma inv_step:
  assumes "probe s t" "readiness_inv s"
  shows "readiness_inv t"
  using assms(1)
proof cases
  case (tick d)
  with assms(2) show ?thesis by (auto simp: readiness_inv_def fresh_def split: list.splits)
next
  case shutdown
  with assms(2) show ?thesis by (auto simp: readiness_inv_def fresh_def stop_def split: list.splits)
next
  case (refused i)
  with assms(2) show ?thesis by (auto simp: readiness_inv_def split: list.splits)
next
  case (begun i)
  with assms(2) show ?thesis by (auto simp: readiness_inv_def split: list.splits)
next
  case (cached i)
  from assms(2) cached(3) obtain b e r rest where q: "asks s = (b, e, r) # rest" "checked (cache s) = e" "last (cache s) = r"
    by (auto simp: readiness_inv_def split: list.splits)
  have "answered_from (5 * 10 ^ 9) (asks s) (clock s) (last (cache s))"
    using assms(2) cached(3) q by (auto simp: answered_from_def readiness_inv_def fresh_def)
  with assms(2) cached q show ?thesis by (auto simp: readiness_inv_def)
next
  case (asked i took res a r)
  then have r: "r = (cache s)\<lparr>last := res, checked := clock s + took\<rparr>" "a = res"
    by (auto simp: check_locked_def)
  have "spaced (5 * 10 ^ 9) ((clock s, clock s + took, res) # asks s)"
    using assms(2) asked(3,4) by (intro spaced_Cons) (auto simp: readiness_inv_def fresh_def)
  moreover have "answered_from (5 * 10 ^ 9) (asks t) (clock s + took) res"
    using asked(1) by (simp add: answered_from_def)
  ultimately show ?thesis
    using assms(2) asked r by (auto simp: readiness_inv_def intro: answered_from_Cons)
qed

lemma reached_inv: "reached now s \<Longrightarrow> 5 * 10 ^ 9 \<le> now \<Longrightarrow> readiness_inv s"
  by (induction rule: reached.induct) (auto intro: inv_start inv_step)

section \<open>Properties\<close>

text \<open>
  C36. However probes interleave, Control is asked at most once per cache time: the questions do not
  overlap and each begins at least five seconds after the one before ended; every answer is one
  Control gave less than five seconds before, or says that the shutdown has begun.
\<close>

theorem probes_never_storm_control:
  assumes "reached now s" "5 * 10 ^ 9 \<le> now"
  shows "spaced (5 * 10 ^ 9) (asks s) \<and>
    (\<forall>(i, t, a)\<in>set (answers s). answered_from (5 * 10 ^ 9) (asks s) t a \<or> a = Some errStopping \<and> stopping (cache s))"
  using reached_inv [OF assms] by (simp add: readiness_inv_def)

theorem probes_never_storm_control_witness:
  "\<exists>s. reached (6 * 10 ^ 9) s \<and> spaced (5 * 10 ^ 9) (asks s) \<and> length (asks s) = 1"
proof -
  let ?s0 = "started (6 * 10 ^ 9)"
  let ?s1 = "?s0\<lparr>inside := insert 0 (inside ?s0)\<rparr>"
  have b: "reached (6 * 10 ^ 9) ?s1"
    by (rule reached.step [OF reached.start begun]) (simp add: started_def newReadiness_def)
  obtain a r where c: "check_locked (clock ?s1) 7 None (cache ?s1) = (a, r)" by (cases "check_locked (clock ?s1) 7 None (cache ?s1)")
  have "probe ?s1 (?s1\<lparr>cache := r, clock := clock ?s1 + 7, inside := inside ?s1 - {0}, asks := (clock ?s1, clock ?s1 + 7, None) # asks ?s1,
               answers := (0, clock ?s1 + 7, a) # answers ?s1\<rparr>)"
    by (rule asked [OF _ _ _ c]) (simp_all add: started_def newReadiness_def fresh_def)
  from reached.step [OF b this] obtain s where s: "reached (6 * 10 ^ 9) s" "length (asks s) = 1"
    by (force simp: started_def)
  with probes_never_storm_control [OF s(1)] show ?thesis by auto
qed

text \<open>
  Readiness recovers: whatever has happened, a probe that begins before the shutdown is answered,
  and once the cache time has passed since the last question it is Control's own answer of that
  moment, which the following probes share.
\<close>

theorem readiness_recovers:
  assumes "reached now s" "i \<in> inside s" "checked (cache s) + 5 * 10 ^ 9 \<le> clock s" "5 * 10 ^ 9 \<le> now" "0 \<le> took"
  shows "\<exists>t. probe s t \<and> answers t = (i, clock s + took, res) # answers s \<and> last (cache t) = res \<and> i \<notin> inside t \<and> fresh (cache t) (clock t)"
proof -
  have c: "cacheFor (cache s) = 5 * 10 ^ 9" using reached_inv [OF assms(1,4)] by (simp add: readiness_inv_def)
  then have f: "\<not> fresh (cache s) (clock s)" using assms(3) by (simp add: fresh_def)
  then have "check_locked (clock s) took res (cache s) = (res, (cache s)\<lparr>last := res, checked := clock s + took\<rparr>)"
    by (simp add: check_locked_def)
  note p = asked [OF assms(2) f assms(5) this]
  show ?thesis by (rule exI, rule conjI [OF p]) (simp add: c fresh_def)
qed

theorem readiness_recovers_witness:
  "\<exists>t. probe ((started (6 * 10 ^ 9))\<lparr>inside := {0}\<rparr>) t \<and> last (cache t) = None \<and> 0 \<notin> inside t"
proof -
  have "reached (6 * 10 ^ 9) ((started (6 * 10 ^ 9))\<lparr>inside := insert 0 (inside (started (6 * 10 ^ 9)))\<rparr>)"
    by (rule reached.step [OF reached.start begun]) (simp add: started_def newReadiness_def)
  then have "reached (6 * 10 ^ 9) ((started (6 * 10 ^ 9))\<lparr>inside := {0}\<rparr>)" by (simp add: started_def)
  from readiness_recovers [OF this, of 0 1 None] show ?thesis by (auto simp: started_def newReadiness_def)
qed

section \<open>A caller that gives up\<close>

text \<open>
  Control's health is asked under the probe's own context. When that caller has gone, the answer is
  its context's error, and it stays in the cache for the probes of other callers although Control
  is healthy.
\<close>

lemma cancelled_probe_withdraws_readiness:
  "\<exists>s t. reached (6 * 10 ^ 9) s \<and> asks s = [(6 * 10 ^ 9, 6 * 10 ^ 9, Some CtxErr)] \<and> probe s t \<and> answers t = (1, clock s, Some CtxErr) # answers s"
proof -
  let ?s0 = "started (6 * 10 ^ 9)"
  let ?s1 = "?s0\<lparr>inside := insert 0 (inside ?s0)\<rparr>"
  let ?s2 = "?s1\<lparr>inside := insert 1 (inside ?s1)\<rparr>"
  let ?r = "(cache ?s2)\<lparr>last := Some CtxErr, checked := clock ?s2 + 0\<rparr>"
  let ?s3 = "?s2\<lparr>cache := ?r, clock := clock ?s2 + 0, inside := inside ?s2 - {0}, asks := (clock ?s2, clock ?s2 + 0, Some CtxErr) # asks ?s2,
               answers := (0, clock ?s2 + 0, Some CtxErr) # answers ?s2\<rparr>"
  let ?t = "?s3\<lparr>inside := inside ?s3 - {1}, answers := (1, clock ?s3, last (cache ?s3)) # answers ?s3\<rparr>"
  have f: "\<not> fresh (cache ?s2) (clock ?s2)" by (simp add: started_def newReadiness_def fresh_def)
  have "reached (6 * 10 ^ 9) ?s1"
    by (rule reached.step [OF reached.start begun]) (simp add: started_def newReadiness_def)
  then have "reached (6 * 10 ^ 9) ?s2"
    by (rule reached.step [OF _ begun]) (simp add: started_def newReadiness_def)
  moreover have "probe ?s2 ?s3"
    by (rule asked [OF _ f]) (simp, simp, unfold check_locked_def if_not_P [OF f], simp)
  ultimately have "reached (6 * 10 ^ 9) ?s3" by (rule reached.step)
  moreover have "probe ?s3 ?t" by (rule cached) (simp_all add: started_def newReadiness_def fresh_def)
  ultimately show ?thesis by (intro exI [of _ ?s3] exI [of _ ?t]) (simp add: started_def)
qed

end
