(* ===== verification/Lifecycle.thy ===== *)
theory Lifecycle
  imports Readiness
begin

text \<open>
  The life of the process: Start, Served and Stop of internal/transport/http/server.go with the
  goroutine that serves, the hooks of run in internal/bootstrap/module.go, the health routes of
  NewServer, Control's Health, and the polling goroutine of a Reloader
  (Start and Stop of internal/transport/identity/reloader.go).

  Documented behaviour of the libraries: http.Server.Serve returns ErrServerClosed once
  Shutdown was called and another error otherwise; Shutdown closes the listener, then waits for
  the requests under way or for its context; Fx runs the stop hooks once after a signal or a
  Shutdown call and exits with the code of the first of them.
\<close>

section \<open>Health\<close>

text \<open>Client.Health: the answer of the gRPC health service, by the name of its status.\<close>

definition Health :: "string + string \<Rightarrow> go_error option" where
  "Health resp =
     (case resp of
        Inl m \<Rightarrow> Some (OtherErr m)
      | Inr st \<Rightarrow> if st \<noteq> ''SERVING'' then Some (OtherErr (''control health '' @ st)) else None)"

definition healthz :: nat where "healthz = 204"

definition readyz :: "go_error option \<Rightarrow> nat" where
  "readyz err = (case err of Some e \<Rightarrow> 503 | None \<Rightarrow> 204)"

text \<open>A probe that asks Control is answered 204 exactly when Control serves.\<close>

lemma readyz_follows_control:
  "\<not> stopping r \<Longrightarrow> \<not> fresh r now \<Longrightarrow> readyz (fst (check now took (Health resp) r)) = 204 \<longleftrightarrow> resp = Inr ''SERVING''"
  by (auto simp: check_def check_locked_def readyz_def Health_def split: sum.splits)

section \<open>The server and its hooks\<close>

datatype serving = Unserved | Accepting | ServeReturned "string option" | ServeSent

datatype phase =
    Fresh
  | NotStarted string
  | Up
  | Withdrawn
  | Draining
  | Drained "string option"
  | Down "string option"

text \<open>Why the process was asked to stop; a record of the model, which no code reads.\<close>

datatype exit_cause = Signalled | ListenerFailed string

record life =
  ready :: readiness
  phase :: phase
  listening :: bool
  serving :: serving
  served :: "string option list"
  watching :: bool
  drain_signal :: bool
  drain_once :: bool
  in_flight :: nat
  control_open :: bool
  exit_code :: "nat option"
  cause :: "exit_cause option"

text \<open>
  \<open>served\<close> is the channel of the serving goroutine (capacity 1), \<open>watching\<close> the goroutine of run that
  receives from it, \<open>in_flight\<close> the number of accepted requests that are not finished.
\<close>

definition new_life :: life where
  "new_life = \<lparr>ready = newReadiness, phase = Fresh, listening = False, serving = Unserved, served = [], watching = False,
     drain_signal = False, drain_once = False, in_flight = 0, control_open = True, exit_code = None, cause = None\<rparr>"

text \<open>Server.Start inside the start hook: \<open>bound\<close> is the error of net.Listen on the address, if any.\<close>

definition start_hook :: "string \<Rightarrow> string option \<Rightarrow> life \<Rightarrow> life" where
  "start_hook addr bound s =
     (case bound of
        Some m \<Rightarrow> s\<lparr>phase := NotStarted (''listen '' @ addr @ '': '' @ m)\<rparr>
      | None \<Rightarrow> s\<lparr>phase := Up, listening := True, serving := Accepting, watching := True\<rparr>)"

text \<open>Server.Stop up to the wait: the drain signal is closed once, the listener is closed.\<close>

definition close_draining :: "life \<Rightarrow> life" where
  "close_draining s = (if drain_once s then s else s\<lparr>drain_once := True, drain_signal := True\<rparr>)"

definition Stop :: "life \<Rightarrow> life" where
  "Stop s = (close_draining s)\<lparr>listening := False\<rparr>"

definition ask_exit :: "nat \<Rightarrow> life \<Rightarrow> life" where
  "ask_exit n s = (if exit_code s = None then s\<lparr>exit_code := Some n\<rparr> else s)"

definition blame :: "exit_cause \<Rightarrow> life \<Rightarrow> life" where
  "blame x s = (if cause s = None then s\<lparr>cause := Some x\<rparr> else s)"

inductive life_step :: "life \<Rightarrow> life \<Rightarrow> bool" where
  \<comment> \<open>the start hook\<close>
  start: "phase s = Fresh \<Longrightarrow> life_step s (start_hook addr bound s)"
  \<comment> \<open>the serving goroutine\<close>
| accept: "serving s = Accepting \<Longrightarrow> listening s \<Longrightarrow> life_step s (s\<lparr>in_flight := in_flight s + 1\<rparr>)"
| finish: "0 < in_flight s \<Longrightarrow> life_step s (s\<lparr>in_flight := in_flight s - 1\<rparr>)"
| serve_fails: "serving s = Accepting \<Longrightarrow> listening s \<Longrightarrow> life_step s (s\<lparr>listening := False, serving := ServeReturned (Some m)\<rparr>)"
| serve_closed: "serving s = Accepting \<Longrightarrow> \<not> listening s \<Longrightarrow> life_step s (s\<lparr>serving := ServeReturned None\<rparr>)"
| serve_sends: "serving s = ServeReturned v \<Longrightarrow> length (served s) < 1 \<Longrightarrow> life_step s (s\<lparr>serving := ServeSent, served := served s @ [v]\<rparr>)"
  \<comment> \<open>the goroutine of run that waits for the listener\<close>
| watch_closed: "watching s \<Longrightarrow> served s = None # vs \<Longrightarrow> life_step s (s\<lparr>served := vs, watching := False\<rparr>)"
| watch_failed: "watching s \<Longrightarrow> served s = Some m # vs \<Longrightarrow> 
    life_step s (ask_exit 1 (blame (ListenerFailed m) (s\<lparr>served := vs, watching := False\<rparr>)))"
  \<comment> \<open>the process is asked to stop\<close>
| signal: "phase s = Up \<Longrightarrow> life_step s (ask_exit 0 (blame Signalled s))"
  \<comment> \<open>the stop hook\<close>
| withdraw: "phase s = Up \<Longrightarrow> exit_code s \<noteq> None \<Longrightarrow> life_step s (s\<lparr>phase := Withdrawn, ready := stop (ready s)\<rparr>)"
| drain: "phase s = Withdrawn \<Longrightarrow> life_step s ((Stop s)\<lparr>phase := Draining\<rparr>)"
| drained: "phase s = Draining \<Longrightarrow> in_flight s = 0 \<Longrightarrow> life_step s (s\<lparr>phase := Drained None\<rparr>)"
| deadline: "phase s = Draining \<Longrightarrow> life_step s (s\<lparr>phase := Drained (Some ''context deadline exceeded'')\<rparr>)"
| close_control: "phase s = Drained v \<Longrightarrow> life_step s (s\<lparr>phase := Down v, control_open := False\<rparr>)"

inductive_cases life_stepE: "life_step s t"

inductive lived :: "life \<Rightarrow> bool" where
  lived_new: "lived new_life"
| lived_step: "lived s \<Longrightarrow> life_step s t \<Longrightarrow> lived t"

subsection \<open>What holds in every state of the process\<close>

definition serving_before :: "phase \<Rightarrow> bool" where
  "serving_before ph \<longleftrightarrow> ph = Up \<or> ph = Withdrawn"

definition stopped_hook :: "phase \<Rightarrow> bool" where
  "stopped_hook ph \<longleftrightarrow> (\<exists>v. ph = Draining \<or> ph = Drained v \<or> ph = Down v)"

definition sent_by :: "life \<Rightarrow> string option set" where
  "sent_by s = {v. serving s = ServeReturned v} \<union> set (served s)"

definition life_inv :: "life \<Rightarrow> bool" where
  "life_inv s \<longleftrightarrow>
     (drain_signal s \<longleftrightarrow> stopped_hook (phase s)) \<and> (drain_once s \<longleftrightarrow> drain_signal s) \<and>
     (phase s = Withdrawn \<or> stopped_hook (phase s) \<longrightarrow> stopping (ready s) \<and> exit_code s \<noteq> None) \<and>
     (stopped_hook (phase s) \<longrightarrow> \<not> listening s) \<and>
     (phase s = Drained None \<or> phase s = Down None \<longrightarrow> in_flight s = 0) \<and>
     (control_open s \<longleftrightarrow> (\<forall>v. phase s \<noteq> Down v)) \<and>
     (None \<in> sent_by s \<longrightarrow> stopped_hook (phase s)) \<and>
     (serving s \<noteq> ServeSent \<longrightarrow> served s = []) \<and> length (served s) \<le> 1 \<and>
     (serving s = Accepting \<and> \<not> stopped_hook (phase s) \<longrightarrow> listening s) \<and>
     (serving s = Unserved \<longleftrightarrow> phase s = Fresh \<or> (\<exists>m. phase s = NotStarted m)) \<and>
     (serving s = Unserved \<longrightarrow> exit_code s = None \<and> in_flight s = 0) \<and>
     (watching s \<longleftrightarrow> served s \<noteq> [] \<or> serving s = Accepting \<or> (\<exists>v. serving s = ServeReturned v))"

lemma hook_simps [simp]:
  "\<not> stopped_hook Fresh" "\<not> stopped_hook (NotStarted m)" "\<not> stopped_hook Up" "\<not> stopped_hook Withdrawn"
  "stopped_hook Draining" "stopped_hook (Drained v)" "stopped_hook (Down v)"
  by (simp_all add: stopped_hook_def)

lemma life_inv_parts:
  assumes "life_inv s"
  shows "drain_signal s \<longleftrightarrow> stopped_hook (phase s)" "stopped_hook (phase s) \<longrightarrow> stopping (ready s)"
    "stopped_hook (phase s) \<longrightarrow> \<not> listening s" "phase s = Drained None \<or> phase s = Down None \<longrightarrow> in_flight s = 0"
    "control_open s \<longleftrightarrow> (\<forall>v. phase s \<noteq> Down v)"
    "serving s = Unserved \<longleftrightarrow> phase s = Fresh \<or> (\<exists>m. phase s = NotStarted m)"
    "serving s = Unserved \<longrightarrow> exit_code s = None \<and> in_flight s = 0"
    "None \<in> sent_by s \<longrightarrow> stopped_hook (phase s)" "serving s \<noteq> ServeSent \<longrightarrow> served s = []"
    "watching s \<longleftrightarrow> served s \<noteq> [] \<or> serving s = Accepting \<or> (\<exists>v. serving s = ServeReturned v)"
  using assms unfolding life_inv_def by blast+

lemma life_inv_new: "life_inv new_life"
  by (simp add: life_inv_def new_life_def sent_by_def)

lemma ask_exit_inv: "life_inv s \<Longrightarrow> serving s \<noteq> Unserved \<Longrightarrow> life_inv (ask_exit n s)"
  by (simp add: life_inv_def ask_exit_def sent_by_def)

lemma blame_inv [simp]: "life_inv (blame x s) = life_inv s" "phase (blame x s) = phase s" "serving (blame x s) = serving s"
  "exit_code (blame x s) = exit_code s"
  by (simp_all add: life_inv_def blame_def sent_by_def)

lemma received: "life_inv s \<Longrightarrow> served s = v # vs \<Longrightarrow> serving s = ServeSent \<and> vs = []"
  by (cases "serving s = ServeSent") (simp_all add: life_inv_def)

lemma receive_inv:
  assumes "life_inv s" "served s = v # vs"
  shows "life_inv (s\<lparr>served := vs, watching := False\<rparr>)"
  using assms received [OF assms] by (simp add: life_inv_def sent_by_def)

lemma up_serves: "life_inv s \<Longrightarrow> phase s = Up \<Longrightarrow> serving s \<noteq> Unserved"
  by (auto simp: life_inv_def)

lemma life_inv_step:
  assumes "life_step s t" "life_inv s"
  shows "life_inv t"
  using assms(1)
proof cases
  case (start addr bound)
  with assms(2) show ?thesis
    by (cases bound) (auto simp: life_inv_def start_hook_def sent_by_def)
next
  case (watch_closed vs)
  with assms(2) receive_inv show ?thesis by simp
next
  case (watch_failed m vs)
  with assms(2) receive_inv [of s] received show ?thesis by (simp add: ask_exit_inv)
next
  case signal
  with assms(2) up_serves show ?thesis by (simp add: ask_exit_inv)
next
  case drain
  with assms(2) show ?thesis by (auto simp: life_inv_def sent_by_def Stop_def close_draining_def)
qed (use assms(2) in \<open>auto simp: life_inv_def sent_by_def stop_def\<close>)

lemma lived_inv: "lived s \<Longrightarrow> life_inv s"
  by (induction rule: lived.induct) (auto intro: life_inv_new life_inv_step)

text \<open>The code of the exit follows from why it was asked for: a signal's 0 or the failed listener's 1.\<close>

fun cause_code :: "exit_cause \<Rightarrow> nat" where
  "cause_code Signalled = 0"
| "cause_code (ListenerFailed m) = 1"

lemma lived_cause: "lived s \<Longrightarrow> exit_code s = map_option cause_code (cause s)"
proof (induction rule: lived.induct)
  case (lived_step s t)
  from lived_step(2,3) show ?case
    by (cases rule: life_step.cases) (auto simp: start_hook_def ask_exit_def blame_def Stop_def close_draining_def split: option.splits)
qed (simp add: new_life_def)

subsection \<open>Stopping ends\<close>

definition stop_rank :: "phase \<Rightarrow> nat" where
  "stop_rank ph = (case ph of Up \<Rightarrow> 4 | Withdrawn \<Rightarrow> 3 | Draining \<Rightarrow> 2 | Drained v \<Rightarrow> 1 | Down v \<Rightarrow> 0 | _ \<Rightarrow> 5)"

lemma asked_serves: "life_inv s \<Longrightarrow> exit_code s \<noteq> None \<Longrightarrow> serving s \<noteq> Unserved"
  by (frule life_inv_parts(7)) auto

lemma asked_phase: "life_inv s \<Longrightarrow> exit_code s \<noteq> None \<Longrightarrow> phase s \<noteq> Fresh \<and> (\<forall>m. phase s \<noteq> NotStarted m)"
  using asked_serves [of s] life_inv_parts(6) [of s] by blast

lemma hook_enabled:
  assumes "life_inv s" "exit_code s \<noteq> None" "\<forall>v. phase s \<noteq> Down v"
  shows "\<exists>t. life_step s t \<and> stop_rank (phase t) < stop_rank (phase s)"
proof (cases "phase s")
  case Up
  then show ?thesis using life_step.withdraw [OF Up assms(2)] by (auto simp: stop_rank_def intro!: exI)
next
  case Withdrawn
  then show ?thesis using life_step.drain [OF Withdrawn] by (auto simp: stop_rank_def intro!: exI)
next
  case Draining
  then show ?thesis using life_step.deadline [OF Draining] by (auto simp: stop_rank_def intro!: exI)
next
  case (Drained v)
  then show ?thesis using life_step.close_control [OF Drained] by (auto simp: stop_rank_def intro!: exI)
qed (use assms asked_phase [OF assms(1,2)] in auto)

lemma ask_exit_keeps [simp]: "phase (ask_exit n s) = phase s" "exit_code s \<noteq> None \<Longrightarrow> ask_exit n s = s"
  by (simp_all add: ask_exit_def)

lemma rank_step:
  assumes "life_step s t" "life_inv s" "exit_code s \<noteq> None"
  shows "stop_rank (phase t) \<le> stop_rank (phase s) \<and> exit_code t = exit_code s"
  using assms(1)
proof cases
  case (start addr bound)
  with asked_phase [OF assms(2,3)] show ?thesis by simp
next
  case (watch_failed m vs)
  with assms(3) show ?thesis by simp
qed (use assms(3) in \<open>auto simp: stop_rank_def Stop_def close_draining_def\<close>)

interpretation life_runs: machine life_step lived
  by unfold_locales (rule lived_step)

lemma asked_comes_down:
  assumes "lived s" "exit_code s \<noteq> None"
  shows "\<exists>t. life_step\<^sup>*\<^sup>* s t \<and> (\<exists>v. phase t = Down v)"
proof (rule life_runs.descends [where P = "\<lambda>s. exit_code s \<noteq> None" and work = "\<lambda>s. stop_rank (phase s)", OF assms])
  fix s assume s: "lived s" "exit_code s \<noteq> None" "\<not> (\<exists>v. phase s = Down v)"
  then obtain t where "life_step s t" "stop_rank (phase t) < stop_rank (phase s)" using hook_enabled [OF lived_inv] by blast
  moreover have "exit_code t = exit_code s" using rank_step [OF calculation(1) lived_inv [OF s(1)] s(2)] by blast
  ultimately show "\<exists>t. life_step s t \<and> exit_code t \<noteq> None \<and> stop_rank (phase t) < stop_rank (phase s)" using s(2) by auto
qed

section \<open>The polling goroutine of a Reloader\<close>

text \<open>
  Pollers are numbered. \<open>armed\<close>: the poller whose cancel function the Reloader holds; \<open>live\<close>: the
  goroutines that have not returned; \<open>told\<close>: those whose context is cancelled; \<open>joining\<close>: the calls of
  Stop under way, by the poller they wait for; \<open>polls\<close>: the reloads made, by poller, newest first.
\<close>

record pollers =
  armed :: "nat option"
  live :: "nat set"
  told :: "nat set"
  joining :: "nat set"
  fresh_id :: nat
  polls :: "nat list"

definition no_pollers :: pollers where
  "no_pollers = \<lparr>armed = None, live = {}, told = {}, joining = {}, fresh_id = 0, polls = []\<rparr>"

text \<open>Start under the mutex: nothing when a poller is armed.\<close>

definition Start :: "pollers \<Rightarrow> pollers" where
  "Start s =
     (if armed s \<noteq> None then s
      else s\<lparr>armed := Some (fresh_id s), live := insert (fresh_id s) (live s), fresh_id := Suc (fresh_id s)\<rparr>)"

text \<open>Stop under the mutex takes the cancel function, then calls it and waits for the goroutine.\<close>

definition Stop_take :: "pollers \<Rightarrow> pollers" where
  "Stop_take s = (case armed s of None \<Rightarrow> s | Some n \<Rightarrow> s\<lparr>armed := None, joining := insert n (joining s)\<rparr>)"

inductive poll_step :: "pollers \<Rightarrow> pollers \<Rightarrow> bool" where
  starts: "poll_step s (Start s)"
| stops: "poll_step s (Stop_take s)"
| cancels: "n \<in> joining s \<Longrightarrow> poll_step s (s\<lparr>told := insert n (told s)\<rparr>)"
| reloads: "n \<in> live s \<Longrightarrow> poll_step s (s\<lparr>polls := n # polls s\<rparr>)"
| returns: "n \<in> live s \<Longrightarrow> n \<in> told s \<Longrightarrow> poll_step s (s\<lparr>live := live s - {n}\<rparr>)"
| joined: "n \<in> joining s \<Longrightarrow> n \<in> told s \<Longrightarrow> n \<notin> live s \<Longrightarrow> poll_step s (s\<lparr>joining := joining s - {n}\<rparr>)"

inductive polled :: "pollers \<Rightarrow> bool" where
  polled_new: "polled no_pollers"
| polled_step: "polled s \<Longrightarrow> poll_step s t \<Longrightarrow> polled t"

interpretation poll_runs: machine poll_step polled
  by unfold_locales (rule polled_step)

definition poll_inv :: "pollers \<Rightarrow> bool" where
  "poll_inv s \<longleftrightarrow>
     live s \<subseteq> set_option (armed s) \<union> joining s \<and> set_option (armed s) \<subseteq> live s \<and>
     told s \<inter> set_option (armed s) = {} \<and> joining s \<inter> set_option (armed s) = {} \<and>
     (\<forall>n \<in> live s \<union> told s \<union> joining s \<union> set_option (armed s). n < fresh_id s)"

lemma poll_inv_step: "poll_step s t \<Longrightarrow> poll_inv s \<Longrightarrow> poll_inv t"
proof (induction rule: poll_step.induct)
  case (starts s)
  then show ?case by (cases "armed s") (auto simp: Start_def poll_inv_def less_Suc_eq)
next
  case (stops s)
  then show ?case by (cases "armed s") (auto simp: Stop_take_def poll_inv_def)
qed (auto simp: poll_inv_def)

lemma polled_inv: "polled s \<Longrightarrow> poll_inv s"
proof (induction rule: polled.induct)
  case polled_new
  then show ?case by (simp add: poll_inv_def no_pollers_def)
qed (rule poll_inv_step)

text \<open>A Stop that waits can always go on: its poller is told, returns, and the call is joined.\<close>

lemma stop_returns:
  assumes "n \<in> joining s"
  shows "\<exists>t. poll_step\<^sup>*\<^sup>* s t \<and> n \<notin> joining t"
proof -
  let ?a = "s\<lparr>told := insert n (told s)\<rparr>"
  let ?b = "?a\<lparr>live := live s - {n}\<rparr>"
  let ?c = "?b\<lparr>joining := joining s - {n}\<rparr>"
  have "poll_step s ?a" by (rule cancels [OF assms])
  moreover have "poll_step\<^sup>*\<^sup>* ?a ?b"
  proof (cases "n \<in> live s")
    case True
    then show ?thesis using returns [of n ?a] by auto
  qed simp
  moreover have "poll_step ?b ?c" using joined [of n ?b] assms by simp
  ultimately have "poll_step\<^sup>*\<^sup>* s ?c" by (meson converse_rtranclp_into_rtranclp rtranclp.rtrancl_into_rtrancl)
  then show ?thesis by (intro exI [of _ ?c]) simp
qed

section \<open>Properties\<close>

text \<open>
  C22. The order of a shutdown: once the drain signal is out every readiness probe answers 503; the
  connection to Control is closed only after the listener is closed and every accepted request
  finished or the drain's bound passed; the listener reports a regular end only after Stop; and the serving
  goroutine never blocks on its result.
\<close>

theorem shutdown_order:
  assumes "lived s"
  shows "(drain_signal s \<longrightarrow> readyz (fst (check now took res (ready s))) = 503)
    \<and> (\<not> control_open s \<longrightarrow> drain_signal s \<and> \<not> listening s \<and> (in_flight s = 0 \<or> (\<exists>m. phase s = Down (Some m))))
    \<and> (None \<in> sent_by s \<longrightarrow> drain_signal s)
    \<and> (serving s = ServeReturned v \<longrightarrow> (\<exists>t. life_step s t \<and> served t = [v]))"
proof -
  note inv = lived_inv [OF assms]
  have "drain_signal s \<longrightarrow> stopping (ready s)" using life_inv_parts(1,2) [OF inv] by blast
  then have "drain_signal s \<longrightarrow> readyz (fst (check now took res (ready s))) = 503"
    by (simp add: check_def readyz_def)
  moreover have "\<not> control_open s \<longrightarrow> drain_signal s \<and> \<not> listening s \<and> (in_flight s = 0 \<or> (\<exists>m. phase s = Down (Some m)))"
  proof
    assume "\<not> control_open s"
    then obtain v where v: "phase s = Down v" using life_inv_parts(5) [OF inv] by blast
    then show "drain_signal s \<and> \<not> listening s \<and> (in_flight s = 0 \<or> (\<exists>m. phase s = Down (Some m)))"
      using life_inv_parts(1,3,4) [OF inv] by (cases v) simp_all
  qed
  moreover have "None \<in> sent_by s \<longrightarrow> drain_signal s" using life_inv_parts(1,8) [OF inv] by blast
  moreover have "serving s = ServeReturned v \<longrightarrow> (\<exists>t. life_step s t \<and> served t = [v])"
  proof
    assume v: "serving s = ServeReturned v"
    then have "served s = []" using life_inv_parts(9) [OF inv] by simp
    with serve_sends [OF v] have "life_step s (s\<lparr>serving := ServeSent, served := served s @ [v]\<rparr>)" by simp
    with \<open>served s = []\<close> show "\<exists>t. life_step s t \<and> served t = [v]"
      by (intro exI [of _ "s\<lparr>serving := ServeSent, served := served s @ [v]\<rparr>"]) simp
  qed
  ultimately show ?thesis by blast
qed

definition demo_up :: life where
  "demo_up = start_hook [] None new_life"

lemma demo_up: "lived demo_up" "phase demo_up = Up" "exit_code demo_up = None"
proof -
  have "life_step new_life demo_up" unfolding demo_up_def by (rule start) (simp add: new_life_def)
  then show "lived demo_up" by (rule lived_step [OF lived_new])
qed (simp_all add: demo_up_def start_hook_def new_life_def)

theorem shutdown_order_witness:
  "\<exists>s. lived s \<and> drain_signal s \<and> readyz (fst (check 9 1 None (ready s))) = 503"
proof -
  let ?a = "ask_exit 0 (blame Signalled demo_up)"
  let ?b = "?a\<lparr>phase := Withdrawn, ready := stop (ready ?a)\<rparr>"
  let ?c = "(Stop ?b)\<lparr>phase := Draining\<rparr>"
  have "life_step demo_up ?a" by (rule signal [OF demo_up(2)])
  moreover have "life_step ?a ?b" using withdraw [of ?a] demo_up by (simp add: ask_exit_def blame_def)
  moreover have "life_step ?b ?c" using drain [of ?b] by simp
  ultimately have l: "lived ?c" using demo_up(1) by (meson lived_step)
  moreover have "drain_signal ?c" using life_inv_parts(1) [OF lived_inv [OF l]] by simp
  ultimately show ?thesis using shutdown_order [OF l, of 9 1 None] by blast
qed

text \<open>
  A process that is asked to stop, by a signal or by a listener that failed, stops: a run leads to its end, in every
  state a stop hook can advance, no step of anything else undoes its progress or changes the
  exit code, and a failed listener asks for the exit with the next two steps of its goroutines.
\<close>

theorem stopping_progresses:
  assumes "lived s"
  shows "(exit_code s \<noteq> None \<longrightarrow> (\<exists>t. life_step\<^sup>*\<^sup>* s t \<and> (\<exists>v. phase t = Down v)))
    \<and> (exit_code s \<noteq> None \<and> (\<forall>v. phase s \<noteq> Down v) \<longrightarrow> (\<exists>t. life_step s t \<and> stop_rank (phase t) < stop_rank (phase s)))
    \<and> (\<forall>t. exit_code s \<noteq> None \<and> life_step s t \<longrightarrow> stop_rank (phase t) \<le> stop_rank (phase s) \<and> exit_code t = exit_code s)
    \<and> (serving s = ServeReturned (Some m) \<longrightarrow> (\<exists>t u. life_step s t \<and> life_step t u \<and> exit_code u \<noteq> None))"
proof -
  note inv = lived_inv [OF assms]
  have "\<exists>t u. life_step s t \<and> life_step t u \<and> exit_code u \<noteq> None" if r: "serving s = ServeReturned (Some m)"
  proof -
    have e: "served s = []" "watching s" using life_inv_parts(9,10) [OF inv] r by simp_all
    let ?t = "s\<lparr>serving := ServeSent, served := served s @ [Some m]\<rparr>"
    let ?u = "ask_exit 1 (blame (ListenerFailed m) (?t\<lparr>served := [], watching := False\<rparr>))"
    have "life_step s ?t" using serve_sends [OF r] e by simp
    moreover have "life_step ?t ?u" by (rule watch_failed) (use e in simp_all)
    moreover have "exit_code ?u \<noteq> None" by (simp add: ask_exit_def)
    ultimately show ?thesis by blast
  qed
  then show ?thesis using asked_comes_down [OF assms] hook_enabled [OF inv] rank_step [OF _ inv] by blast
qed

theorem stopping_progresses_witness:
  "\<exists>t. life_step (ask_exit 0 (blame Signalled demo_up)) t \<and> stop_rank (phase t) < 4"
proof -
  have l: "lived (ask_exit 0 (blame Signalled demo_up))" using lived_step [OF demo_up(1) signal [OF demo_up(2)]] .
  have "exit_code (ask_exit 0 (blame Signalled demo_up)) \<noteq> None" "\<forall>v. phase (ask_exit 0 (blame Signalled demo_up)) \<noteq> Down v" "stop_rank (phase (ask_exit 0 (blame Signalled demo_up))) = 4"
    using demo_up by (simp_all add: ask_exit_def blame_def stop_rank_def)
  with stopping_progresses [OF l] show ?thesis by metis
qed

text \<open>
  However Start and Stop are called from different goroutines, a Reloader has at most one poller
  apart from those that calls of Stop under way wait for; after Stop returned its poller never
  polls again.
\<close>

theorem one_poller:
  assumes "polled s"
  shows "live s \<subseteq> set_option (armed s) \<union> joining s \<and> card (set_option (armed s)) \<le> 1
    \<and> (poll_step s t \<and> polls t = n # polls s \<and> n \<notin> joining s \<longrightarrow> armed s = Some n)"
proof -
  have inv: "poll_inv s" by (rule polled_inv [OF assms])
  have "armed s = Some n" if st: "poll_step s t" "polls t = n # polls s" "n \<notin> joining s"
    using st(1)
  proof cases
    case starts
    then show ?thesis using st(2) by (simp add: Start_def split: if_splits)
  next
    case stops
    then show ?thesis using st(2) by (simp add: Stop_take_def split: option.splits)
  next
    case (reloads k)
    then show ?thesis using st(2,3) inv by (auto simp: poll_inv_def)
  qed (use st(2) in simp_all)
  moreover have "card (set_option (armed s)) \<le> 1" by (cases "armed s") simp_all
  ultimately show ?thesis using inv by (auto simp: poll_inv_def)
qed

theorem one_poller_witness:
  "\<exists>s. polled s \<and> armed s = Some 0 \<and> live s \<subseteq> {0} \<union> joining s"
proof -
  have "polled (Start no_pollers)" by (rule polled_step [OF polled_new starts])
  moreover have "armed (Start no_pollers) = Some 0" by (simp add: Start_def no_pollers_def)
  ultimately show ?thesis using one_poller [of "Start no_pollers"] by (intro exI [of _ "Start no_pollers"]) simp
qed

end
