(* ===== verification/Fairness.thy ===== *)
theory Fairness
  imports Prelude
begin

text \<open>
  Endless runs of a step relation and weak fairness: a branch that stays possible is taken. A run may pause
  (repeat its state), so a process that has come to rest has one too. Shared by the properties that say that something happens.
\<close>

definition runs :: "('s \<Rightarrow> 's \<Rightarrow> bool) \<Rightarrow> (nat \<Rightarrow> 's) \<Rightarrow> bool" where
  "runs move \<rho> \<longleftrightarrow> (\<forall>n. \<rho> (Suc n) = \<rho> n \<or> move (\<rho> n) (\<rho> (Suc n)))"

text \<open>Weak fairness of the steps of one kind.\<close>

definition weakly_fair :: "('s \<Rightarrow> 's \<Rightarrow> bool) \<Rightarrow> ('s \<Rightarrow> 's \<Rightarrow> bool) \<Rightarrow> (nat \<Rightarrow> 's) \<Rightarrow> bool" where
  "weakly_fair move kind \<rho> \<longleftrightarrow>
     (\<forall>i. (\<forall>j\<ge>i. \<exists>t. move (\<rho> j) t \<and> kind (\<rho> j) t) \<longrightarrow> (\<exists>j\<ge>i. kind (\<rho> j) (\<rho> (Suc j))))"

lemma runs_keep:
  assumes "runs move \<rho>" "\<And>s t. P s \<Longrightarrow> move s t \<Longrightarrow> P t" "P (\<rho> i)" "i \<le> j"
  shows "P (\<rho> j)"
  using assms(4,3)
proof (induction rule: dec_induct)
  case (step n)
  then show ?case using assms(1,2) by (metis runs_def)
qed

lemma runs_mono:
  assumes "runs move \<rho>" "\<And>s t. P s \<Longrightarrow> move s t \<Longrightarrow> P t" "\<And>s t. P s \<Longrightarrow> move s t \<Longrightarrow> (f t :: nat) \<le> f s" "P (\<rho> i)" "i \<le> j"
  shows "f (\<rho> j) \<le> f (\<rho> i)"
proof -
  have "P (\<rho> j) \<and> f (\<rho> j) \<le> f (\<rho> i)" using assms(5,4)
  proof (induction rule: dec_induct)
    case (step n)
    then have n: "P (\<rho> n)" "f (\<rho> n) \<le> f (\<rho> i)" by simp_all
    from assms(1) consider "\<rho> (Suc n) = \<rho> n" | "move (\<rho> n) (\<rho> (Suc n))" by (auto simp: runs_def)
    then show ?case
    proof cases
      case 2
      with assms(2,3) [OF n(1) 2] n(2) show ?thesis by simp
    qed (use n in simp)
  qed simp
  then show ?thesis ..
qed

text \<open>
  Work that no step adds to and that every fair step takes from is done in the end, when a fair step is possible as long as there is any.
\<close>

lemma fair_work_done:
  assumes fair: "weakly_fair move kind \<rho>" and run: "runs move \<rho>" and start: "P (\<rho> i)"
    and keeps: "\<And>s t. P s \<Longrightarrow> move s t \<Longrightarrow> P t"
    and never_more: "\<And>s t. P s \<Longrightarrow> move s t \<Longrightarrow> (work t :: nat) \<le> work s"
    and takes: "\<And>s t. P s \<Longrightarrow> kind s t \<Longrightarrow> move s t \<or> s = t \<Longrightarrow> work t < work s"
    and ready: "\<And>s. P s \<Longrightarrow> \<not> Q s \<Longrightarrow> \<exists>t. move s t \<and> kind s t"
  shows "\<exists>j\<ge>i. Q (\<rho> j)"
  using start
proof (induction "work (\<rho> i)" arbitrary: i rule: less_induct)
  case less
  show ?case
  proof (rule ccontr)
    assume never: "\<not> (\<exists>j\<ge>i. Q (\<rho> j))"
    have p: "P (\<rho> j)" if "i \<le> j" for j by (rule runs_keep [where P = P and move = move, OF run keeps less.prems that])
    with never ready have "\<forall>j\<ge>i. \<exists>t. move (\<rho> j) t \<and> kind (\<rho> j) t" by blast
    with fair obtain j where j: "i \<le> j" "kind (\<rho> j) (\<rho> (Suc j))" unfolding weakly_fair_def by blast
    have "move (\<rho> j) (\<rho> (Suc j)) \<or> \<rho> j = \<rho> (Suc j)" using run by (metis runs_def)
    then have "work (\<rho> (Suc j)) < work (\<rho> j)" using takes [OF p [OF j(1)] j(2)] by blast
    moreover have "work (\<rho> j) \<le> work (\<rho> i)"
      by (rule runs_mono [where P = P and move = move, OF run keeps never_more less.prems j(1)])
    ultimately have "work (\<rho> (Suc j)) < work (\<rho> i)" by simp
    from less.hyps [OF this p] j(1) obtain k where "Suc j \<le> k" "Q (\<rho> k)" by auto
    with never j(1) show False by (metis le_Suc_eq le_trans)
  qed
qed

text \<open>The case of one fair step.\<close>

lemma fair_leaves:
  assumes "weakly_fair move kind \<rho>" "runs move \<rho>" "P (\<rho> i)" "\<And>s t. P s \<Longrightarrow> move s t \<Longrightarrow> P t"
    and "\<And>s t. P s \<Longrightarrow> \<not> Q s \<Longrightarrow> kind s t \<Longrightarrow> Q t" "\<And>s. P s \<Longrightarrow> \<not> Q s \<Longrightarrow> \<exists>t. move s t \<and> kind s t"
  shows "\<exists>j\<ge>i. Q (\<rho> j)"
proof (rule ccontr)
  assume never: "\<not> (\<exists>j\<ge>i. Q (\<rho> j))"
  have p: "P (\<rho> j)" if "i \<le> j" for j by (rule runs_keep [where P = P and move = move, OF assms(2,4,3) that])
  with never assms(6) have "\<forall>j\<ge>i. \<exists>t. move (\<rho> j) t \<and> kind (\<rho> j) t" by blast
  with assms(1) obtain j where "i \<le> j" "kind (\<rho> j) (\<rho> (Suc j))" unfolding weakly_fair_def by blast
  with never assms(5) p show False by (metis le_Suc_eq)
qed

text \<open>Finitely many things that each hold from some point on hold together from some point on.\<close>

lemma all_in_the_end:
  "(\<And>k. k < (l::nat) \<Longrightarrow> \<exists>n. \<forall>m\<ge>n. P k (m::nat)) \<Longrightarrow> \<exists>n. \<forall>m\<ge>n. \<forall>k<l. P k m"
proof (induction l)
  case (Suc l)
  then obtain n n' where "\<forall>m\<ge>n. \<forall>k<l. P k m" "\<forall>m\<ge>n'. P l m" by fastforce
  then have "\<forall>m\<ge>max n n'. \<forall>k<Suc l. P k m" by (simp add: less_Suc_eq)
  then show ?case by blast
qed simp

text \<open>A finite run that has come to rest, continued by pauses.\<close>

lemma rest_run:
  assumes "move\<^sup>*\<^sup>* s t"
  shows "\<exists>\<rho> n. \<rho> 0 = s \<and> runs move \<rho> \<and> (\<forall>m\<ge>n. \<rho> m = t)"
  using assms
proof (induction rule: rtranclp_induct)
  case base
  show ?case by (rule exI [of _ "\<lambda>_. s"]) (simp add: runs_def)
next
  case (step t u)
  then obtain \<rho> n where r: "\<rho> 0 = s" "runs move \<rho>" "\<forall>m\<ge>n. \<rho> m = t" by blast
  let ?r = "\<lambda>m. if m \<le> n then \<rho> m else u"
  have "runs move ?r" unfolding runs_def
  proof
    fix m
    consider "Suc m \<le> n" | "m = n" | "n < m" by linarith
    then show "?r (Suc m) = ?r m \<or> move (?r m) (?r (Suc m))"
    proof cases
      case 1
      then show ?thesis using r(2) by (simp add: runs_def)
    next
      case 2
      then show ?thesis using r(3) step(2) by simp
    qed simp
  qed
  moreover have "?r 0 = s" "\<forall>m\<ge>Suc n. ?r m = u" using r(1) by auto
  ultimately show ?case by (intro exI [of _ ?r] exI [of _ "Suc n"]) simp
qed

text \<open>At rest in a state that offers no step of a kind, a run is fair to it.\<close>

lemma rest_fair: "\<forall>m\<ge>n. \<rho> m = t \<Longrightarrow> \<forall>u. \<not> (move t u \<and> kind t u) \<Longrightarrow> weakly_fair move kind \<rho>"
  unfolding weakly_fair_def by (metis nle_le)

end
