(* ===== verification/Drain.thy ===== *)
theory Drain
  imports Streams Lifecycle Fairness
begin

text \<open>
  The drain of the whole server: the life of the process (Lifecycle, whose \<open>in_flight\<close> counts the accepted requests)
  together with the event streams (Streams). A request that is accepted is first one of the \<open>w_others\<close>; when the
  route of the event streams opens it, it is counted among the open streams until its handler finishes.
  Stop closes the drain channel of both at once (close(s.draining) in internal/transport/http/server.go).
\<close>

section \<open>The composed state\<close>

record whole =
  w_life :: life
  w_streams :: stream_server
  w_others :: nat

definition open_count :: "stream_server \<Rightarrow> nat" where
  "open_count s = length (open_entries s)"

definition new_whole :: "int \<Rightarrow> int \<Rightarrow> whole" where
  "new_whole mx per = \<lparr>w_life = new_life, w_streams = new_server mx per, w_others = 0\<rparr>"

definition drain_streams :: "stream_server \<Rightarrow> stream_server" where
  "drain_streams s = s\<lparr>shutdown := True, streams := map drained_entry (streams s)\<rparr>"

inductive whole_step :: "'r stream_deps \<Rightarrow> whole \<Rightarrow> whole \<Rightarrow> bool" for d where
  \<comment> \<open>a step of the process that neither accepts nor finishes a request\<close>
  w_life_moves: "life_step (w_life w) l \<Longrightarrow> in_flight l = in_flight (w_life w) \<Longrightarrow> drain_signal l = drain_signal (w_life w) \<Longrightarrow>
    whole_step d w (w\<lparr>w_life := l\<rparr>)"
| w_drains: "life_step (w_life w) l \<Longrightarrow> in_flight l = in_flight (w_life w) \<Longrightarrow> \<not> drain_signal (w_life w) \<Longrightarrow> drain_signal l \<Longrightarrow>
    whole_step d w (w\<lparr>w_life := l, w_streams := drain_streams (w_streams w)\<rparr>)"
  \<comment> \<open>requests\<close>
| w_accepts: "serving (w_life w) = Accepting \<Longrightarrow> listening (w_life w) \<Longrightarrow>
    whole_step d w (w\<lparr>w_life := (w_life w)\<lparr>in_flight := in_flight (w_life w) + 1\<rparr>, w_others := w_others w + 1\<rparr>)"
| w_finishes: "0 < w_others w \<Longrightarrow>
    whole_step d w (w\<lparr>w_life := (w_life w)\<lparr>in_flight := in_flight (w_life w) - 1\<rparr>, w_others := w_others w - 1\<rparr>)"
  \<comment> \<open>event streams: one is turned away or opened, or moves on\<close>
| w_turned: "0 < w_others w \<Longrightarrow> server_step d (w_streams w) s \<Longrightarrow> arrived s \<noteq> arrived (w_streams w) \<Longrightarrow> streams s = streams (w_streams w) \<Longrightarrow>
    whole_step d w (w\<lparr>w_streams := s\<rparr>)"
| w_opens: "0 < w_others w \<Longrightarrow> server_step d (w_streams w) s \<Longrightarrow> open_count s = open_count (w_streams w) + 1 \<Longrightarrow>
    whole_step d w (w\<lparr>w_streams := s, w_others := w_others w - 1\<rparr>)"
| w_stream_moves: "server_step d (w_streams w) s \<Longrightarrow> arrived s = arrived (w_streams w) \<Longrightarrow> shutdown s = shutdown (w_streams w) \<Longrightarrow>
    whole_step d w (w\<lparr>w_streams := s, w_life := (w_life w)\<lparr>in_flight := in_flight (w_life w) - (open_count (w_streams w) - open_count s)\<rparr>\<rparr>)"

inductive whole_reach :: "'r stream_deps \<Rightarrow> int \<Rightarrow> int \<Rightarrow> whole \<Rightarrow> bool" for d mx per where
  whole_new: "whole_reach d mx per (new_whole mx per)"
| whole_next: "whole_reach d mx per w \<Longrightarrow> whole_step d w v \<Longrightarrow> whole_reach d mx per v"

section \<open>The components' steps\<close>

lemma open_count_update:
  assumes "i < length xs"
  shows "length (filter P (xs[i := y])) + (if P (xs ! i) then 1 else 0) = length (filter P xs) + (if P y then 1 else 0)"
  using assms
proof (induction xs arbitrary: i)
  case (Cons x xs)
  then show ?case by (cases i) auto
qed simp

lemma server_step_counts:
  assumes "server_step d s t"
  shows "arrived s \<le> arrived t" "shutdown s \<Longrightarrow> shutdown t" "streams t = streams s \<Longrightarrow> open_count t = open_count s"
    "arrived t = arrived s \<Longrightarrow> open_count t \<le> open_count s \<and> open_count s \<le> open_count t + 1"
    "open_count t \<noteq> open_count s \<Longrightarrow> shutdown t = shutdown s"
    "streams t = streams s \<Longrightarrow> arrived t \<noteq> arrived s \<Longrightarrow> shutdown t = shutdown s"
proof -
  show "streams t = streams s \<Longrightarrow> open_count t = open_count s" by (simp add: open_count_def open_entries_def)
  have m: "open_count t \<le> open_count s \<and> open_count s \<le> open_count t + 1 \<and> arrived t = arrived s \<and> shutdown t = shutdown s"
    if "i < length (streams s)" "step (entry_env d (streams s ! i)) (en_state (streams s ! i)) u"
      "t = s\<lparr>streams := (streams s)[i := (streams s ! i)\<lparr>en_state := u\<rparr>], limiter := l\<rparr>" for i u l
    using open_count_update [OF that(1), of "\<lambda>e. slot (en_state e)" "(streams s ! i)\<lparr>en_state := u\<rparr>"] slot_stays_lost [OF that(2)] that(3)
    by (auto simp: open_count_def open_entries_def split: if_splits)
  have dr: "open_count (drain_streams s) = open_count s"
    by (simp add: open_count_def open_entries_def drain_streams_def filter_map comp_def)
  show "arrived s \<le> arrived t" "shutdown s \<Longrightarrow> shutdown t"
    using assms by (auto elim!: server_step.cases)
  show "arrived t = arrived s \<Longrightarrow> open_count t \<le> open_count s \<and> open_count s \<le> open_count t + 1"
    using assms by (cases rule: server_step.cases) (use m dr in \<open>auto simp: drain_streams_def\<close>)
  show "open_count t \<noteq> open_count s \<Longrightarrow> shutdown t = shutdown s"
    using assms by (cases rule: server_step.cases) (use dr in \<open>auto simp: drain_streams_def\<close>)
  show "streams t = streams s \<Longrightarrow> arrived t \<noteq> arrived s \<Longrightarrow> shutdown t = shutdown s"
    using assms by (cases rule: server_step.cases) auto
qed

section \<open>The invariant\<close>

definition whole_inv :: "'r stream_deps \<Rightarrow> int \<Rightarrow> int \<Rightarrow> whole \<Rightarrow> bool" where
  "whole_inv d mx per w \<longleftrightarrow>
     lived (w_life w) \<and> server_reach d mx per (w_streams w) \<and>
     in_flight (w_life w) = w_others w + open_count (w_streams w) \<and> (drain_signal (w_life w) \<longleftrightarrow> shutdown (w_streams w))"

lemma whole_inv_new: "whole_inv d mx per (new_whole mx per)"
  by (simp add: whole_inv_def new_whole_def new_life_def lived_new [unfolded new_life_def] server_new open_count_def open_entries_def)
     (simp add: new_server_def)

lemma finishes_lived: "lived l \<Longrightarrow> k \<le> 1 \<Longrightarrow> k \<le> in_flight l \<Longrightarrow> lived (l\<lparr>in_flight := in_flight l - k\<rparr>)"
  using lived_step [of l "l\<lparr>in_flight := in_flight l - 1\<rparr>"] life_step.finish [of l] by (cases k) auto

lemma whole_inv_step:
  assumes "whole_step d w v" "whole_inv d mx per w"
  shows "whole_inv d mx per v"
  using assms(1)
proof cases
  case (w_life_moves l)
  with assms(2) show ?thesis by (auto simp: whole_inv_def intro: lived_step)
next
  case (w_drains l)
  then have sh: "\<not> shutdown (w_streams w)" and r: "server_reach d mx per (w_streams w)" using assms(2) by (auto simp: whole_inv_def)
  have "server_reach d mx per (drain_streams (w_streams w))"
    unfolding drain_streams_def by (rule server_next [OF r drains [OF sh]])
  moreover have "open_count (drain_streams (w_streams w)) = open_count (w_streams w)"
    by (simp add: open_count_def open_entries_def drain_streams_def filter_map comp_def)
  ultimately show ?thesis
    using w_drains assms(2) by (auto simp: whole_inv_def drain_streams_def intro: lived_step)
next
  case w_accepts
  then show ?thesis using assms(2) life_step.accept [of "w_life w"] by (auto simp: whole_inv_def intro: lived_step)
next
  case w_finishes
  then show ?thesis using assms(2) finishes_lived [of "w_life w" 1] by (auto simp: whole_inv_def)
next
  case (w_turned s)
  then show ?thesis using assms(2) server_step_counts(3,6) [OF w_turned(3)] by (auto simp: whole_inv_def intro: server_next)
next
  case (w_opens s)
  then show ?thesis using assms(2) server_step_counts(5) [OF w_opens(3)] by (auto simp: whole_inv_def intro: server_next)
next
  case (w_stream_moves s)
  have c: "open_count s \<le> open_count (w_streams w)" "open_count (w_streams w) \<le> open_count s + 1"
    using server_step_counts(4) [OF w_stream_moves(2,3)] by simp_all
  have "lived (w_life v)"
    using assms(2) c finishes_lived [of "w_life w" "open_count (w_streams w) - open_count s"]
    by (simp add: whole_inv_def w_stream_moves(1))
  then show ?thesis using assms(2) c w_stream_moves by (auto simp: whole_inv_def intro: server_next)
qed

lemma whole_reach_inv: "whole_reach d mx per w \<Longrightarrow> whole_inv d mx per w"
  by (induction rule: whole_reach.induct) (rule whole_inv_new, rule whole_inv_step)

interpretation whole_runs: machine "whole_step d" "whole_reach d mx per" for d mx per
  by unfold_locales (rule whole_next)

section \<open>The drain completes\<close>

lemma server_run_mono: "(server_step d)\<^sup>*\<^sup>* s t \<Longrightarrow> arrived s \<le> arrived t \<and> (shutdown s \<longrightarrow> shutdown t)"
  by (induction rule: rtranclp_induct) (auto dest: server_step_counts(1,2))

text \<open>A run of the streams in which no request arrives is a run of the whole.\<close>

lemma streams_run_lifts:
  assumes "(server_step d)\<^sup>*\<^sup>* (w_streams w) t" "arrived t = arrived (w_streams w)" "shutdown (w_streams w)"
  shows "\<exists>v. (whole_step d)\<^sup>*\<^sup>* w v \<and> w_streams v = t \<and> w_others v = w_others w \<and> phase (w_life v) = phase (w_life w)"
  using assms(1,2)
proof (induction rule: rtranclp_induct)
  case base
  then show ?case by blast
next
  case (step s t)
  have "arrived (w_streams w) \<le> arrived s" "shutdown s" using server_run_mono [OF step(1)] assms(3) by blast+
  moreover have "arrived s \<le> arrived t" "shutdown s \<Longrightarrow> shutdown t" by (rule server_step_counts [OF step(2)])+
  ultimately have e: "arrived s = arrived (w_streams w)" "arrived t = arrived s" "shutdown t = shutdown s" using step.prems by simp_all
  then obtain v where v: "(whole_step d)\<^sup>*\<^sup>* w v" "w_streams v = s" "w_others v = w_others w" "phase (w_life v) = phase (w_life w)"
    using step.IH by blast
  let ?v' = "v\<lparr>w_streams := t, w_life := (w_life v)\<lparr>in_flight := in_flight (w_life v) - (open_count (w_streams v) - open_count t)\<rparr>\<rparr>"
  have "whole_step d v ?v'" by (rule w_stream_moves) (use step(2) v(2) e(2,3) in simp_all)
  with v(1) have "(whole_step d)\<^sup>*\<^sup>* w ?v'" by simp
  then show ?case using v(3,4) by (intro exI [of _ ?v']) simp
qed

lemma others_finish:
  "\<exists>v. (whole_step d)\<^sup>*\<^sup>* w v \<and> w_streams v = w_streams w \<and> w_others v = 0 \<and> phase (w_life v) = phase (w_life w)"
proof (induction "w_others w" arbitrary: w)
  case 0
  then show ?case by (intro exI [of _ w]) simp
next
  case (Suc k)
  let ?u = "w\<lparr>w_life := (w_life w)\<lparr>in_flight := in_flight (w_life w) - 1\<rparr>, w_others := w_others w - 1\<rparr>"
  have "whole_step d w ?u" by (rule w_finishes) (use Suc(2) in simp)
  moreover have "k = w_others ?u" using Suc(2) by simp
  from Suc(1) [OF this] obtain v where "(whole_step d)\<^sup>*\<^sup>* ?u v" "w_streams v = w_streams w" "w_others v = 0" "phase (w_life v) = phase (w_life w)"
    by auto
  ultimately show ?case by (meson converse_rtranclp_into_rtranclp)
qed

lemma drain_can_complete:
  assumes "whole_reach d mx per w" "phase (w_life w) = Draining"
  shows "\<exists>v. (whole_step d)\<^sup>*\<^sup>* w v \<and> phase (w_life v) = Drained None"
proof -
  have inv: "whole_inv d mx per w" by (rule whole_reach_inv [OF assms(1)])
  have sh: "shutdown (w_streams w)"
    using inv life_inv_parts(1) [OF lived_inv [of "w_life w"]] assms(2) by (simp add: whole_inv_def)
  have sr: "server_reach d mx per (w_streams w)" using inv by (simp add: whole_inv_def)
  obtain t where t: "(server_step d)\<^sup>*\<^sup>* (w_streams w) t" "arrived t = arrived (w_streams w)" "total (limiter t) = 0"
    using streams_drained [OF sr sh] by blast
  obtain u where u: "(whole_step d)\<^sup>*\<^sup>* w u" "w_streams u = t" "phase (w_life u) = Draining"
    using streams_run_lifts [OF t(1,2) sh] assms(2) by auto
  obtain v where v: "(whole_step d)\<^sup>*\<^sup>* u v" "w_streams v = t" "w_others v = 0" "phase (w_life v) = Draining"
    using others_finish [of d u] u(2,3) by auto
  have r: "(whole_step d)\<^sup>*\<^sup>* w v" using u(1) v(1) by simp
  then have vi: "whole_inv d mx per v" using whole_reach_inv [OF whole_runs.run_possible [OF assms(1)]] by blast
  then have "open_count t = 0" using limiter_facts(1) [of d mx per t] t(3) v(2) by (simp add: whole_inv_def open_count_def)
  then have f: "in_flight (w_life v) = 0" using vi v(2,3) by (simp add: whole_inv_def)
  let ?x = "v\<lparr>w_life := (w_life v)\<lparr>phase := Drained None\<rparr>\<rparr>"
  have "whole_step d v ?x" by (rule w_life_moves) (use life_step.drained [OF v(4) f] in simp_all)
  with r show ?thesis by (intro exI [of _ ?x]) simp
qed

section \<open>Fair runs\<close>

text \<open>
  What is assumed of a run of the process: the scheduler runs every goroutine that can go on, a select whose drain case stays ready
  takes it in the end, an ordinary request ends in the end, and the drain notices that nothing is left. Each is weak fairness of the steps of one kind:
  the drain case of stream i's select, with exactly its effect; a step of stream i after its loop; the end of an ordinary
  request, or its turning into a stream; the end of the wait in Shutdown.
\<close>

definition stream_of :: "whole \<Rightarrow> nat \<Rightarrow> sse" where
  "stream_of w i = en_state (streams (w_streams w) ! i)"

definition drain_taken :: "'r stream_deps \<Rightarrow> nat \<Rightarrow> whole \<Rightarrow> whole \<Rightarrow> bool" where
  "drain_taken d i w v \<longleftrightarrow> i < length (streams (w_streams w)) \<and>
     (let s = stream_of w i in
      handler s = Waiting \<and> stream_of v i = s\<lparr>handler := Closing, refusal := Some shutting_down\<rparr> \<or>
      handler s = Loop \<and> stream_of v i = s\<lparr>handler := Closing, out := out s @ end_frame (entry_env d (streams (w_streams w) ! i))\<rparr>)"

definition past_loop :: "handler \<Rightarrow> bool" where
  "past_loop h \<longleftrightarrow> h \<noteq> Waiting \<and> h \<noteq> Loop"

definition stream_ends :: "nat \<Rightarrow> whole \<Rightarrow> whole \<Rightarrow> bool" where
  "stream_ends i w v \<longleftrightarrow> i < length (streams (w_streams w)) \<and> past_loop (handler (stream_of w i)) \<and>
     handler (stream_of w i) \<noteq> Finished \<and> stream_of v i \<noteq> stream_of w i"

definition request_ends :: "whole \<Rightarrow> whole \<Rightarrow> bool" where
  "request_ends w v \<longleftrightarrow> w_others v < w_others w"

definition wait_ends :: "whole \<Rightarrow> whole \<Rightarrow> bool" where
  "wait_ends w v \<longleftrightarrow> phase (w_life w) = Draining \<and> phase (w_life v) = Drained None"

definition fair_run :: "'r stream_deps \<Rightarrow> (nat \<Rightarrow> whole) \<Rightarrow> bool" where
  "fair_run d \<rho> \<longleftrightarrow> runs (whole_step d) \<rho> \<and>
     (\<forall>i. weakly_fair (whole_step d) (drain_taken d i) \<rho> \<and> weakly_fair (whole_step d) (stream_ends i) \<rho>) \<and>
     weakly_fair (whole_step d) request_ends \<rho> \<and> weakly_fair (whole_step d) wait_ends \<rho>"

subsection \<open>A stream after Stop\<close>

definition after_stop :: "'r stream_deps \<Rightarrow> int \<Rightarrow> int \<Rightarrow> whole \<Rightarrow> bool" where
  "after_stop d mx per w \<longleftrightarrow> whole_reach d mx per w \<and> drain_signal (w_life w)"

lemma after_stop_facts:
  assumes "after_stop d mx per w"
  shows "shutdown (w_streams w)" "\<not> listening (w_life w)" "server_reach d mx per (w_streams w)"
    "in_flight (w_life w) = w_others w + open_count (w_streams w)"
    "i < length (streams (w_streams w)) \<Longrightarrow> reach (entry_env d (streams (w_streams w) ! i)) (stream_of w i) \<and> draining (stream_of w i)"
proof -
  have inv: "whole_inv d mx per w" and ds: "drain_signal (w_life w)" using assms whole_reach_inv by (auto simp: after_stop_def)
  then show sh: "shutdown (w_streams w)" and sr: "server_reach d mx per (w_streams w)"
    and "in_flight (w_life w) = w_others w + open_count (w_streams w)" by (simp_all add: whole_inv_def)
  show "\<not> listening (w_life w)" using life_inv_parts(1,3) [OF lived_inv [of "w_life w"]] inv ds by (simp add: whole_inv_def)
  show "i < length (streams (w_streams w)) \<Longrightarrow> reach (entry_env d (streams (w_streams w) ! i)) (stream_of w i) \<and> draining (stream_of w i)"
    using entry_facts [OF sr nth_mem] sh by (simp add: stream_of_def)
qed

lemma after_stop_step: "after_stop d mx per w \<Longrightarrow> whole_step d w v \<Longrightarrow> after_stop d mx per v"
proof -
  assume t: "after_stop d mx per w" and s: "whole_step d w v"
  from s t have "drain_signal (w_life v)" by (cases rule: whole_step.cases) (auto simp: after_stop_def)
  with t s whole_next show ?thesis by (auto simp: after_stop_def)
qed

lemma server_step_stream:
  assumes "server_step d s t" "shutdown s" "i < length (streams s)"
  shows "i < length (streams t)" "entry_env d (streams t ! i) = entry_env d (streams s ! i)"
    "en_state (streams t ! i) = en_state (streams s ! i) \<or> step (entry_env d (streams s ! i)) (en_state (streams s ! i)) (en_state (streams t ! i))"
    "arrived t = arrived s \<Longrightarrow> length (streams t) = length (streams s)"
  using assms by (auto elim!: server_step.cases simp: nth_append nth_list_update)

text \<open>One step of the whole is at most one step of stream i.\<close>

lemma stream_step:
  assumes "after_stop d mx per w" "whole_step d w v" "i < length (streams (w_streams w))"
  shows "i < length (streams (w_streams v))"
    "stream_of v i = stream_of w i \<or> step (entry_env d (streams (w_streams w) ! i)) (stream_of w i) (stream_of v i)"
proof -
  note f = after_stop_facts [OF assms(1)]
  have "w_streams v = w_streams w \<or> server_step d (w_streams w) (w_streams v)"
    using assms(2) by (cases rule: whole_step.cases) (use assms(1) in \<open>auto simp: after_stop_def\<close>)
  then show "i < length (streams (w_streams v))"
    "stream_of v i = stream_of w i \<or> step (entry_env d (streams (w_streams w) ! i)) (stream_of w i) (stream_of v i)"
    using server_step_stream(1,3) [of d "w_streams w" "w_streams v", OF _ f(1) assms(3)] assms(3) unfolding stream_of_def by metis+
qed

lemma stream_can_step:
  assumes "after_stop d mx per w" "i < length (streams (w_streams w))" "step (entry_env d (streams (w_streams w) ! i)) (stream_of w i) t"
    and "draining t = draining (stream_of w i)"
  shows "\<exists>v. whole_step d w v \<and> stream_of v i = t"
proof -
  let ?s = "w_streams w"
  let ?e = "streams ?s ! i"
  let ?t = "?s\<lparr>streams := (streams ?s)[i := ?e\<lparr>en_state := t\<rparr>], limiter := returned ?e t (limiter ?s)\<rparr>"
  have "server_step d ?s ?t" by (rule moves) (use assms(2-4) in \<open>simp_all add: stream_of_def\<close>)
  then have "whole_step d w (w\<lparr>w_streams := ?t, w_life := (w_life w)\<lparr>in_flight := in_flight (w_life w) - (open_count ?s - open_count ?t)\<rparr>\<rparr>)"
    (is "whole_step d w ?v") by (rule w_stream_moves) simp_all
  moreover have "stream_of ?v i = t" by (simp add: stream_of_def assms(2))
  ultimately show ?thesis by blast
qed

lemma past_loop_step: "step env s t \<Longrightarrow> past_loop (handler s) \<Longrightarrow> past_loop (handler t)"
  by (erule stepE) (auto simp: past_loop_def)

definition end_work :: "sse \<Rightarrow> nat" where
  "end_work s = 2 * producer_work (prod s) + (if gone s then 0 else 1) +
     (case handler s of Flushing v \<Rightarrow> 3 + length (frames s) | Closing \<Rightarrow> 2 | Joining \<Rightarrow> 1 | _ \<Rightarrow> 0)"

lemma end_step: "step env s t \<Longrightarrow> draining s \<Longrightarrow> past_loop (handler s) \<Longrightarrow> end_work t < end_work s"
  by (erule stepE) (auto simp: past_loop_def end_work_def split: handler.splits)

subsection \<open>What a fair run comes to\<close>

lemma leaves_loop:
  assumes "fair_run d \<rho>" "after_stop d mx per (\<rho> i)" "k < length (streams (w_streams (\<rho> i)))"
  shows "\<exists>j\<ge>i. past_loop (handler (stream_of (\<rho> j) k))"
proof (rule fair_leaves [where move = "whole_step d" and kind = "drain_taken d k" and \<rho> = \<rho> and i = i
      and P = "\<lambda>w. after_stop d mx per w \<and> k < length (streams (w_streams w))" and Q = "\<lambda>w. past_loop (handler (stream_of w k))"])
  fix s assume s: "after_stop d mx per s \<and> k < length (streams (w_streams s))" "\<not> past_loop (handler (stream_of s k))"
  let ?env = "entry_env d (streams (w_streams s) ! k)" and ?s = "stream_of s k"
  have dr: "draining ?s" using after_stop_facts(5) s(1) by blast
  from s(2) consider "handler ?s = Waiting" | "handler ?s = Loop" by (auto simp: past_loop_def)
  then show "\<exists>t. whole_step d s t \<and> drain_taken d k s t"
  proof cases
    case 1
    with h_wait_drain [of ?s ?env] dr stream_can_step [of d mx per s k "?s\<lparr>handler := Closing, refusal := Some shutting_down\<rparr>"] s(1)
    show ?thesis by (auto simp: drain_taken_def Let_def)
  next
    case 2
    with h_drain [of ?s ?env] dr stream_can_step [of d mx per s k "?s\<lparr>handler := Closing, out := out ?s @ end_frame ?env\<rparr>"] s(1)
    show ?thesis by (auto simp: drain_taken_def Let_def)
  qed
qed (use assms after_stop_step stream_step(1) in \<open>auto simp: fair_run_def drain_taken_def Let_def past_loop_def\<close>)

lemma ends_past_loop:
  assumes "fair_run d \<rho>" "after_stop d mx per (\<rho> i)" "k < length (streams (w_streams (\<rho> i)))" "past_loop (handler (stream_of (\<rho> i) k))"
  shows "\<exists>j\<ge>i. handler (stream_of (\<rho> j) k) = Finished"
proof (rule fair_work_done [where move = "whole_step d" and kind = "stream_ends k" and \<rho> = \<rho> and i = i
      and P = "\<lambda>w. after_stop d mx per w \<and> k < length (streams (w_streams w)) \<and> past_loop (handler (stream_of w k))"
      and Q = "\<lambda>w. handler (stream_of w k) = Finished" and work = "\<lambda>w. end_work (stream_of w k)"])
  fix s assume s: "after_stop d mx per s \<and> k < length (streams (w_streams s)) \<and> past_loop (handler (stream_of s k))"
  note f = after_stop_facts(5) [of d mx per s k]
  show "after_stop d mx per t \<and> k < length (streams (w_streams t)) \<and> past_loop (handler (stream_of t k))" if "whole_step d s t" for t
    using s that after_stop_step stream_step [of d mx per s t k] past_loop_step by metis
  show "end_work (stream_of t k) \<le> end_work (stream_of s k)" if "whole_step d s t" for t
    using s f stream_step(2) [of d mx per s t k] that end_step by fastforce
  show "end_work (stream_of t k) < end_work (stream_of s k)" if "stream_ends k s t" "whole_step d s t \<or> s = t" for t
    using s f stream_step(2) [of d mx per s t k] that end_step by (auto simp: stream_ends_def)
  assume h: "handler (stream_of s k) \<noteq> Finished"
  with unaided_progress f s obtain t where "step (entry_env d (streams (w_streams s) ! k)) (stream_of s k) t"
    "draining t = draining (stream_of s k)" "t \<noteq> stream_of s k" unfolding unaided_def by (metis less_irrefl)
  with stream_can_step [of d mx per s k t] s h show "\<exists>t. whole_step d s t \<and> stream_ends k s t"
    by (auto simp: stream_ends_def)
qed (use assms in \<open>auto simp: fair_run_def\<close>)

lemma stream_finishes:
  assumes "fair_run d \<rho>" "after_stop d mx per (\<rho> i)" "k < length (streams (w_streams (\<rho> i)))"
  shows "\<exists>n. \<forall>m\<ge>n. handler (stream_of (\<rho> m) k) = Finished"
proof -
  have r: "runs (whole_step d) \<rho>" using assms(1) by (simp add: fair_run_def)
  have keep: "after_stop d mx per (\<rho> m) \<and> k < length (streams (w_streams (\<rho> m)))" if "i \<le> m" for m
    by (rule runs_keep [where P = "\<lambda>w. after_stop d mx per w \<and> k < length (streams (w_streams w))", OF r _ _ that])
       (use assms after_stop_step stream_step(1) in auto)
  obtain j where j: "i \<le> j" "past_loop (handler (stream_of (\<rho> j) k))" using leaves_loop [OF assms] by blast
  obtain n where n: "j \<le> n" "handler (stream_of (\<rho> n) k) = Finished" using ends_past_loop [OF assms(1) _ _ j(2)] keep [OF j(1)] by blast
  have "handler (stream_of (\<rho> m) k) = Finished" if "n \<le> m" for m
  proof -
    let ?P = "\<lambda>w. after_stop d mx per w \<and> k < length (streams (w_streams w)) \<and> handler (stream_of w k) = Finished"
    have "?P t" if "?P s" "whole_step d s t" for s t
      using that after_stop_step stream_step [of d mx per s t k] finished_stays by metis
    from runs_keep [where P = ?P, OF r this _ that] keep [of n] n j(1) show ?thesis by simp
  qed
  then show ?thesis by blast
qed

text \<open>The requests that are not streams end, and then no stream is opened any more.\<close>

lemma after_stop_others: "after_stop d mx per w \<Longrightarrow> whole_step d w v \<Longrightarrow> w_others v \<le> w_others w"
  using after_stop_facts(2) [of d mx per w] by (auto elim!: whole_step.cases)

lemma others_end:
  assumes "fair_run d \<rho>" "after_stop d mx per (\<rho> i)"
  shows "\<exists>j\<ge>i. w_others (\<rho> j) = 0"
proof (rule fair_work_done [where move = "whole_step d" and kind = request_ends and \<rho> = \<rho> and i = i
      and P = "after_stop d mx per" and Q = "\<lambda>w. w_others w = 0" and work = w_others])
  fix s :: whole assume "w_others s \<noteq> 0"
  then have "whole_step d s (s\<lparr>w_life := (w_life s)\<lparr>in_flight := in_flight (w_life s) - 1\<rparr>, w_others := w_others s - 1\<rparr>)"
    by (intro w_finishes) simp
  moreover have "request_ends s (s\<lparr>w_life := (w_life s)\<lparr>in_flight := in_flight (w_life s) - 1\<rparr>, w_others := w_others s - 1\<rparr>)"
    using \<open>w_others s \<noteq> 0\<close> by (simp add: request_ends_def)
  ultimately show "\<exists>t. whole_step d s t \<and> request_ends s t" by blast
qed (use assms after_stop_step after_stop_others in \<open>auto simp: fair_run_def request_ends_def\<close>)

lemma no_more_streams:
  assumes "after_stop d mx per w" "w_others w = 0" "whole_step d w v"
  shows "w_others v = 0 \<and> length (streams (w_streams v)) = length (streams (w_streams w))"
proof -
  have "length (streams (w_streams v)) = length (streams (w_streams w))"
    using assms(3)
  proof (cases rule: whole_step.cases)
    case (w_stream_moves s)
    then show ?thesis by (auto elim!: server_step.cases)
  qed (use assms(1,2) in \<open>auto simp: after_stop_def\<close>)
  with after_stop_others [OF assms(1,3)] assms(2) show ?thesis by simp
qed

definition settled :: "whole \<Rightarrow> bool" where
  "settled w \<longleftrightarrow> in_flight (w_life w) = 0 \<and> total (limiter (w_streams w)) = 0 \<and>
     (\<forall>e\<in>set (streams (w_streams w)). handler (en_state e) = Finished)"

lemma run_after_stop:
  assumes "fair_run d \<rho>" "after_stop d mx per (\<rho> 0)"
  shows "after_stop d mx per (\<rho> m)"
proof -
  have r: "runs (whole_step d) \<rho>" using assms(1) by (simp add: fair_run_def)
  show ?thesis by (rule runs_keep [where P = "after_stop d mx per" and move = "whole_step d", OF r after_stop_step assms(2)]) simp_all
qed

lemma run_settles:
  assumes "fair_run d \<rho>" "after_stop d mx per (\<rho> 0)"
  shows "\<exists>n. \<forall>m\<ge>n. settled (\<rho> m)"
proof -
  have r: "runs (whole_step d) \<rho>" using assms(1) by (simp add: fair_run_def)
  obtain j where j: "w_others (\<rho> j) = 0" using others_end [OF assms] by blast
  have t: "after_stop d mx per (\<rho> m)" for m by (rule run_after_stop [OF assms])
  let ?l = "length (streams (w_streams (\<rho> j)))"
  have z: "w_others (\<rho> m) = 0 \<and> length (streams (w_streams (\<rho> m))) = ?l" if "j \<le> m" for m
  proof -
    let ?P = "\<lambda>w. after_stop d mx per w \<and> w_others w = 0 \<and> length (streams (w_streams w)) = ?l"
    have "?P t" if "?P s" "whole_step d s t" for s t
      using that after_stop_step [of d mx per s t] no_more_streams [of d mx per s t] by simp
    from runs_keep [where P = ?P, OF r this _ that] t j show ?thesis by simp
  qed
  obtain n where n: "\<forall>m\<ge>n. \<forall>k<?l. handler (stream_of (\<rho> m) k) = Finished"
    using all_in_the_end [of ?l "\<lambda>k m. handler (stream_of (\<rho> m) k) = Finished"] stream_finishes [OF assms(1) t [of j]] by blast
  have "settled (\<rho> m)" if "max n j \<le> m" for m
  proof -
    have "\<forall>e\<in>set (streams (w_streams (\<rho> m))). handler (en_state e) = Finished"
      using n z [of m] that by (auto simp: in_set_conv_nth stream_of_def)
    moreover from this have "open_entries (w_streams (\<rho> m)) = []"
      using entry_facts(4) [OF after_stop_facts(3) [OF t [of m]]] by (auto simp: open_entries_def filter_empty_conv)
    ultimately show ?thesis
      using limiter_facts(1) [OF after_stop_facts(3) [OF t [of m]]] after_stop_facts(4) [OF t [of m]] z [of m] that
      by (simp add: settled_def open_count_def)
  qed
  then show ?thesis by blast
qed

lemma draining_next: "whole_step d w v \<Longrightarrow> phase (w_life w) = Draining \<Longrightarrow> phase (w_life v) = Draining \<or> (\<exists>x. phase (w_life v) = Drained x)"
  by (auto elim!: whole_step.cases life_stepE simp: ask_exit_def blame_def)

lemma wait_over:
  assumes "fair_run d \<rho>" "after_stop d mx per (\<rho> 0)" "phase (w_life (\<rho> 0)) = Draining"
  shows "\<exists>n x. phase (w_life (\<rho> n)) = Drained x"
proof (rule ccontr)
  assume never: "\<nexists>n x. phase (w_life (\<rho> n)) = Drained x"
  have dr: "phase (w_life (\<rho> m)) = Draining" for m
  proof (induction m)
    case (Suc m)
    with assms(1) draining_next never show ?case unfolding fair_run_def runs_def by metis
  qed (rule assms(3))
  obtain n where n: "\<forall>m\<ge>n. settled (\<rho> m)" using run_settles [OF assms(1,2)] by blast
  have "\<exists>t. whole_step d (\<rho> m) t \<and> wait_ends (\<rho> m) t" if "n \<le> m" for m
  proof -
    let ?x = "(\<rho> m)\<lparr>w_life := (w_life (\<rho> m))\<lparr>phase := Drained None\<rparr>\<rparr>"
    have "life_step (w_life (\<rho> m)) ((w_life (\<rho> m))\<lparr>phase := Drained None\<rparr>)"
      by (rule life_step.drained [OF dr]) (use n that in \<open>simp add: settled_def\<close>)
    then have "whole_step d (\<rho> m) ?x" by (rule w_life_moves) simp_all
    moreover have "wait_ends (\<rho> m) ?x" using dr by (simp add: wait_ends_def)
    ultimately show ?thesis by blast
  qed
  then obtain j where "wait_ends (\<rho> j) (\<rho> (Suc j))" using assms(1) unfolding fair_run_def weakly_fair_def by blast
  with never show False by (auto simp: wait_ends_def)
qed

section \<open>A drain with an open stream\<close>

definition demo_whole :: whole where
  "demo_whole = \<lparr>w_life = (start_hook [] None new_life)\<lparr>in_flight := 1\<rparr>, w_streams = new_server 1 1, w_others = 1\<rparr>"

lemma demo_whole_reach: "whole_reach demo_streams 1 1 demo_whole"
proof -
  let ?a = "(new_whole 1 1)\<lparr>w_life := start_hook [] None new_life\<rparr>"
  let ?b = "?a\<lparr>w_life := (w_life ?a)\<lparr>in_flight := in_flight (w_life ?a) + 1\<rparr>, w_others := w_others ?a + 1\<rparr>"
  have "whole_step demo_streams (new_whole 1 1) ?a"
    by (rule w_life_moves) (use life_step.start [of new_life "[]" None] in \<open>simp_all add: new_whole_def new_life_def start_hook_def\<close>)
  moreover have "whole_step demo_streams ?a ?b" by (rule w_accepts) (simp_all add: start_hook_def)
  moreover have "?b = demo_whole" by (simp add: demo_whole_def new_whole_def start_hook_def new_life_def)
  ultimately show ?thesis using whole_new whole_next by metis
qed

lemma demo_draining:
  "\<exists>w. whole_reach demo_streams 1 1 w \<and> phase (w_life w) = Draining \<and> total (limiter (w_streams w)) = 1"
proof -
  let ?l = "w_life demo_whole"
  let ?a = "demo_whole\<lparr>w_streams := demo_server, w_others := w_others demo_whole - 1\<rparr>"
  let ?l1 = "ask_exit 0 (blame Signalled ?l)"
  let ?l2 = "?l1\<lparr>phase := Withdrawn, ready := stop (ready ?l1)\<rparr>"
  let ?l3 = "(Stop ?l2)\<lparr>phase := Draining\<rparr>"
  have up: "phase ?l = Up" "\<not> drain_signal ?l" "drain_once ?l = False" "exit_code ?l = None"
    by (simp_all add: demo_whole_def start_hook_def new_life_def)
  have "whole_step demo_streams demo_whole ?a"
    by (rule w_opens) (use demo_server_step in \<open>simp_all add: demo_whole_def open_count_def open_entries_def demo_server_def new_server_def opened_entry_def sse_init_def\<close>)
  then have a: "whole_reach demo_streams 1 1 ?a" using demo_whole_reach whole_next by blast
  have "whole_step demo_streams ?a (?a\<lparr>w_life := ?l1\<rparr>)"
    by (rule w_life_moves) (use life_step.signal [OF up(1)] in \<open>simp_all add: ask_exit_def blame_def\<close>)
  then have b: "whole_reach demo_streams 1 1 (?a\<lparr>w_life := ?l1\<rparr>)" using a whole_next by blast
  have "whole_step demo_streams (?a\<lparr>w_life := ?l1\<rparr>) (?a\<lparr>w_life := ?l2\<rparr>)"
    using w_life_moves [of "?a\<lparr>w_life := ?l1\<rparr>" ?l2 demo_streams] life_step.withdraw [of ?l1] up by (simp add: ask_exit_def blame_def)
  then have c: "whole_reach demo_streams 1 1 (?a\<lparr>w_life := ?l2\<rparr>)" using b whole_next by blast
  have "whole_step demo_streams (?a\<lparr>w_life := ?l2\<rparr>) (?a\<lparr>w_life := ?l3, w_streams := drain_streams demo_server\<rparr>)"
    using w_drains [of "?a\<lparr>w_life := ?l2\<rparr>" ?l3 demo_streams] life_step.drain [of ?l2] up
    by (simp add: ask_exit_def blame_def Stop_def close_draining_def)
  with c have "whole_reach demo_streams 1 1 (?a\<lparr>w_life := ?l3, w_streams := drain_streams demo_server\<rparr>)" using whole_next by blast
  then show ?thesis by (intro exI [of _ "?a\<lparr>w_life := ?l3, w_streams := drain_streams demo_server\<rparr>"]) (simp add: drain_streams_def demo_server_def)
qed

lemma regular_end_settled:
  assumes "whole_reach d mx per w" "phase (w_life w) = Drained None \<or> phase (w_life w) = Down None"
  shows "settled w" "w_others w = 0"
proof -
  have inv: "whole_inv d mx per w" by (rule whole_reach_inv [OF assms(1)])
  then have sr: "server_reach d mx per (w_streams w)" by (simp add: whole_inv_def)
  have f: "in_flight (w_life w) = 0" using life_inv_parts(4) [OF lived_inv] inv assms(2) by (auto simp: whole_inv_def)
  then have z: "w_others w = 0" "open_count (w_streams w) = 0" using inv by (simp_all add: whole_inv_def)
  then have "\<forall>e\<in>set (streams (w_streams w)). \<not> slot (en_state e)"
    by (auto simp: open_count_def open_entries_def filter_empty_conv)
  then show "settled w" using f z limiter_facts(1) [OF sr] entry_facts(4) [OF sr] by (simp add: settled_def open_count_def)
  show "w_others w = 0" by (rule z(1))
qed

text \<open>The drain with one open stream, which then rests: nothing that fairness speaks of is possible any more.\<close>

lemma demo_fair_run:
  "\<exists>\<rho>. whole_reach demo_streams 1 1 (\<rho> 0) \<and> phase (w_life (\<rho> 0)) = Draining \<and> total (limiter (w_streams (\<rho> 0))) = 1 \<and> fair_run demo_streams \<rho>"
proof -
  obtain w where w: "whole_reach demo_streams 1 1 w" "phase (w_life w) = Draining" "total (limiter (w_streams w)) = 1"
    using demo_draining by blast
  obtain v where v: "(whole_step demo_streams)\<^sup>*\<^sup>* w v" "phase (w_life v) = Drained None" using drain_can_complete [OF w(1,2)] by blast
  obtain \<rho> n where r: "\<rho> 0 = w" "runs (whole_step demo_streams) \<rho>" "\<forall>m\<ge>n. \<rho> m = v" using rest_run [OF v(1)] by blast
  have "settled v" "w_others v = 0" using regular_end_settled [OF whole_runs.run_possible [OF w(1) v(1)]] v(2) by simp_all
  then have "\<not> drain_taken demo_streams i v u" "\<not> stream_ends i v u" "\<not> request_ends v u" "\<not> wait_ends v u" for i u
    using v(2) by (auto simp: drain_taken_def stream_ends_def request_ends_def wait_ends_def settled_def stream_of_def Let_def)
  then have "fair_run demo_streams \<rho>" unfolding fair_run_def using r(2) by (intro conjI allI rest_fair [OF r(3)]) blast+
  with w r(1) show ?thesis by blast
qed

section \<open>Properties\<close>

text \<open>
  C6. The drain of the server. Every fair run of a draining process comes to a state from which on no request is in flight, no slot of the
  limiter is taken and every stream's handler has finished, whatever streams were open and whatever Control sends on them: fair is a run in which
  no goroutine that can go on stands still for ever, in particular a select whose drain case stays ready takes it. The drain itself
  ends, regularly or at its bound; every open stream has been told at once; and when it
  ends regularly everything is settled, in that state and in the final one.
\<close>

theorem drain_is_regular:
  assumes "whole_reach d mx per (\<rho> 0)" "phase (w_life (\<rho> 0)) = Draining" "fair_run d \<rho>"
  shows "(\<exists>n. \<forall>m\<ge>n. settled (\<rho> m))
    \<and> (\<exists>n x. phase (w_life (\<rho> n)) = Drained x)
    \<and> (\<forall>e\<in>set (streams (w_streams (\<rho> n))). draining (en_state e))
    \<and> (phase (w_life (\<rho> n)) = Drained None \<or> phase (w_life (\<rho> n)) = Down None \<longrightarrow> settled (\<rho> n))"
proof -
  have "drain_signal (w_life (\<rho> 0))"
    using life_inv_parts(1) [OF lived_inv [of "w_life (\<rho> 0)"]] whole_reach_inv [OF assms(1)] assms(2) by (simp add: whole_inv_def)
  then have t0: "after_stop d mx per (\<rho> 0)" using assms(1) by (simp add: after_stop_def)
  note tn = run_after_stop [OF assms(3) t0, of n]
  have "\<forall>e\<in>set (streams (w_streams (\<rho> n))). draining (en_state e)"
    using entry_facts(3) [OF after_stop_facts(3) [OF tn]] after_stop_facts(1) [OF tn] by simp
  then show ?thesis using run_settles [OF assms(3) t0] wait_over [OF assms(3) t0 assms(2)]
      regular_end_settled(1) [of d mx per "\<rho> n"] tn by (simp add: after_stop_def)
qed

theorem drain_is_regular_witness:
  "\<exists>\<rho> n. whole_reach demo_streams 1 1 (\<rho> 0) \<and> total (limiter (w_streams (\<rho> 0))) = 1 \<and> fair_run demo_streams \<rho> \<and> settled (\<rho> n)"
proof -
  obtain \<rho> where r: "whole_reach demo_streams 1 1 (\<rho> 0)" "phase (w_life (\<rho> 0)) = Draining" "total (limiter (w_streams (\<rho> 0))) = 1"
    "fair_run demo_streams \<rho>" using demo_fair_run by blast
  with drain_is_regular [OF r(1,2,4)] show ?thesis by blast
qed

end
