(* ===== verification/Resume.thy ===== *)
theory Resume
  imports Stream_Safety
begin

text \<open>
  Reading an operation's events over many connections. The comments of internal/transport/http/sse.go promise that a client
  whose stream ended resumes from its last event id and loses nothing. Here a reader opens one
  connection after another (streamEvents, the relation \<open>reach\<close>), each with the identifier of the last event it
  got, and each connection may end anywhere: its frames are those the client received.

  Documented behaviour of Control (the Control port in internal/application/principal.go): after a cursor it sends the
  committed events behind that cursor, in order, as many as it comes to; \<open>evlog\<close> is the committed events.
  Documented behaviour of an SSE client: it takes a frame's id field as the last event id (\<open>read_id\<close>).
\<close>

section \<open>The committed events\<close>

definition log_ok :: "owner_event list \<Rightarrow> bool" where
  "log_ok evlog \<longleftrightarrow> distinct (map EvEventSeq evlog) \<and> (\<forall>ev\<in>set evlog. matches sequencePattern (EvEventSeq ev))"

definition since :: "owner_event list \<Rightarrow> string \<Rightarrow> owner_event list" where
  "since evlog cursor = (if cursor = [] then evlog else tl (dropWhile (\<lambda>ev. EvEventSeq ev \<noteq> cursor) evlog))"

definition honours :: "owner_event list \<Rightarrow> string \<Rightarrow> owner_script \<Rightarrow> bool" where
  "honours evlog cursor scr \<longleftrightarrow> prefix (msgs scr) (since evlog cursor)"

text \<open>The frame of an event on the wire.\<close>

definition wire_frame :: "(sse_event \<Rightarrow> string option) \<Rightarrow> owner_event \<Rightarrow> string" where
  "wire_frame enc ev = (case encodeFrame enc (to_frame ev) of Some b \<Rightarrow> b | None \<Rightarrow> [])"

definition reads :: "(sse_event \<Rightarrow> string option) \<Rightarrow> (string \<Rightarrow> string) \<Rightarrow> bool" where
  "reads enc read_id \<longleftrightarrow> (\<forall>ev b. enc ev = Some b \<longrightarrow> read_id b = SseId ev)"

section \<open>The reader\<close>

text \<open>
  \<open>reader fs cursor\<close>: the frames received so far and the last event id. A connection is opened with that id
  as Last-Event-ID and no after parameter; \<open>ws\<close> is what arrived of its events.
\<close>

inductive reader :: "owner_event list \<Rightarrow> (sse_event \<Rightarrow> string option) \<Rightarrow> (string \<Rightarrow> string) \<Rightarrow> string list \<Rightarrow> string \<Rightarrow> bool"
  for evlog enc read_id where
  reader_new: "reader evlog enc read_id [] []"
| reader_connects: "reader evlog enc read_id fs cursor \<Longrightarrow> bindCursor [] cursor = Inr sent_cursor \<Longrightarrow>
    encoder env = enc \<Longrightarrow> honours evlog sent_cursor (script env) \<Longrightarrow> reach env s \<Longrightarrow> prefix ws (events (out s)) \<Longrightarrow>
    reader evlog enc read_id (fs @ ws) (if ws = [] then cursor else read_id (last ws))"

section \<open>A cursor stands for the events before it\<close>

definition cursor_at :: "owner_event list \<Rightarrow> nat \<Rightarrow> string" where
  "cursor_at evlog k = (if k = 0 then [] else EvEventSeq (evlog ! (k - 1)))"

lemma log_nonempty: "log_ok evlog \<Longrightarrow> k < length evlog \<Longrightarrow> EvEventSeq (evlog ! k) \<noteq> []"
proof -
  assume "log_ok evlog" "k < length evlog"
  then have "matches sequencePattern (EvEventSeq (evlog ! k))" by (simp add: log_ok_def)
  then show ?thesis by (auto simp: matches_sequence)
qed

lemma since_cursor: "log_ok evlog \<Longrightarrow> k \<le> length evlog \<Longrightarrow> since evlog (cursor_at evlog k) = drop k evlog"
proof (cases k)
  case (Suc j)
  assume ok: "log_ok evlog" and k: "k \<le> length evlog"
  with Suc have j: "j < length evlog" by simp
  have "evlog = take j evlog @ evlog ! j # drop k evlog" using id_take_nth_drop [OF j] Suc by simp
  moreover have "\<forall>ev\<in>set (take j evlog). EvEventSeq ev \<noteq> EvEventSeq (evlog ! j)"
    using ok j by (auto simp: log_ok_def in_set_conv_nth distinct_conv_nth)
  ultimately have "dropWhile (\<lambda>ev. EvEventSeq ev \<noteq> EvEventSeq (evlog ! j)) evlog = evlog ! j # drop k evlog"
    by (smt (verit, best) dropWhile.simps(2) dropWhile_append2)
  with Suc show ?thesis using log_nonempty [OF ok j] by (simp add: since_def cursor_at_def)
qed (simp add: since_def cursor_at_def)

lemma cursor_accepted: "log_ok evlog \<Longrightarrow> k \<le> length evlog \<Longrightarrow> bindCursor [] (cursor_at evlog k) = Inr (cursor_at evlog k)"
  by (auto simp: bindCursor_def cursor_at_def log_ok_def)

section \<open>What a connection carries\<close>

lemma plan_msgs: "plan env = [] \<or> plan env = Admit # map (Emit \<circ> to_frame) (msgs (script env))"
  using actions_cases [of "script env"] by (auto simp: plan_def)

lemma encoded_wire:
  "\<exists>n. n \<le> length ms \<and> encoded env (map (Emit \<circ> to_frame) ms) = map (wire_frame (encoder env)) (take n ms)
     \<and> (\<forall>ev\<in>set (take n ms). encodeFrame (encoder env) (to_frame ev) \<noteq> None)"
proof (induction ms)
  case (Cons m ms)
  then obtain n where n: "n \<le> length ms" "encoded env (map (Emit \<circ> to_frame) ms) = map (wire_frame (encoder env)) (take n ms)"
    "\<forall>ev\<in>set (take n ms). encodeFrame (encoder env) (to_frame ev) \<noteq> None" by blast
  show ?case
  proof (cases "encodeFrame (encoder env) (to_frame m)")
    case None
    then show ?thesis by (intro exI [of _ 0]) simp
  next
    case (Some b)
    then have "wire_frame (encoder env) m = b" by (simp add: wire_frame_def)
    with n Some show ?thesis by (intro exI [of _ "Suc n"]) (simp add: comp_def)
  qed
qed simp

lemma frame_id:
  assumes "reads enc read_id" "encodeFrame enc (to_frame ev) \<noteq> None"
  shows "read_id (wire_frame enc ev) = EvEventSeq ev"
proof -
  obtain payload where "marshal_event enc (EventSeq (to_frame ev)) (EventType (to_frame ev)) (frame_payload (to_frame ev))
      = enc \<lparr>SseId = EventSeq (to_frame ev), SseEvent = EventType (to_frame ev), SseData = payload\<rparr>"
    using marshal_event_strings [OF numbers_ok_payload] by blast
  then have "encodeFrame enc (to_frame ev) = enc \<lparr>SseId = EventSeq (to_frame ev), SseEvent = EventType (to_frame ev), SseData = payload\<rparr>"
    by (simp add: encodeFrame_def)
  with assms show ?thesis by (auto simp: reads_def wire_frame_def to_frame_def Let_def)
qed

text \<open>What arrives of a connection opened behind the first k events.\<close>

lemma connection_carries:
  assumes "log_ok evlog" "k \<le> length evlog" "honours evlog (cursor_at evlog k) (script env)" "reach env s" "prefix ws (events (out s))"
  shows "\<exists>j. k + j \<le> length evlog \<and> ws = map (wire_frame (encoder env)) (take j (drop k evlog))
    \<and> (\<forall>ev\<in>set (take j (drop k evlog)). encodeFrame (encoder env) (to_frame ev) \<noteq> None)"
proof -
  have "prefix ws (encoded env (plan env))" using wire_prefix [OF assms(4)] assms(5) by (rule prefix_order.trans [rotated])
  moreover have "encoded env (plan env) = [] \<or> encoded env (plan env) = encoded env (map (Emit \<circ> to_frame) (msgs (script env)))"
    using plan_msgs [of env] by auto
  ultimately have "prefix ws (encoded env (map (Emit \<circ> to_frame) (msgs (script env))))" by auto
  then obtain n where n: "prefix ws (map (wire_frame (encoder env)) (take n (msgs (script env))))"
    "\<forall>ev\<in>set (take n (msgs (script env))). encodeFrame (encoder env) (to_frame ev) \<noteq> None" "n \<le> length (msgs (script env))"
    using encoded_wire [of "msgs (script env)" env] by auto
  let ?j = "length ws"
  have j: "?j \<le> n" using prefix_length_le [OF n(1)] n(3) by simp
  have m: "prefix (msgs (script env)) (drop k evlog)"
    using assms(3) since_cursor [OF assms(1,2)] by (simp add: honours_def)
  then obtain zs where z: "drop k evlog = msgs (script env) @ zs" by (auto simp: prefix_def)
  have t: "take ?j (drop k evlog) = take ?j (msgs (script env))" using z j n(3) by simp
  have "ws = take ?j (map (wire_frame (encoder env)) (take n (msgs (script env))))" using n(1) by (auto simp: prefix_def)
  then have "ws = map (wire_frame (encoder env)) (take ?j (drop k evlog))"
    using j t by (simp add: take_map min_def)
  moreover have "set (take ?j (drop k evlog)) \<subseteq> set (take n (msgs (script env)))" using t set_take_subset_set_take [OF j] by simp
  moreover have "k + ?j \<le> length evlog" using j n(3) prefix_length_le [OF m] assms(2) by simp
  ultimately show ?thesis using n(2) by (intro exI [of _ ?j]) blast
qed

lemma connection_moves:
  assumes "log_ok evlog" "k \<le> length evlog" "honours evlog (cursor_at evlog k) (script env)" "reach env s" "prefix ws (events (out s))"
    and "reads (encoder env) read_id"
  shows "\<exists>j. k + j \<le> length evlog \<and> map (wire_frame (encoder env)) (take k evlog) @ ws = map (wire_frame (encoder env)) (take (k + j) evlog)
    \<and> (if ws = [] then cursor_at evlog k else read_id (last ws)) = cursor_at evlog (k + j)"
proof -
  from connection_carries [OF assms(1-5)] obtain j where j: "k + j \<le> length evlog"
    "ws = map (wire_frame (encoder env)) (take j (drop k evlog))"
    "\<forall>ev\<in>set (take j (drop k evlog)). encodeFrame (encoder env) (to_frame ev) \<noteq> None" by blast
  have "map (wire_frame (encoder env)) (take k evlog) @ ws = map (wire_frame (encoder env)) (take (k + j) evlog)"
    using j(2) by (simp add: take_add)
  moreover have "(if ws = [] then cursor_at evlog k else read_id (last ws)) = cursor_at evlog (k + j)"
  proof (cases j)
    case 0
    then show ?thesis using j(2) by simp
  next
    case (Suc i)
    let ?ev = "evlog ! (k + i)"
    have t: "take j (drop k evlog) = take i (drop k evlog) @ [?ev]"
      using j(1) Suc by (simp add: take_Suc_conv_app_nth)
    then have "last ws = wire_frame (encoder env) ?ev" "ws \<noteq> []" "encodeFrame (encoder env) (to_frame ?ev) \<noteq> None"
      using j(2,3) by simp_all
    then show ?thesis using frame_id [OF assms(6)] Suc by (simp add: cursor_at_def)
  qed
  ultimately show ?thesis using j(1) by blast
qed

lemma reader_position:
  assumes "reader evlog enc read_id fs cursor" "log_ok evlog" "reads enc read_id"
  shows "\<exists>k\<le>length evlog. fs = map (wire_frame enc) (take k evlog) \<and> cursor = cursor_at evlog k"
  using assms(1)
proof (induction rule: reader.induct)
  case reader_new
  then show ?case by (intro exI [of _ 0]) (simp add: cursor_at_def)
next
  case (reader_connects fs cursor sent_cursor env s ws)
  then obtain k where k: "k \<le> length evlog" "fs = map (wire_frame enc) (take k evlog)" "cursor = cursor_at evlog k" by blast
  have "sent_cursor = cursor" using reader_connects.hyps(2) k cursor_accepted [OF assms(2)] by simp
  with reader_connects.hyps(3,4) k(3) assms(3)
  have h: "honours evlog (cursor_at evlog k) (script env)" "reads (encoder env) read_id" by simp_all
  from connection_moves [OF assms(2) k(1) h(1) reader_connects.hyps(5,6) h(2)] obtain j where
    "k + j \<le> length evlog" "fs @ ws = map (wire_frame enc) (take (k + j) evlog)"
    "(if ws = [] then cursor else read_id (last ws)) = cursor_at evlog (k + j)"
    using k(2,3) reader_connects.hyps(3) by auto
  then show ?case by blast
qed

text \<open>A clean end after everything was flushed.\<close>

lemma clean_end_delivers:
  assumes "Admit \<in> set (plan env)" "reach env s" "handler s = Flushing None" "frames s = []"
  shows "events (out s) = map (wire_frame (encoder env)) (msgs (script env))"
proof -
  have p: "plan env = Admit # map (Emit \<circ> to_frame) (msgs (script env))" using plan_msgs [of env] assms(1) by auto
  note f = flushed_complete [OF assms(2-4)]
  have "encoded env (map (Emit \<circ> to_frame) ms) = map (wire_frame (encoder env)) ms"
    if "list_all (encodable env) (map (Emit \<circ> to_frame) ms)" for ms
    using that by (induction ms) (auto simp: wire_frame_def comp_def)
  with f p show ?thesis by auto
qed

text \<open>
  An after parameter wins over Last-Event-ID: a client that reconnects to the address it first opened, with the parameter in it,
  is served from there again.
\<close>

lemma after_pins_cursor:
  "matches sequencePattern after_q \<Longrightarrow> cursor = [] \<or> matches sequencePattern cursor \<Longrightarrow> bindCursor after_q cursor = Inr after_q"
  by (auto simp: bindCursor_def matches_sequence)

section \<open>Properties\<close>

text \<open>
  C4. A reader that resumes with its last event id loses nothing, repeats nothing and reorders nothing: however many connections
  it needs and wherever each of them ends, what it received is a prefix of the committed events'
  frames; its cursor is always accepted and stands for exactly the events behind it; and one
  connection that Control serves to its end gives it all that is missing.
\<close>

theorem resumed_reader_loses_nothing:
  assumes "reader evlog enc read_id fs cursor" "log_ok evlog" "reads enc read_id"
  shows "prefix fs (map (wire_frame enc) evlog) \<and> bindCursor [] cursor = Inr cursor
    \<and> since evlog cursor = drop (length fs) evlog
    \<and> (\<forall>env s. encoder env = enc \<and> msgs (script env) = since evlog cursor \<and> Admit \<in> set (plan env) \<and> reach env s
         \<and> handler s = Flushing None \<and> frames s = [] \<longrightarrow> fs @ events (out s) = map (wire_frame enc) evlog)"
proof -
  from reader_position [OF assms] obtain k where k: "k \<le> length evlog" "fs = map (wire_frame enc) (take k evlog)" "cursor = cursor_at evlog k"
    by blast
  have n: "length fs = k" using k by simp
  have all: "map (wire_frame enc) evlog = fs @ map (wire_frame enc) (drop k evlog)"
    using k(2) by (metis append_take_drop_id map_append)
  have s: "since evlog cursor = drop (length fs) evlog" using since_cursor [OF assms(2) k(1)] k(3) n by simp
  have "bindCursor [] cursor = Inr cursor" using cursor_accepted [OF assms(2) k(1)] k(3) by simp
  moreover have "prefix fs (map (wire_frame enc) evlog)" using all by simp
  moreover have "fs @ events (out st) = map (wire_frame enc) evlog"
    if "encoder env = enc" "msgs (script env) = since evlog cursor" "Admit \<in> set (plan env)" "reach env st" "handler st = Flushing None" "frames st = []"
    for env st
    using clean_end_delivers [OF that(3-6)] that(1,2) s n all by simp
  ultimately show ?thesis using s by blast
qed

text \<open>Two events, the first of them received.\<close>

definition demo_log :: "owner_event list" where
  "demo_log = [demo_event, demo_event\<lparr>EvEventSeq := ''8''\<rparr>]"

lemma demo_log_ok: "log_ok demo_log"
proof -
  have "matches sequencePattern ''7''" "matches sequencePattern ''8''" by code_simp+
  then show ?thesis by (simp add: log_ok_def demo_log_def demo_event_def)
qed

lemma demo_reader: "reader demo_log (encoder demo_env) id [''7''] ''7''"
proof -
  obtain s where s: "reach demo_env s" "out s = [WRetry 3000, WEvent ''7'']" using demo_reach by blast
  have "honours demo_log [] (script demo_env)" by (simp add: honours_def since_def demo_log_def demo_env_def)
  moreover have "bindCursor [] [] = Inr []" by (simp add: bindCursor_def)
  moreover have "prefix [''7''] (events (out s))" using s(2) by simp
  ultimately have "reader demo_log (encoder demo_env) id ([] @ [''7'']) (if [''7''] = [] then [] else id (last [''7'']))"
    using reader_connects [OF reader_new] s(1) by blast
  then show ?thesis by simp
qed

theorem resumed_reader_loses_nothing_witness:
  "reader demo_log (encoder demo_env) id [''7''] ''7'' \<and> since demo_log ''7'' = [demo_event\<lparr>EvEventSeq := ''8''\<rparr>]
    \<and> prefix [''7''] (map (wire_frame (encoder demo_env)) demo_log)"
proof -
  have r: "reads (encoder demo_env) id" by (simp add: reads_def demo_env_def)
  note res = resumed_reader_loses_nothing [OF demo_reader demo_log_ok r]
  have "drop (length [''7'']) demo_log = [demo_event\<lparr>EvEventSeq := ''8''\<rparr>]" by (simp add: demo_log_def)
  with res have "since demo_log ''7'' = [demo_event\<lparr>EvEventSeq := ''8''\<rparr>]" by metis
  with res demo_reader show ?thesis by blast
qed

end
