(* ===== verification/Routes.thy ===== *)
theory Routes
  imports Streams Lifecycle
begin

text \<open>
  The routes of NewServer in internal/transport/http/server.go: the two probes outside the API group, the event
  stream and the generated operations inside it, below the middleware that every request passes.
  Gin's router is given by its decision (\<open>target\<close>).

  Documented behaviour of gin.New: for a path without a route the status is 404, the same middleware runs, and the
  text of the 404 is written when the chain wrote nothing; a path that misses a route by its
  trailing slash alone is redirected, before any middleware runs, to the path with the route (\<open>Slashed\<close>, with the location).
\<close>

section \<open>The routes\<close>

datatype target = Healthz | Readyz | EventStream | Operation | Unmatched | Slashed string

record 'v wiring =
  wi_verify :: "string \<Rightarrow> go_error + principal"
  wi_scan :: "string \<Rightarrow> input"
  wi_sha :: "string \<Rightarrow> string"
  wi_limit :: nat
  wi_find :: "gin \<Rightarrow> 'v option"
  wi_validate :: "gin \<Rightarrow> 'v \<Rightarrow> validation_error option"
  wi_op :: "gin \<Rightarrow> op_result"
  wi_stream :: "gin \<Rightarrow> api_error + string"
  wi_ready :: "go_error option"

definition Status :: "nat \<Rightarrow> gin \<Rightarrow> gin" where
  "Status st c = c\<lparr>w_status := st\<rparr>"

definition AbortWithStatus :: "nat \<Rightarrow> gin \<Rightarrow> gin" where
  "AbortWithStatus st c = c\<lparr>w_status := st, written := True, aborted := True\<rparr>"

definition readyz_route :: "go_error option \<Rightarrow> gin \<Rightarrow> gin" where
  "readyz_route err c = (case err of Some e \<Rightarrow> AbortWithStatus 503 c | None \<Rightarrow> Status 204 c)"

text \<open>
  The event stream's handler: \<open>body\<close> is what the stream becomes behind its cursor, a refusal before the
  response or the text of the response.
\<close>

definition stream_handler ::
  "'r stream_deps \<Rightarrow> nat \<Rightarrow> string \<Rightarrow> string \<Rightarrow> string \<Rightarrow> stream_limiter \<Rightarrow> (string \<Rightarrow> api_error + string) \<Rightarrow> gin \<Rightarrow> api_error + string" where
  "stream_handler d n op after_q last_event_id l body c =
     (case fst (open_stream_request after_q last_event_id (operation_error (stream_deps.answers d n) (principal_of c) op) (principal_of c) l) of
        Inl e \<Rightarrow> Inl e
      | Inr cursor \<Rightarrow> body cursor)"

definition stream_answer :: "(gin \<Rightarrow> api_error + string) \<Rightarrow> gin \<Rightarrow> outcome" where
  "stream_answer h c = (case h c of Inl e \<Rightarrow> Returned_ctx (fail c e) | Inr b \<Rightarrow> Returned_ctx (JSON 200 (OkBody b) c))"

text \<open>The handlers behind the middleware of the engine.\<close>

definition route :: "'v wiring \<Rightarrow> target \<Rightarrow> gin \<Rightarrow> outcome" where
  "route w tgt =
     (case tgt of
        Healthz \<Rightarrow> Returned_ctx \<circ> Status healthz
      | Readyz \<Rightarrow> Returned_ctx \<circ> readyz_route (wi_ready w)
      | EventStream \<Rightarrow> authenticate (wi_verify w) (stream_answer (wi_stream w))
      | Operation \<Rightarrow> api_chain (wi_verify w) (wi_scan w) (wi_sha w) (wi_limit w) (wi_find w) (wi_validate w) (strict_handler (wi_op w))
      | _ \<Rightarrow> Returned_ctx)"

definition serveError :: "nat \<Rightarrow> string \<Rightarrow> gin \<Rightarrow> gin" where
  "serveError st msg c =
     (if written c then c
      else if w_status c = st then c\<lparr>written := True, w_body := PlainBody msg\<rparr>
      else c\<lparr>written := True\<rparr>)"

text \<open>http.Redirect: the text of a GET is a link.\<close>

definition htmlEscape :: "string \<Rightarrow> string" where
  "htmlEscape s = concat (map (\<lambda>ch.
     if ch = CHR ''&'' then ''&amp;'' else if ch = CHR ''<'' then ''&lt;'' else if ch = CHR ''>'' then ''&gt;''
     else if ch = CHR 0x22 then ''&#34;'' else if ch = CHR 0x27 then ''&#39;'' else [ch]) s)"

definition redirectTrailingSlash :: "string \<Rightarrow> gin \<Rightarrow> gin" where
  "redirectTrailingSlash loc c =
     (let get = (Method c = ''GET'') in
      (Header ''Location'' loc c)\<lparr>written := True, w_status := (if get then 301 else 307),
        w_body := (if get then PlainBody (''<a href='' @ CHR 0x22 # htmlEscape loc @ CHR 0x22 # ''>Moved Permanently</a>.'' @ [CHR 0x0A, CHR 0x0A])
                   else NoBody)\<rparr>)"

definition serve where
  "serve recovery metrics rnd w tgt c =
     (case tgt of
        Slashed loc \<Rightarrow> redirectTrailingSlash loc c
      | Unmatched \<Rightarrow> serveError 404 ''404 page not found'' (engine recovery metrics rnd (route w tgt) (c\<lparr>w_status := 404\<rparr>))
      | _ \<Rightarrow> engine recovery metrics rnd (route w tgt) c)"

section \<open>What every response has\<close>

lemma finished_recorded: "finished rid err c \<Longrightarrow> recorded rid c"
  by (simp add: finished_def)

text \<open>A route that only sets a status: no error, no body.\<close>

lemma bare_status:
  assumes "recovers recovery" "inner (prepared rnd c) = Returned_ctx ((prepared rnd c)\<lparr>w_status := st, written := x, aborted := y\<rparr>)"
    "Errors c = []" "spans c = []" "w_body c = NoBody"
  shows "recorded (newRequestID rnd) (engine recovery metrics rnd inner c)
    \<and> w_status (engine recovery metrics rnd inner c) = st \<and> w_body (engine recovery metrics rnd inner c) = NoBody
    \<and> written (engine recovery metrics rnd inner c) = x"
proof -
  have r: "recovery onPanic inner (prepared rnd c) = (prepared rnd c)\<lparr>w_status := st, written := x, aborted := y\<rparr>"
    using assms(1,2) by (simp add: recovers_def)
  show ?thesis
    unfolding engine_eq r using assms(3-5)
    by (simp add: recorded_def observe_def logRequests_def errorEnvelope_def prepared_def Header_def Let_def requestIDOf_def ended_span_def)
qed

lemma set_status: "Status st c = c\<lparr>w_status := st, written := written c, aborted := aborted c\<rparr>"
  by (simp add: Status_def)

lemma readyz_route_status:
  "\<exists>x y. readyz_route err c = c\<lparr>w_status := readyz err, written := x, aborted := y\<rparr>"
proof (cases err)
  case None
  then show ?thesis by (intro exI [of _ "written c"] exI [of _ "aborted c"]) (simp add: readyz_route_def readyz_def Status_def)
next
  case (Some e)
  then show ?thesis by (intro exI [of _ True]) (simp add: readyz_route_def readyz_def AbortWithStatus_def)
qed

lemma probe_answers:
  fixes m path auth body len rnd
  defines "c \<equiv> new_request m path auth body len"
  assumes rec: "recovers recovery"
  shows "recorded (newRequestID rnd) (serve recovery metrics rnd w Healthz c) \<and> w_status (serve recovery metrics rnd w Healthz c) = 204
      \<and> w_body (serve recovery metrics rnd w Healthz c) = NoBody"
    "recorded (newRequestID rnd) (serve recovery metrics rnd w Readyz c) \<and> w_status (serve recovery metrics rnd w Readyz c) = readyz (wi_ready w)
      \<and> w_body (serve recovery metrics rnd w Readyz c) = NoBody"
    "recorded (newRequestID rnd) (serve recovery metrics rnd w Unmatched c) \<and> w_status (serve recovery metrics rnd w Unmatched c) = 404
      \<and> w_body (serve recovery metrics rnd w Unmatched c) = PlainBody ''404 page not found''"
proof -
  have c: "Errors c = []" "spans c = []" "w_body c = NoBody" "\<not> written c" by (simp_all add: c_def new_request_def)
  have s: "(Returned_ctx \<circ> Status st) (prepared rnd c) =
      Returned_ctx ((prepared rnd c)\<lparr>w_status := st, written := written (prepared rnd c), aborted := aborted (prepared rnd c)\<rparr>)" for st
    by (simp only: comp_apply set_status)
  obtain x y where r: "readyz_route (wi_ready w) (prepared rnd c) = (prepared rnd c)\<lparr>w_status := readyz (wi_ready w), written := x, aborted := y\<rparr>"
    using readyz_route_status by blast
  show "recorded (newRequestID rnd) (serve recovery metrics rnd w Healthz c) \<and> w_status (serve recovery metrics rnd w Healthz c) = 204
      \<and> w_body (serve recovery metrics rnd w Healthz c) = NoBody"
    using bare_status [OF rec, where inner = "Returned_ctx \<circ> Status 204" and rnd = rnd and c = c and metrics = metrics
        and st = 204 and x = "written (prepared rnd c)" and y = "aborted (prepared rnd c)"] s [of 204] c by (simp add: serve_def route_def healthz_def)
  show "recorded (newRequestID rnd) (serve recovery metrics rnd w Readyz c) \<and> w_status (serve recovery metrics rnd w Readyz c) = readyz (wi_ready w)
      \<and> w_body (serve recovery metrics rnd w Readyz c) = NoBody"
    using bare_status [OF rec, where inner = "Returned_ctx \<circ> readyz_route (wi_ready w)" and rnd = rnd and c = c and metrics = metrics
        and st = "readyz (wi_ready w)" and x = x and y = y] c r by (simp add: serve_def route_def)
  let ?d = "c\<lparr>w_status := 404\<rparr>" and ?n = "engine recovery metrics rnd Returned_ctx (c\<lparr>w_status := 404\<rparr>)"
  have d: "prepared rnd ?d = (prepared rnd ?d)\<lparr>w_status := 404, written := False, aborted := aborted (prepared rnd ?d)\<rparr>"
    using c(4) by (simp add: prepared_def Header_def)
  have n: "recorded (newRequestID rnd) ?n" "w_status ?n = 404" "\<not> written ?n"
    using bare_status [OF rec, where inner = Returned_ctx and rnd = rnd and c = ?d and metrics = metrics
        and st = 404 and x = False and y = "aborted (prepared rnd ?d)"] d c by auto
  have "recorded rid (x\<lparr>written := True, w_body := b\<rparr>) \<longleftrightarrow> recorded rid x" for rid b x by (simp add: recorded_def)
  with n show "recorded (newRequestID rnd) (serve recovery metrics rnd w Unmatched c) \<and> w_status (serve recovery metrics rnd w Unmatched c) = 404
      \<and> w_body (serve recovery metrics rnd w Unmatched c) = PlainBody ''404 page not found''"
    by (simp add: serve_def route_def serveError_def)
qed

section \<open>The API group\<close>

text \<open>A refused token ends the request before any other part of its chain runs.\<close>

lemma refused_token:
  fixes m path auth body len rnd
  defines "c \<equiv> new_request m path auth body len"
  assumes rec: "recovers recovery" and none: "\<nexists>t p. auth = ''Bearer '' @ t \<and> t \<noteq> [] \<and> verify t = Inr p"
  shows "\<exists>ae r. status ae = 401 \<and> (\<forall>rest. engine recovery metrics rnd (authenticate verify rest) c = r) \<and> finished (newRequestID rnd) (Some ae) r"
proof -
  let ?p = "prepared rnd c"
  have auth: "Authorization ?p = auth" by (simp add: c_def new_request_def)
  from authenticate_cases [of verify ?p] none have "stops (authenticate verify) ?p {401}" unfolding auth by blast
  then obtain ae hs where e: "status ae = 401" "challenged (w_headers ?p) hs"
    "\<And>rest. authenticate verify rest ?p = Returned_ctx (fail (?p\<lparr>w_headers := hs\<rparr>) ae)" by (auto simp: stops_def)
  let ?c1 = "?p\<lparr>w_headers := hs\<rparr>"
  have u: "unanswered (newRequestID rnd) ?c1"
    using unanswered_keeps(5) [OF _ e(2)] prepared_new(1) unfolding c_def by blast
  have "finished (newRequestID rnd) (Some ae) (engine recovery metrics rnd (authenticate verify rest) c)" for rest
    by (rule finished_error [where inner = "authenticate verify rest" and rnd = rnd and c = c and ?c1.0 = ?c1, OF rec _ u]) (rule e(3))
  moreover have "engine recovery metrics rnd (authenticate verify rest) c = engine recovery metrics rnd (authenticate verify rest') c" for rest rest'
    using rec e(3) by (simp add: engine_eq recovers_def)
  ultimately show ?thesis using e(1) by blast
qed

lemma stream_answered:
  fixes m path auth body len rnd
  defines "c \<equiv> new_request m path auth body len"
  assumes rec: "recovers recovery"
  shows "\<exists>err. finished (newRequestID rnd) err (engine recovery metrics rnd (authenticate verify (stream_answer h)) c)"
proof (cases "\<exists>t p. auth = ''Bearer '' @ t \<and> t \<noteq> [] \<and> verify t = Inr p")
  case False
  from refused_token [OF rec this, of metrics rnd m path body len] obtain ae r where
    r: "\<forall>rest. engine recovery metrics rnd (authenticate verify rest) c = r" "finished (newRequestID rnd) (Some ae) r" unfolding c_def by blast
  then show ?thesis by (intro exI [of _ "Some ae"]) simp
next
  case True
  let ?p = "prepared rnd c"
  from True obtain t p where t: "auth = ''Bearer '' @ t" "t \<noteq> []" "verify t = Inr p" by blast
  let ?c1 = "?p\<lparr>k_principal := Some p\<rparr>"
  have "Authorization ?p = ''Bearer '' @ t" by (simp add: c_def new_request_def t(1))
  then have a: "authenticate verify (stream_answer h) ?p = stream_answer h ?c1"
    by (rule authenticate_accepts [where c = ?p and t = t and verify = verify and p = p, OF _ t(2,3)]) (simp add: c_def prepared_new)
  have u: "unanswered (newRequestID rnd) ?c1" using unanswered_keeps(1) prepared_new(1) unfolding c_def by blast
  show ?thesis
  proof (cases "h ?c1")
    case (Inl e)
    then have "authenticate verify (stream_answer h) ?p = Returned_ctx (fail ?c1 e)" using a by (simp add: stream_answer_def)
    from finished_error [where inner = "authenticate verify (stream_answer h)" and rnd = rnd and c = c and ?c1.0 = ?c1, OF rec this u]
    show ?thesis by blast
  next
    case (Inr b)
    then have "recovery onPanic (authenticate verify (stream_answer h)) ?p =
        (JSON 200 (OkBody b) ?c1)\<lparr>Errors := Errors ?c1, aborted := aborted ?c1\<rparr>"
      using a rec by (simp add: stream_answer_def recovers_def JSON_def)
    from response_ok [where recovery = recovery and inner = "authenticate verify (stream_answer h)" and rnd = rnd and c = c and ?c1.0 = ?c1
        and st = 200 and b = b and es = "Errors ?c1" and ab = "aborted ?c1", OF this u]
    show ?thesis by blast
  qed
qed

section \<open>Properties\<close>

text \<open>
  C10. Only the probes are public, and every request that reaches the engine's middleware has one answer that its identifier, its log line and its span
  agree on, whatever its route: without a token that the verifier accepts, a route of the API answers
  the same 401 envelope whatever the operations and the streams would do, so neither runs; the
  probes answer a bare status that depends on nothing but the readiness; an unknown path is a 404. A path that misses a route by its trailing
  slash is redirected past the middleware: without identifier, log line and span.
\<close>

theorem only_probes_are_public:
  fixes m path auth body len rnd
  defines "c \<equiv> new_request m path auth body len"
  assumes "recovers recovery"
  shows "((\<nexists>loc. tgt = Slashed loc) \<longrightarrow> recorded (newRequestID rnd) (serve recovery metrics rnd w tgt c))
    \<and> (tgt \<in> {EventStream, Operation} \<and> (\<nexists>t p. auth = ''Bearer '' @ t \<and> t \<noteq> [] \<and> wi_verify w t = Inr p) \<longrightarrow>
         (\<exists>ae. status ae = 401 \<and> finished (newRequestID rnd) (Some ae) (serve recovery metrics rnd w tgt c)) \<and>
         serve recovery metrics rnd (w\<lparr>wi_op := other_op, wi_stream := other_stream\<rparr>) tgt c = serve recovery metrics rnd w tgt c)
    \<and> (tgt = Healthz \<longrightarrow> w_status (serve recovery metrics rnd w tgt c) = 204 \<and> w_body (serve recovery metrics rnd w tgt c) = NoBody)
    \<and> (tgt = Readyz \<longrightarrow> w_status (serve recovery metrics rnd w tgt c) = readyz (wi_ready w) \<and> w_body (serve recovery metrics rnd w tgt c) = NoBody)
    \<and> (tgt = Unmatched \<longrightarrow> w_status (serve recovery metrics rnd w tgt c) = 404
         \<and> w_body (serve recovery metrics rnd w tgt c) = PlainBody ''404 page not found'')
    \<and> (\<forall>loc. tgt = Slashed loc \<longrightarrow> w_status (serve recovery metrics rnd w tgt c) = (if m = ''GET'' then 301 else 307)
         \<and> w_headers (serve recovery metrics rnd w tgt c) = Map.empty(''Location'' \<mapsto> loc)
         \<and> logs (serve recovery metrics rnd w tgt c) = [] \<and> spans (serve recovery metrics rnd w tgt c) = [])"
proof -
  note probes = probe_answers [OF assms(2), where m = m and path = path and auth = auth and body = body and len = len
      and rnd = rnd and metrics = metrics and w = w, folded c_def]
  have rec: "recorded (newRequestID rnd) (serve recovery metrics rnd w tgt c)" if "\<nexists>loc. tgt = Slashed loc"
  proof (cases tgt)
    case EventStream
    then show ?thesis
      using stream_answered [OF assms(2), of rnd metrics "wi_verify w" "wi_stream w" m path auth body len] finished_recorded
      by (auto simp: serve_def route_def c_def)
  next
    case Operation
    have "\<exists>err. finished (newRequestID rnd) err (engine recovery metrics rnd
        (api_chain (wi_verify w) (wi_scan w) (wi_sha w) (wi_limit w) (wi_find w) (wi_validate w) (strict_handler (wi_op w))) c)"
      unfolding c_def by (rule always_finished [OF assms(2)])
    then show ?thesis using Operation finished_recorded by (auto simp: serve_def route_def)
  qed (use probes that in auto)
  moreover have "(\<exists>ae. status ae = 401 \<and> finished (newRequestID rnd) (Some ae) (serve recovery metrics rnd w tgt c)) \<and>
      serve recovery metrics rnd (w\<lparr>wi_op := other_op, wi_stream := other_stream\<rparr>) tgt c = serve recovery metrics rnd w tgt c"
    if t: "tgt \<in> {EventStream, Operation}" and none: "\<nexists>t p. auth = ''Bearer '' @ t \<and> t \<noteq> [] \<and> wi_verify w t = Inr p"
  proof -
    from refused_token [OF assms(2) none, of metrics rnd m path body len] obtain ae r where r: "status ae = 401"
      "\<forall>rest. engine recovery metrics rnd (authenticate (wi_verify w) rest) c = r" "finished (newRequestID rnd) (Some ae) r"
      unfolding c_def by blast
    have "serve recovery metrics rnd w tgt c = r" "serve recovery metrics rnd (w\<lparr>wi_op := other_op, wi_stream := other_stream\<rparr>) tgt c = r"
      using t r(2) by (auto simp: serve_def route_def api_chain_def)
    with r show ?thesis by auto
  qed
  moreover have "w_status (serve recovery metrics rnd w (Slashed loc) c) = (if m = ''GET'' then 301 else 307)
      \<and> w_headers (serve recovery metrics rnd w (Slashed loc) c) = Map.empty(''Location'' \<mapsto> loc)
      \<and> logs (serve recovery metrics rnd w (Slashed loc) c) = [] \<and> spans (serve recovery metrics rnd w (Slashed loc) c) = []" for loc
    by (simp add: serve_def redirectTrailingSlash_def c_def new_request_def Header_def Let_def)
  ultimately show ?thesis using probes by blast
qed

definition demo_wiring :: "unit wiring" where
  "demo_wiring = \<lparr>wi_verify = (\<lambda>t. Inl ErrUnauthenticated), wi_scan = (\<lambda>_. []), wi_sha = id, wi_limit = 10, wi_find = (\<lambda>_. None),
     wi_validate = (\<lambda>_ _. None), wi_op = (\<lambda>_. OpOk 200 ''secret''), wi_stream = (\<lambda>_. Inr ''secret''), wi_ready = None\<rparr>"

theorem only_probes_are_public_witness:
  "\<exists>ae. status ae = 401 \<and> finished (newRequestID ''0123456789'') (Some ae)
     (serve gin_recovery True ''0123456789'' demo_wiring EventStream (new_request ''GET'' ''/api/v1/operations/o/events'' ''Bearer x'' None 0))"
proof -
  have "\<nexists>t p. ''Bearer x'' = ''Bearer '' @ t \<and> t \<noteq> [] \<and> wi_verify demo_wiring t = Inr p" by (simp add: demo_wiring_def)
  with only_probes_are_public [OF gin_recovers, where rnd = "''0123456789''" and metrics = True and w = demo_wiring and tgt = EventStream and m = "''GET''"
      and path = "''/api/v1/operations/o/events''" and auth = "''Bearer x''" and body = None and len = 0]
  show ?thesis by blast
qed

end
