(* ===== verification/Workload.thy ===== *)
theory Workload
  imports Patterns
begin

text \<open>
  The workload identity of the internal gRPC transport: Principal, ParseSPIFFE and PeerPrincipal
  of internal/transport/identity/spiffe.go, and the policy, NewAuthorizer, Check, Allowed,
  Authorize, Unary, Stream and Caller of internal/transport/identity/authz.go. A parsed URL is a
  record with the fields the code reads; errors are values of \<open>spiffe_err\<close> and gRPC codes.
\<close>

section \<open>SPIFFE identities\<close>

record url =
  Scheme :: string
  HasUser :: bool
  Opaque :: string
  Host :: string
  Path :: string
  RawQuery :: string
  Fragment :: string

record workload_principal =
  TrustDomain :: string
  Namespace :: string
  ServiceAccount :: string

record workload =
  WNamespace :: string
  WServiceAccount :: string

datatype spiffe_err = NoUri | NotWorkload | BadTrustDomain | BadPath | NoCertificate | UriCount nat

definition principal_String :: "workload_principal \<Rightarrow> string" where
  "principal_String p = ''spiffe://'' @ TrustDomain p @ ''/ns/'' @ Namespace p @ ''/sa/'' @ ServiceAccount p"

definition ValidTrustDomain :: "string \<Rightarrow> bool" where
  "ValidTrustDomain s = matches trustDomain s"

text \<open>url.URL.Port: the digits after the last colon of the host, if only digits follow it.\<close>

definition Port :: "string \<Rightarrow> string" where
  "Port h = (let p = rev (takeWhile (\<lambda>c. c \<noteq> CHR '':'') (rev h))
             in if CHR '':'' \<in> set h \<and> list_all is_digit p then p else [])"

definition ParseSPIFFE :: "url option \<Rightarrow> spiffe_err + workload_principal" where
  "ParseSPIFFE uo =
     (case uo of
        None \<Rightarrow> Inl NoUri
      | Some u \<Rightarrow>
          if Scheme u \<noteq> ''spiffe'' \<or> HasUser u \<or> Opaque u \<noteq> [] \<or> RawQuery u \<noteq> [] \<or> Fragment u \<noteq> [] \<or> Port (Host u) \<noteq> []
          then Inl NotWorkload
          else if \<not> ValidTrustDomain (Host u) then Inl BadTrustDomain
          else (let parts = Split CHR ''/'' (Path u) in
                if length parts \<noteq> 5 \<or> parts ! 0 \<noteq> [] \<or> parts ! 1 \<noteq> ''ns'' \<or> parts ! 3 \<noteq> ''sa'' \<or>
                   \<not> matches label (parts ! 2) \<or> \<not> matches label (parts ! 4)
                then Inl BadPath
                else Inr \<lparr>TrustDomain = Host u, Namespace = parts ! 2, ServiceAccount = parts ! 4\<rparr>))"

text \<open>The URI SANs of a leaf certificate, if there is one.\<close>

definition PeerPrincipal :: "url list option \<Rightarrow> spiffe_err + workload_principal" where
  "PeerPrincipal leaf =
     (case leaf of
        None \<Rightarrow> Inl NoCertificate
      | Some uris \<Rightarrow>
          (case uris of [u] \<Rightarrow> ParseSPIFFE (Some u) | _ \<Rightarrow> Inl (UriCount (length uris))))"

subsection \<open>Round trip\<close>

definition valid_principal :: "workload_principal \<Rightarrow> bool" where
  "valid_principal p \<longleftrightarrow> matches trustDomain (TrustDomain p) \<and> matches label (Namespace p) \<and> matches label (ServiceAccount p)"

definition spiffe_url :: "workload_principal \<Rightarrow> url" where
  "spiffe_url p = \<lparr>Scheme = ''spiffe'', HasUser = False, Opaque = [], Host = TrustDomain p,
     Path = ''/ns/'' @ Namespace p @ ''/sa/'' @ ServiceAccount p, RawQuery = [], Fragment = []\<rparr>"

definition url_text :: "url \<Rightarrow> string" where
  "url_text u = Scheme u @ ''://'' @ Host u @ Path u"

lemma url_text_spiffe: "url_text (spiffe_url p) = principal_String p"
  by (simp add: url_text_def spiffe_url_def principal_String_def)

lemma Split_spiffe_path:
  assumes "CHR ''/'' \<notin> set a" "CHR ''/'' \<notin> set b"
  shows "Split CHR ''/'' (''/ns/'' @ a @ ''/sa/'' @ b) = [[], ''ns'', a, ''sa'', b]"
  using assms Split_append_sep [of "CHR ''/''" "''ns''"] Split_append_sep [of "CHR ''/''" a]
    Split_append_sep [of "CHR ''/''" "''sa''" b]
  by (simp add: Split_plain)

lemma ParseSPIFFE_spiffe_url:
  assumes "valid_principal p"
  shows "ParseSPIFFE (Some (spiffe_url p)) = Inr p"
proof -
  have "CHR ''/'' \<notin> set (Namespace p)" "CHR ''/'' \<notin> set (ServiceAccount p)" and colon: "CHR '':'' \<notin> set (TrustDomain p)"
    using assms label_no_special trustDomain_no_special by (auto simp: valid_principal_def)
  then have s: "Split CHR ''/'' (Path (spiffe_url p)) = [[], ''ns'', Namespace p, ''sa'', ServiceAccount p]"
    unfolding spiffe_url_def url.simps by (intro Split_spiffe_path)
  show ?thesis
    unfolding ParseSPIFFE_def option.case s Let_def
    using assms colon by (simp add: spiffe_url_def valid_principal_def ValidTrustDomain_def Port_def)
qed

lemma ParseSPIFFE_sound:
  assumes "ParseSPIFFE (Some u) = Inr p"
  shows "valid_principal p \<and> u = spiffe_url p"
proof -
  define parts where "parts = Split CHR ''/'' (Path u)"
  have f: "length parts = 5" "parts ! 0 = []" "parts ! 1 = ''ns''" "parts ! 3 = ''sa''"
      "matches label (parts ! 2)" "matches label (parts ! 4)"
    and p: "p = \<lparr>TrustDomain = Host u, Namespace = parts ! 2, ServiceAccount = parts ! 4\<rparr>"
    and u: "Scheme u = ''spiffe''" "\<not> HasUser u" "Opaque u = []" "RawQuery u = []" "Fragment u = []" "matches trustDomain (Host u)"
    using assms unfolding ParseSPIFFE_def ValidTrustDomain_def parts_def [symmetric] Let_def option.case
    by (simp_all split: if_split_asm)
  obtain a b c d e where "parts = [a, b, c, d, e]"
    using f(1) by (auto simp: length_Suc_conv eval_nat_numeral)
  then have "parts = [parts ! 0, parts ! 1, parts ! 2, parts ! 3, parts ! 4]" by simp
  then have "Path u = Join CHR ''/'' [[], ''ns'', parts ! 2, ''sa'', parts ! 4]"
    using Join_Split [of "CHR ''/''" "Path u"] f(2-4) unfolding parts_def by metis
  then have "Path u = ''/ns/'' @ parts ! 2 @ ''/sa/'' @ parts ! 4" by simp
  with p f u show ?thesis by (cases u) (simp add: valid_principal_def spiffe_url_def)
qed

lemma principal_String_inj:
  assumes "valid_principal p" "valid_principal q" "principal_String p = principal_String q"
  shows "p = q"
proof -
  have no: "valid_principal r \<Longrightarrow> CHR ''/'' \<notin> set (TrustDomain r) \<and> CHR ''/'' \<notin> set (Namespace r) \<and> CHR ''/'' \<notin> set (ServiceAccount r)" for r
    using label_no_special trustDomain_no_special by (auto simp: valid_principal_def)
  have sp: "Split CHR ''/'' (TrustDomain r @ ''/ns/'' @ Namespace r @ ''/sa/'' @ ServiceAccount r) =
      [TrustDomain r, ''ns'', Namespace r, ''sa'', ServiceAccount r]" if "valid_principal r" for r
    using no [OF that] Split_append_sep [of "CHR ''/''" "TrustDomain r"] Split_append_sep [of "CHR ''/''" "''ns''"]
      Split_append_sep [of "CHR ''/''" "Namespace r"] Split_append_sep [of "CHR ''/''" "''sa''" "ServiceAccount r"]
    by (simp add: Split_plain)
  have "TrustDomain p @ ''/ns/'' @ Namespace p @ ''/sa/'' @ ServiceAccount p =
      TrustDomain q @ ''/ns/'' @ Namespace q @ ''/sa/'' @ ServiceAccount q"
    using assms(3) by (simp add: principal_String_def)
  from arg_cong [OF this, of "Split CHR ''/''"]
  have "TrustDomain p = TrustDomain q" "Namespace p = Namespace q" "ServiceAccount p = ServiceAccount q"
    unfolding sp [OF assms(1)] sp [OF assms(2)] by simp_all
  then show ?thesis by (cases p; cases q) simp
qed

section \<open>Authorization\<close>

definition AnyAuthenticated :: workload where
  "AnyAuthenticated = \<lparr>WNamespace = ''*'', WServiceAccount = ''*''\<rparr>"

text \<open>A Go map from methods to workloads: its entries, with distinct methods.\<close>

type_synonym policy = "(string \<times> workload list) list"

record authorizer =
  trust_domain :: string
  authz_policy :: policy

datatype policy_err =
    BadDomain | BadMethod string | AllowsNobody string | BadWorkload string workload
  | Incomplete "string list" "string list"

definition workload_ok :: "workload \<Rightarrow> bool" where
  "workload_ok w \<longleftrightarrow> w = AnyAuthenticated \<or> (matches label (WNamespace w) \<and> matches label (WServiceAccount w))"

definition check_entry :: "string \<times> workload list \<Rightarrow> policy_err option" where
  "check_entry e =
     (let method = fst e; allowed = snd e in
      if \<not> HasPrefix method ''/'' \<or> Count CHR ''/'' method \<noteq> 2 then Some (BadMethod method)
      else if allowed = [] then Some (AllowsNobody method)
      else map_option (BadWorkload method) (find (\<lambda>w. \<not> workload_ok w) allowed))"

fun first_some :: "('a \<Rightarrow> 'b option) \<Rightarrow> 'a list \<Rightarrow> 'b option" where
  "first_some f [] = None"
| "first_some f (x # xs) = (case f x of Some y \<Rightarrow> Some y | None \<Rightarrow> first_some f xs)"

lemma first_some_None: "first_some f xs = None \<longleftrightarrow> (\<forall>x\<in>set xs. f x = None)"
  by (induction xs) (auto split: option.splits)

definition NewAuthorizer :: "string \<Rightarrow> policy \<Rightarrow> policy_err + authorizer" where
  "NewAuthorizer td pol =
     (if \<not> ValidTrustDomain td then Inl BadDomain
      else (case first_some check_entry pol of
              Some e \<Rightarrow> Inl e
            | None \<Rightarrow> Inr \<lparr>trust_domain = td, authz_policy = pol\<rparr>))"

text \<open>The registered methods of a server: its services with their method names.\<close>

definition registered :: "(string \<times> string list) list \<Rightarrow> string list" where
  "registered srv = concat (map (\<lambda>(name, methods). map (\<lambda>m. ''/'' @ name @ ''/'' @ m) methods) srv)"

definition Check :: "authorizer \<Rightarrow> (string \<times> string list) list \<Rightarrow> policy_err + unit" where
  "Check a srv =
     (let missing = sort (filter (\<lambda>m. m \<notin> fst ` set (authz_policy a)) (registered srv));
          stale = sort (filter (\<lambda>m. m \<notin> set (registered srv)) (map fst (authz_policy a)))
      in if missing \<noteq> [] \<or> stale \<noteq> [] then Inl (Incomplete missing stale) else Inr ())"

definition allowed_for :: "authorizer \<Rightarrow> string \<Rightarrow> workload list" where
  "allowed_for a method = (case map_of (authz_policy a) method of Some ws \<Rightarrow> ws | None \<Rightarrow> [])"

definition Allowed :: "authorizer \<Rightarrow> string \<Rightarrow> workload_principal \<Rightarrow> bool" where
  "Allowed a method p \<longleftrightarrow>
     TrustDomain p = trust_domain a \<and>
     (\<exists>w\<in>set (allowed_for a method). w = AnyAuthenticated \<or> (WNamespace w = Namespace p \<and> WServiceAccount w = ServiceAccount p))"

text \<open>The AuthInfo of a call's connection: none, another kind, or the PeerInfo of the handshake.\<close>

datatype auth_info = NoAuth | OtherAuth | PeerAuth "spiffe_err + workload_principal"

datatype authz_status = Unauthenticated_status | PermissionDenied_status

definition Authorize :: "authorizer \<Rightarrow> auth_info \<Rightarrow> string \<Rightarrow> authz_status option" where
  "Authorize a info method =
     (case info of
        NoAuth \<Rightarrow> Some Unauthenticated_status
      | OtherAuth \<Rightarrow> Some Unauthenticated_status
      | PeerAuth (Inl e) \<Rightarrow> Some Unauthenticated_status
      | PeerAuth (Inr p) \<Rightarrow> if Allowed a method p then None else Some PermissionDenied_status)"

definition Unary :: "authorizer \<Rightarrow> auth_info \<Rightarrow> string \<Rightarrow> ('q \<Rightarrow> 'r) \<Rightarrow> 'q \<Rightarrow> authz_status + 'r" where
  "Unary a info method h req = (case Authorize a info method of Some e \<Rightarrow> Inl e | None \<Rightarrow> Inr (h req))"

text \<open>A stream's handler gets the stream only after the same check, before its first message.\<close>

definition Stream :: "authorizer \<Rightarrow> auth_info \<Rightarrow> string \<Rightarrow> ('s \<Rightarrow> authz_status option) \<Rightarrow> 's \<Rightarrow> authz_status option" where
  "Stream a info method h ss = (case Authorize a info method of Some e \<Rightarrow> Some e | None \<Rightarrow> h ss)"

lemma handler_runs_authorized:
  "Unary a info method h req = Inr r \<Longrightarrow> Authorize a info method = None"
  "Authorize a info method \<noteq> None \<Longrightarrow> Stream a info method sh ss = Authorize a info method"
  by (auto simp: Unary_def Stream_def split: option.splits)

definition Caller :: "auth_info \<Rightarrow> workload_principal option" where
  "Caller info = (case info of PeerAuth (Inr p) \<Rightarrow> Some p | _ \<Rightarrow> None)"

subsection \<open>Deny by default\<close>

lemma NewAuthorizer_ok:
  "NewAuthorizer td pol = Inr a \<Longrightarrow> a = \<lparr>trust_domain = td, authz_policy = pol\<rparr> \<and> matches trustDomain td \<and>
   (\<forall>e\<in>set pol. HasPrefix (fst e) ''/'' \<and> Count CHR ''/'' (fst e) = 2 \<and> snd e \<noteq> [] \<and> (\<forall>w\<in>set (snd e). workload_ok w))"
  by (auto simp: NewAuthorizer_def ValidTrustDomain_def check_entry_def Let_def first_some_None find_None_iff
      split: if_splits option.splits)

lemma sort_Nil: "sort xs = [] \<longleftrightarrow> xs = []"
  by (metis length_0_conv length_sort)

lemma Check_ok: "Check a srv = Inr () \<longleftrightarrow> set (registered srv) = fst ` set (authz_policy a)"
  by (auto simp: Check_def Let_def filter_empty_conv sort_Nil)

lemma Authorize_None:
  "Authorize a info method = None \<longleftrightarrow> (\<exists>p. Caller info = Some p \<and> Allowed a method p)"
  by (auto simp: Authorize_def Caller_def split: auth_info.splits sum.splits)

lemma Allowed_entry: "Allowed a method p \<Longrightarrow> method \<in> fst ` set (authz_policy a)"
  by (cases "map_of (authz_policy a) method")
     (auto simp: Allowed_def allowed_for_def dest!: map_of_SomeD intro: rev_image_eqI)

section \<open>Properties\<close>

text \<open>
  ParseSPIFFE accepts exactly the URLs of valid workload principals (nothing but host and the
  four-segment path) and returns the principal the URL spells: parsing and printing are inverse,
  and the printed form of valid principals is injective.
\<close>

theorem ParseSPIFFE_exact:
  "ParseSPIFFE (Some u) = Inr p \<longleftrightarrow> valid_principal p \<and> u = spiffe_url p \<and> url_text u = principal_String p"
  using ParseSPIFFE_sound [of u p] ParseSPIFFE_spiffe_url [of p] url_text_spiffe [of p] by auto

text \<open>
  C25. A call is let through only when the connection carries the verified identity of a single
  valid SPIFFE URI, in the authorizer's trust domain, and the reviewed policy has an entry for the
  method that names it or any authenticated workload; with a checked policy the entries are
  exactly the registered methods.
\<close>

theorem authorized_calls_are_listed:
  assumes "NewAuthorizer td pol = Inr a" "Check a srv = Inr ()" "Authorize a (PeerAuth (PeerPrincipal leaf)) method = None"
  shows "\<exists>p. leaf = Some [spiffe_url p] \<and> valid_principal p \<and> TrustDomain p = td
    \<and> method \<in> set (registered srv)
    \<and> (\<exists>w\<in>set (allowed_for a method). w = AnyAuthenticated \<or> (WNamespace w = Namespace p \<and> WServiceAccount w = ServiceAccount p))"
proof -
  obtain p where p: "PeerPrincipal leaf = Inr p" "Allowed a method p"
    using assms(3) by (auto simp: Authorize_None Caller_def split: sum.splits)
  then obtain u where u: "leaf = Some [u]" "ParseSPIFFE (Some u) = Inr p"
    by (auto simp: PeerPrincipal_def split: option.splits list.splits)
  have "method \<in> set (registered srv)" using Allowed_entry [OF p(2)] assms(2) by (simp add: Check_ok)
  moreover have "trust_domain a = td" using NewAuthorizer_ok [OF assms(1)] by simp
  ultimately show ?thesis using ParseSPIFFE_sound [OF u(2)] u(1) p(2) by (auto simp: Allowed_def)
qed

theorem authorized_calls_are_listed_witness:
  "\<exists>a p. NewAuthorizer ''ex.test'' [(''/pkg.S/M'', [\<lparr>WNamespace = ''ns1'', WServiceAccount = ''api''\<rparr>])] = Inr a
     \<and> Authorize a (PeerAuth (PeerPrincipal (Some [spiffe_url \<lparr>TrustDomain = ''ex.test'', Namespace = ''ns1'', ServiceAccount = ''api''\<rparr>]))) ''/pkg.S/M'' = None
     \<and> valid_principal p \<and> TrustDomain p = ''ex.test''"
proof -
  let ?pol = "[(''/pkg.S/M'', [\<lparr>WNamespace = ''ns1'', WServiceAccount = ''api''\<rparr>])]"
  let ?p = "\<lparr>TrustDomain = ''ex.test'', Namespace = ''ns1'', ServiceAccount = ''api''\<rparr>"
  let ?a = "\<lparr>trust_domain = ''ex.test'', authz_policy = ?pol\<rparr>"
  have l: "matches label ''ns1''" "matches label ''api''" "matches trustDomain ''ex.test''"
    by (simp_all add: matches_label matches_trustDomain class_defs char_code_def)
  have n: "NewAuthorizer ''ex.test'' ?pol = Inr ?a"
    by (simp add: NewAuthorizer_def ValidTrustDomain_def check_entry_def workload_ok_def HasPrefix_def Count_def Let_def l)
  have c: "Check ?a [(''pkg.S'', [''M''])] = Inr ()" by (simp add: Check_ok registered_def)
  have "valid_principal ?p" by (simp add: valid_principal_def l)
  then have z: "Authorize ?a (PeerAuth (PeerPrincipal (Some [spiffe_url ?p]))) ''/pkg.S/M'' = None"
    by (simp add: PeerPrincipal_def ParseSPIFFE_spiffe_url Authorize_def Allowed_def allowed_for_def)
  from authorized_calls_are_listed [OF n c z] n z show ?thesis by blast
qed

end
