(* ===== verification/Trust.thy ===== *)
theory Trust
  imports Workload
begin

text \<open>
  Rotating trust: Material, Parse, Load, TrustsRoot, filesDigest of
  internal/transport/identity/material.go, the Reloader of reloader.go (New, Reload, RetiredRoots)
  and the server side of credentials.go (connTracker, ServerHandshake, the closing of retired
  connections).

  crypto/tls, crypto/x509 and encoding/pem are given by a record of functions (\<open>pki\<close>), SHA-256
  by \<open>sha\<close>; the files are a function from a path to its bytes or an error. The concurrency of
  handshakes with reloads is the step relation \<open>trust_step\<close>.
\<close>

section \<open>Material\<close>

record cert =
  Raw :: string
  NotBefore :: int
  NotAfter :: int
  IsCA :: bool
  URIs :: "url list"

record pki =
  X509KeyPair :: "string \<Rightarrow> string \<Rightarrow> string + string"
  ParseCertificate :: "string \<Rightarrow> string + cert"
  PemBlocks :: "string \<Rightarrow> (string \<times> string) list"

record files =
  CertFile :: string
  KeyFile :: string
  CAFile :: string

record material =
  Leaf :: cert
  Pool :: "cert list"
  Roots :: "string \<rightharpoonup> cert"
  MDigest :: string

text \<open>The loop over the PEM blocks of the bundle: other blocks than certificates are skipped.\<close>

fun parse_roots ::
  "pki \<Rightarrow> (string \<Rightarrow> string) \<Rightarrow> (string \<times> string) list \<Rightarrow> cert list \<Rightarrow> (string \<rightharpoonup> cert) \<Rightarrow> string + cert list \<times> (string \<rightharpoonup> cert)" where
  "parse_roots x sha [] pool roots = Inr (pool, roots)"
| "parse_roots x sha ((ty, b) # rest) pool roots =
     (if ty \<noteq> ''CERTIFICATE'' then parse_roots x sha rest pool roots
      else (case ParseCertificate x b of
              Inl m \<Rightarrow> Inl (''ca bundle: '' @ m)
            | Inr ca \<Rightarrow>
                if \<not> IsCA ca then Inl ''ca bundle holds a non-CA certificate''
                else parse_roots x sha rest (pool @ [ca]) (roots(sha (Raw ca) \<mapsto> ca))))"

text \<open>What is hashed: the bytes of the three files, each followed by a zero byte.\<close>

definition framing :: "string list \<Rightarrow> string" where
  "framing bs = concat (map (\<lambda>b. b @ [CHR 0x00]) bs)"

definition Parse :: "pki \<Rightarrow> (string \<Rightarrow> string) \<Rightarrow> string \<Rightarrow> string \<Rightarrow> string \<Rightarrow> int \<Rightarrow> string + material" where
  "Parse x sha certPEM keyPEM caPEM now =
     bindR (case X509KeyPair x certPEM keyPEM of Inl m \<Rightarrow> Inl (''certificate and key: '' @ m) | Inr der \<Rightarrow> Inr der) (\<lambda>der.
     bindR (case ParseCertificate x der of Inl m \<Rightarrow> Inl (''leaf: '' @ m) | Inr c \<Rightarrow> Inr c) (\<lambda>leaf.
     if now < NotBefore leaf \<or> now > NotAfter leaf then Inl ''leaf is not valid''
     else bindR (parse_roots x sha (PemBlocks x caPEM) [] Map.empty) (\<lambda>pr.
       if snd pr = Map.empty then Inl ''ca bundle holds no certificate''
       else Inr \<lparr>Leaf = leaf, Pool = fst pr, Roots = snd pr, MDigest = sha (framing [certPEM, keyPEM, caPEM])\<rparr>)))"

type_synonym file_system = "string \<Rightarrow> string + string"

definition read_all :: "file_system \<Rightarrow> files \<Rightarrow> string + string \<times> string \<times> string" where
  "read_all fs f =
     bindR (fs (CertFile f)) (\<lambda>c. bindR (fs (KeyFile f)) (\<lambda>k. bindR (fs (CAFile f)) (\<lambda>a. Inr (c, k, a))))"

definition load_material :: "pki \<Rightarrow> (string \<Rightarrow> string) \<Rightarrow> file_system \<Rightarrow> files \<Rightarrow> int \<Rightarrow> string + material" where
  "load_material x sha fs f now =
     bindR (case fs (CertFile f) of Inl m \<Rightarrow> Inl (''certificate: '' @ m) | Inr b \<Rightarrow> Inr b) (\<lambda>c.
     bindR (case fs (KeyFile f) of Inl m \<Rightarrow> Inl (''key: '' @ m) | Inr b \<Rightarrow> Inr b) (\<lambda>k.
     bindR (case fs (CAFile f) of Inl m \<Rightarrow> Inl (''ca: '' @ m) | Inr b \<Rightarrow> Inr b) (\<lambda>a.
     Parse x sha c k a now)))"

definition filesDigest :: "(string \<Rightarrow> string) \<Rightarrow> file_system \<Rightarrow> files \<Rightarrow> string + string" where
  "filesDigest sha fs f = bindR (read_all fs f) (\<lambda>(c, k, a). Inr (sha (framing [c, k, a])))"

definition TrustsRoot :: "(string \<Rightarrow> string) \<Rightarrow> material option \<Rightarrow> cert option \<Rightarrow> bool" where
  "TrustsRoot sha m root =
     (case (m, root) of (Some m', Some r) \<Rightarrow> Roots m' (sha (Raw r)) \<noteq> None | _ \<Rightarrow> False)"

subsection \<open>What valid material is\<close>

text \<open>A bundle has a root, all of them are CA certificates under their fingerprint, and the pool is the roots.\<close>

definition roots_ok :: "(string \<Rightarrow> string) \<Rightarrow> cert list \<Rightarrow> (string \<rightharpoonup> cert) \<Rightarrow> bool" where
  "roots_ok sha pool roots \<longleftrightarrow>
     (\<forall>fp c. roots fp = Some c \<longrightarrow> IsCA c \<and> fp = sha (Raw c) \<and> c \<in> set pool) \<and>
     (\<forall>c\<in>set pool. IsCA c \<and> roots (sha (Raw c)) \<noteq> None)"

definition material_ok :: "(string \<Rightarrow> string) \<Rightarrow> material \<Rightarrow> bool" where
  "material_ok sha m \<longleftrightarrow> roots_ok sha (Pool m) (Roots m) \<and> Roots m \<noteq> Map.empty"

lemma roots_ok_add:
  "roots_ok sha pool roots \<Longrightarrow> IsCA ca \<Longrightarrow> roots_ok sha (pool @ [ca]) (roots(sha (Raw ca) \<mapsto> ca))"
  by (auto simp: roots_ok_def)

lemma parse_roots_ok:
  "parse_roots x sha bs pool roots = Inr (pool', roots') \<Longrightarrow> roots_ok sha pool roots \<Longrightarrow> roots_ok sha pool' roots'"
proof (induction x sha bs pool roots rule: parse_roots.induct)
  case (2 x sha ty b rest pool roots)
  show ?case
  proof (cases "ty = ''CERTIFICATE''")
    case True
    with 2 obtain ca where "ParseCertificate x b = Inr ca" "IsCA ca"
      "parse_roots x sha rest (pool @ [ca]) (roots(sha (Raw ca) \<mapsto> ca)) = Inr (pool', roots')"
      by (auto split: if_split_asm sum.split_asm)
    with True 2 roots_ok_add show ?thesis by (metis not_not)
  qed (use 2 in simp)
qed simp

lemma Parse_ok:
  assumes "Parse x sha c k a now = Inr m"
  shows "material_ok sha m \<and> NotBefore (Leaf m) \<le> now \<and> now \<le> NotAfter (Leaf m) \<and> MDigest m = sha (framing [c, k, a])"
proof -
  from assms obtain leaf pool roots where p: "parse_roots x sha (PemBlocks x a) [] Map.empty = Inr (pool, roots)"
    and m: "m = \<lparr>Leaf = leaf, Pool = pool, Roots = roots, MDigest = sha (framing [c, k, a])\<rparr>"
    and v: "\<not> now < NotBefore leaf" "\<not> NotAfter leaf < now" "roots \<noteq> Map.empty"
    unfolding Parse_def bindR_Inr by (auto split: if_split_asm)
  have "roots_ok sha pool roots" by (rule parse_roots_ok [OF p]) (simp add: roots_ok_def)
  with m v show ?thesis by (simp add: material_ok_def)
qed

lemma load_material_Parse:
  "load_material x sha fs f now = Inr m \<longleftrightarrow> (\<exists>c k a. read_all fs f = Inr (c, k, a) \<and> Parse x sha c k a now = Inr m)"
  by (auto simp: load_material_def read_all_def split: sum.splits)

lemma load_material_digest:
  "load_material x sha fs f now = Inr m \<Longrightarrow> filesDigest sha fs f = Inr (MDigest m)"
  by (auto simp: load_material_Parse filesDigest_def dest: Parse_ok)

text \<open>The framing separates files that hold no zero byte: the digest covers each file.\<close>

lemma Split_framing:
  "\<forall>b\<in>set bs. CHR 0x00 \<notin> set b \<Longrightarrow> Split CHR 0x00 (framing bs) = bs @ [[]]"
  by (induction bs) (auto simp: framing_def Split_append_sep)

lemma framing_inj:
  assumes "framing bs = framing bs'" "\<forall>b\<in>set bs. CHR 0x00 \<notin> set b" "\<forall>b\<in>set bs'. CHR 0x00 \<notin> set b"
  shows "bs = bs'"
proof -
  have "bs @ [[]] = bs' @ [[]]" using Split_framing [OF assms(2)] Split_framing [OF assms(3)] assms(1) by metis
  then show ?thesis by simp
qed

section \<open>The Reloader\<close>

record reloader =
  rfiles :: files
  current :: material
  failures :: nat

definition New :: "pki \<Rightarrow> (string \<Rightarrow> string) \<Rightarrow> file_system \<Rightarrow> files \<Rightarrow> int \<Rightarrow> string + reloader" where
  "New x sha fs f now =
     (if CertFile f = [] \<or> KeyFile f = [] \<or> CAFile f = []
      then Inl ''identity: cert_file, key_file and ca_file are required''
      else (case load_material x sha fs f now of
              Inl m \<Rightarrow> Inl (''identity: '' @ m)
            | Inr m \<Rightarrow> Inr \<lparr>rfiles = f, current = m, failures = 0\<rparr>))"

text \<open>
  Reload: the state after it and the change it publishes to the OnChange callbacks (previous and
  current material), none when it returns false. \<open>fs\<close> is read twice, for the digest and for
  the load, so the two readings are two arguments.
\<close>

definition Reload ::
  "pki \<Rightarrow> (string \<Rightarrow> string) \<Rightarrow> file_system \<Rightarrow> file_system \<Rightarrow> int \<Rightarrow> reloader \<Rightarrow> reloader \<times> (material \<times> material) option" where
  "Reload x sha fs fs' now r =
     (case filesDigest sha fs (rfiles r) of
        Inl e \<Rightarrow> (r\<lparr>failures := failures r + 1\<rparr>, None)
      | Inr digest \<Rightarrow>
          if digest = MDigest (current r) then (r, None)
          else (case load_material x sha fs' (rfiles r) now of
                  Inl e \<Rightarrow> (r\<lparr>failures := failures r + 1\<rparr>, None)
                | Inr m \<Rightarrow> (r\<lparr>failures := 0, current := m\<rparr>, Some (current r, m))))"

definition retired_fps :: "material \<Rightarrow> material \<Rightarrow> string set" where
  "retired_fps previous cur = {fp \<in> dom (Roots previous). Roots cur fp = None}"

lemma New_ok: "New x sha fs f now = Inr r \<Longrightarrow> material_ok sha (current r) \<and> failures r = 0 \<and> rfiles r = f"
  by (auto simp: New_def load_material_Parse split: if_splits sum.splits dest: Parse_ok)

lemma Reload_keeps:
  assumes "material_ok sha (current r)"
  shows "material_ok sha (current (fst (Reload x sha fs fs' now r)))"
  using assms by (auto simp: Reload_def load_material_Parse split: sum.splits dest: Parse_ok)

lemma Reload_published:
  "snd (Reload x sha fs fs' now r) = Some (p, m) \<longleftrightarrow>
     p = current r \<and> (\<exists>d. filesDigest sha fs (rfiles r) = Inr d \<and> d \<noteq> MDigest (current r)) \<and>
     load_material x sha fs' (rfiles r) now = Inr m"
  by (auto simp: Reload_def split: sum.splits)

lemma Reload_rejected:
  "snd (Reload x sha fs fs' now r) = None \<Longrightarrow> current (fst (Reload x sha fs fs' now r)) = current r"
  by (auto simp: Reload_def split: sum.splits if_splits)

lemma Reload_current:
  "snd (Reload x sha fs fs' now r) = Some (p, m) \<Longrightarrow>
   current (fst (Reload x sha fs fs' now r)) = m \<and> failures (fst (Reload x sha fs fs' now r)) = 0"
  by (auto simp: Reload_def split: sum.splits if_splits)

text \<open>A reload of unchanged files does nothing: after an accepted one the next is idle.\<close>

lemma Reload_settled:
  assumes "snd (Reload x sha fs fs now r) = Some pm"
  shows "Reload x sha fs fs now' (fst (Reload x sha fs fs now r)) = (fst (Reload x sha fs fs now r), None)"
proof -
  obtain p m where pm: "pm = (p, m)" by (cases pm)
  with assms have l: "load_material x sha fs (rfiles r) now = Inr m" by (simp add: Reload_published)
  have s: "fst (Reload x sha fs fs now r) = r\<lparr>failures := 0, current := m\<rparr>"
    using assms pm l by (auto simp: Reload_def split: sum.splits if_splits)
  show ?thesis
    unfolding s using load_material_digest [OF l] by (simp add: Reload_def)
qed

section \<open>Connections\<close>

text \<open>connTracker: the open server connections by the fingerprint of the root that verified them.\<close>

type_synonym tracker = "string \<rightharpoonup> nat set"

definition track_add :: "string \<Rightarrow> nat \<Rightarrow> tracker \<Rightarrow> tracker" where
  "track_add fp c t = t(fp \<mapsto> insert c (case t fp of None \<Rightarrow> {} | Some cs \<Rightarrow> cs))"

definition track_remove :: "string \<Rightarrow> nat \<Rightarrow> tracker \<Rightarrow> tracker" where
  "track_remove fp c t =
     (case t fp of
        None \<Rightarrow> t
      | Some cs \<Rightarrow> if cs - {c} = {} then t(fp := None) else t(fp \<mapsto> cs - {c}))"

text \<open>closeRetired: the tracker left and the connections closed.\<close>

definition closeRetired :: "material \<Rightarrow> tracker \<Rightarrow> tracker \<times> nat set" where
  "closeRetired cur t =
     ((\<lambda>fp. if Roots cur fp = None then None else t fp),
      {c. \<exists>fp cs. t fp = Some cs \<and> Roots cur fp = None \<and> c \<in> cs})"

definition tracked :: "tracker \<Rightarrow> (string \<times> nat) set" where
  "tracked t = {(fp, c). \<exists>cs. t fp = Some cs \<and> c \<in> cs}"

lemma tracked_add [simp]: "tracked (track_add fp c t) = insert (fp, c) (tracked t)"
  by (auto simp: tracked_def track_add_def split: option.splits if_splits)

lemma tracked_remove [simp]: "tracked (track_remove fp c t) = tracked t - {(fp, c)}"
  by (auto simp: tracked_def track_remove_def split: option.splits if_splits)

lemma tracked_closeRetired [simp]:
  "tracked (fst (closeRetired cur t)) = {(fp, c) \<in> tracked t. fp \<in> dom (Roots cur)}"
  "snd (closeRetired cur t) = snd ` {(fp, c) \<in> tracked t. fp \<notin> dom (Roots cur)}"
  by (auto simp: tracked_def closeRetired_def domIff image_iff split: if_splits) blast+

text \<open>
  ServerHandshake after the TLS handshake: \<open>tls\<close> gives the verified chains of its state. The
  peer is tracked under the last certificate of the first chain.
\<close>

definition ServerHandshake ::
  "(string \<Rightarrow> string) \<Rightarrow> nat \<Rightarrow> string + cert list list \<Rightarrow> tracker \<Rightarrow> (string + auth_info) \<times> tracker" where
  "ServerHandshake sha c tls t =
     (case tls of
        Inl m \<Rightarrow> (Inl m, t)
      | Inr chs \<Rightarrow>
          (case chs of
             (leaf # rest) # _ \<Rightarrow>
               (Inr (PeerAuth (PeerPrincipal (Some (URIs leaf)))), track_add (sha (Raw (last (leaf # rest)))) c t)
           | _ \<Rightarrow> (Inl ''identity: peer chain not verified'', t)))"

subsection \<open>Handshakes and reloads together\<close>

text \<open>
  The server of a Reloader: the fingerprints of the current roots, the number of publications, whether
  the last publication still has to run its callback, the handshakes under way with the roots and
  the publication they started under, the tracker, and, for each tracked connection, the
  publication its handshake started under.
\<close>

record trust =
  roots_now :: "string set"
  version :: nat
  callback_due :: bool
  shaking :: "nat \<rightharpoonup> string set \<times> nat"
  conns :: tracker
  began :: "nat \<Rightarrow> nat"

definition trust_init :: "string set \<Rightarrow> trust" where
  "trust_init R = \<lparr>roots_now = R, version = 0, callback_due = False, shaking = Map.empty,
     conns = Map.empty, began = (\<lambda>_. 0)\<rparr>"

inductive trust_step :: "trust \<Rightarrow> trust \<Rightarrow> bool" where
  begin_handshake: "shaking s c = None \<Longrightarrow> (\<forall>fp. (fp, c) \<notin> tracked (conns s)) \<Longrightarrow>
    trust_step s (s\<lparr>shaking := (shaking s)(c \<mapsto> (roots_now s, version s))\<rparr>)"
| end_handshake: "shaking s c = Some (R, v) \<Longrightarrow> fp \<in> R \<Longrightarrow>
    trust_step s (s\<lparr>shaking := (shaking s)(c := None), conns := track_add fp c (conns s), began := (began s)(c := v)\<rparr>)"
| fail_handshake: "shaking s c = Some (R, v) \<Longrightarrow> trust_step s (s\<lparr>shaking := (shaking s)(c := None)\<rparr>)"
| close_conn: "(fp, c) \<in> tracked (conns s) \<Longrightarrow> trust_step s (s\<lparr>conns := track_remove fp c (conns s)\<rparr>)"
| publish: "\<not> callback_due s \<Longrightarrow> trust_step s (s\<lparr>roots_now := R, version := version s + 1, callback_due := True\<rparr>)"
| callback: "callback_due s \<Longrightarrow> {fp. Roots m fp \<noteq> None} = roots_now s \<Longrightarrow>
    trust_step s (s\<lparr>callback_due := False, conns := fst (closeRetired m (conns s))\<rparr>)"

inductive trust_reach :: "string set \<Rightarrow> trust \<Rightarrow> bool" for R where
  trust_start: "trust_reach R (trust_init R)"
| trust_next: "trust_reach R s \<Longrightarrow> trust_step s t \<Longrightarrow> trust_reach R t"

inductive_cases trust_stepE: "trust_step s t"

text \<open>
  Outside a publication whose callback is due, a connection under a root that is no longer
  trusted is one whose handshake started before the last publication.
\<close>

definition trust_inv :: "trust \<Rightarrow> bool" where
  "trust_inv s \<longleftrightarrow>
     (\<forall>c R v. shaking s c = Some (R, v) \<longrightarrow> v \<le> version s \<and> (v = version s \<longrightarrow> R = roots_now s)) \<and>
     (\<forall>fp c. (fp, c) \<in> tracked (conns s) \<longrightarrow> began s c \<le> version s \<and> (began s c = version s \<longrightarrow> fp \<in> roots_now s)) \<and>
     (\<forall>fp c. (fp, c) \<in> tracked (conns s) \<longrightarrow> shaking s c = None) \<and>
     (\<forall>fp fp' c. (fp, c) \<in> tracked (conns s) \<longrightarrow> (fp', c) \<in> tracked (conns s) \<longrightarrow> fp = fp')"

lemma trust_inv_step: "trust_step s t \<Longrightarrow> trust_inv s \<Longrightarrow> trust_inv t"
proof (erule trust_stepE)
  fix c R v fp
  assume inv: "trust_inv s" and sh: "shaking s c = Some (R, v)" and fp: "fp \<in> R"
    and t: "t = s\<lparr>shaking := (shaking s)(c := None), conns := track_add fp c (conns s), began := (began s)(c := v)\<rparr>"
  have "\<forall>fp. (fp, c) \<notin> tracked (conns s)" using inv sh unfolding trust_inv_def by (metis option.distinct(1))
  with inv sh fp show "trust_inv t" unfolding t trust_inv_def by (auto split: if_splits)
qed (fastforce simp: trust_inv_def domIff split: if_splits)+

lemma trust_inv_reach: "trust_reach R s \<Longrightarrow> trust_inv s"
proof (induction rule: trust_reach.induct)
  case trust_start
  show ?case by (simp add: trust_inv_def trust_init_def tracked_def)
next
  case (trust_next s t)
  then show ?case using trust_inv_step by blast
qed

lemma trusted_unless_spanning:
  assumes "trust_reach R s" "(fp, c) \<in> tracked (conns s)" "began s c = version s"
  shows "fp \<in> roots_now s"
  using trust_inv_reach [OF assms(1)] assms(2,3) by (auto simp: trust_inv_def)

text \<open>A callback leaves only trusted connections, whatever handshakes ran before it.\<close>

lemma callback_cleans:
  assumes "{fp. Roots m fp \<noteq> None} = roots_now s" "(fp, c) \<in> tracked (fst (closeRetired m (conns s)))"
  shows "fp \<in> roots_now s"
  using assms by (auto simp: domIff)

text \<open>A handshake that spans a publication and its callback leaves a connection under a retired root.\<close>

lemma retired_root_kept:
  fixes m :: material
  assumes "fp \<in> R" "fp \<notin> R'" "{fp. Roots m fp \<noteq> None} = R'"
  shows "\<exists>s c. trust_reach R s \<and> \<not> callback_due s \<and> roots_now s = R' \<and> (fp, c) \<in> tracked (conns s)"
proof -
  let ?s0 = "trust_init R"
  let ?s1 = "?s0\<lparr>shaking := Map.empty(0 \<mapsto> (R, 0))\<rparr>"
  let ?s2 = "?s1\<lparr>roots_now := R', version := 1, callback_due := True\<rparr>"
  let ?s3 = "?s2\<lparr>callback_due := False, conns := fst (closeRetired m Map.empty)\<rparr>"
  let ?s4 = "?s3\<lparr>shaking := Map.empty, conns := track_add fp 0 (fst (closeRetired m Map.empty)), began := (\<lambda>_. 0)(0 := 0)\<rparr>"
  have "trust_step ?s0 ?s1" using begin_handshake [of ?s0 0] by (simp add: trust_init_def tracked_def)
  moreover have "trust_step ?s1 ?s2" using publish [of ?s1 R'] by (simp add: trust_init_def)
  moreover have "trust_step ?s2 ?s3" using callback [of ?s2 m] assms(3) by (simp add: trust_init_def)
  moreover have "trust_step ?s3 ?s4" using end_handshake [of ?s3 0 R 0 fp] assms(1) by (simp add: trust_init_def)
  ultimately have "trust_reach R ?s4" by (meson trust_start trust_next)
  then show ?thesis by (intro exI [of _ ?s4] exI [of _ 0]) simp
qed

section \<open>Properties\<close>

text \<open>
  C20. A Reloader built by New keeps valid material in force across any reload (a non-empty bundle
  of CA certificates under their fingerprints), a rejected candidate leaves the material as it
  was, and a published one is the whole, validated content of changed files.
\<close>

theorem reload_keeps_valid_material:
  assumes "Trust.New x sha fs0 f now0 = Inr r0"
    and "r = foldl (\<lambda>r (fs, fs', now). fst (Reload x sha fs fs' now r)) r0 history"
    and "Reload x sha fs fs' now r = (r', change)"
  shows "material_ok sha (current r')
    \<and> (case change of
         None \<Rightarrow> current r' = current r
       | Some (previous, m) \<Rightarrow> previous = current r \<and> current r' = m \<and> failures r' = 0
           \<and> load_material x sha fs' (rfiles r) now = Inr m \<and> NotBefore (Leaf m) \<le> now \<and> now \<le> NotAfter (Leaf m))"
proof -
  have "material_ok sha (current (foldl (\<lambda>r (fs, fs', now). fst (Reload x sha fs fs' now r)) r0 h))" for h
    using New_ok [OF assms(1)] Reload_keeps by (induction h rule: rev_induct) auto
  then have "material_ok sha (current r)" using assms(2) by simp
  then have ok: "material_ok sha (current r')" using Reload_keeps [of sha r x fs fs' now] assms(3) by simp
  show ?thesis
  proof (cases change)
    case None
    then show ?thesis using ok Reload_rejected [of x sha fs fs' now r] assms(3) by simp
  next
    case (Some pm)
    obtain p m where pm: "pm = (p, m)" by (cases pm)
    then have ch: "snd (Reload x sha fs fs' now r) = Some (p, m)" using Some assms(3) by simp
    then have "load_material x sha fs' (rfiles r) now = Inr m" "p = current r" by (simp_all add: Reload_published)
    then show ?thesis using ok Some pm Reload_current [OF ch] assms(3) by (auto simp: load_material_Parse dest: Parse_ok)
  qed
qed

definition demo_pki :: pki where
  "demo_pki = \<lparr>X509KeyPair = (\<lambda>c k. Inr c),
     ParseCertificate = (\<lambda>d. Inr \<lparr>Raw = d, NotBefore = 0, NotAfter = 100, IsCA = d \<noteq> ''leaf'', URIs = []\<rparr>),
     PemBlocks = (\<lambda>b. [(''CERTIFICATE'', b)])\<rparr>"

definition demo_fs :: "string \<Rightarrow> file_system" where
  "demo_fs ca = (\<lambda>p. if p = ''crt'' then Inr ''leaf'' else if p = ''key'' then Inr ''key'' else Inr ca)"

lemma demo_load:
  "ca \<noteq> ''leaf'' \<Longrightarrow> load_material demo_pki id (demo_fs ca) \<lparr>CertFile = ''crt'', KeyFile = ''key'', CAFile = ''ca''\<rparr> 5 =
     Inr \<lparr>Leaf = \<lparr>Raw = ''leaf'', NotBefore = 0, NotAfter = 100, IsCA = False, URIs = []\<rparr>,
          Pool = [\<lparr>Raw = ca, NotBefore = 0, NotAfter = 100, IsCA = True, URIs = []\<rparr>],
          Roots = Map.empty(ca \<mapsto> \<lparr>Raw = ca, NotBefore = 0, NotAfter = 100, IsCA = True, URIs = []\<rparr>),
          MDigest = framing [''leaf'', ''key'', ca]\<rparr>"
  by (simp add: load_material_def demo_fs_def Parse_def demo_pki_def)

theorem reload_keeps_valid_material_witness:
  "\<exists>r0 r' m. Trust.New demo_pki id (demo_fs ''ca1'') \<lparr>CertFile = ''crt'', KeyFile = ''key'', CAFile = ''ca''\<rparr> 5 = Inr r0
     \<and> Reload demo_pki id (demo_fs ''ca2'') (demo_fs ''ca2'') 5 r0 = (r', Some (current r0, m))
     \<and> material_ok id (current r') \<and> current r' = m"
proof -
  let ?f = "\<lparr>CertFile = ''crt'', KeyFile = ''key'', CAFile = ''ca''\<rparr>"
  obtain m1 where m1: "load_material demo_pki id (demo_fs ''ca1'') ?f 5 = Inr m1" "MDigest m1 = framing [''leaf'', ''key'', ''ca1'']"
    using demo_load [of "''ca1''"] by simp
  obtain m2 where m2: "load_material demo_pki id (demo_fs ''ca2'') ?f 5 = Inr m2"
    using demo_load [of "''ca2''"] by simp
  let ?r0 = "\<lparr>rfiles = ?f, current = m1, failures = 0\<rparr>"
  let ?r1 = "?r0\<lparr>current := m2\<rparr>"
  have n: "Trust.New demo_pki id (demo_fs ''ca1'') ?f 5 = Inr ?r0" using m1(1) by (simp add: New_def)
  have r: "Reload demo_pki id (demo_fs ''ca2'') (demo_fs ''ca2'') 5 ?r0 = (?r1, Some (m1, m2))"
    using m1(2) m2 by (simp add: Reload_def filesDigest_def read_all_def demo_fs_def framing_def)
  from reload_keeps_valid_material [OF n _ r, of "[]"] have "material_ok id (current ?r1)" by simp
  with n r show ?thesis by (intro exI [of _ ?r0] exI [of _ ?r1] exI [of _ m2]) simp
qed

text \<open>
  A poll that finds the files it last accepted does nothing: after a published reload the next one
  of the same files neither publishes nor counts a failure.
\<close>

theorem reload_settles:
  assumes "snd (Reload x sha fs fs now r) = Some change"
  shows "Reload x sha fs fs now' (fst (Reload x sha fs fs now r)) = (fst (Reload x sha fs fs now r), None)"
  by (rule Reload_settled [OF assms])

theorem reload_settles_witness:
  "\<exists>r. snd (Reload demo_pki id (demo_fs ''ca2'') (demo_fs ''ca2'') 5 r) \<noteq> None
     \<and> snd (Reload demo_pki id (demo_fs ''ca2'') (demo_fs ''ca2'') 9 (fst (Reload demo_pki id (demo_fs ''ca2'') (demo_fs ''ca2'') 5 r))) = None"
proof -
  let ?f = "\<lparr>CertFile = ''crt'', KeyFile = ''key'', CAFile = ''ca''\<rparr>"
  obtain m1 :: material where m1: "MDigest m1 = framing [''leaf'', ''key'', ''ca1'']"
    by (metis material.select_convs(4))
  obtain m2 where m2: "load_material demo_pki id (demo_fs ''ca2'') ?f 5 = Inr m2"
    using demo_load [of "''ca2''"] by simp
  let ?r0 = "\<lparr>rfiles = ?f, current = m1, failures = 0\<rparr>"
  have s: "snd (Reload demo_pki id (demo_fs ''ca2'') (demo_fs ''ca2'') 5 ?r0) = Some (m1, m2)"
    using m1 m2 by (simp add: Reload_def filesDigest_def read_all_def demo_fs_def framing_def)
  from reload_settles [OF s, of 9] s show ?thesis by (intro exI [of _ ?r0]) simp
qed

text \<open>
  A served connection is under a currently trusted root as long as no root was published since
  its handshake began.
\<close>

theorem connection_trusted:
  assumes "trust_reach R s" "(fp, c) \<in> tracked (conns s)" "began s c = version s"
  shows "fp \<in> roots_now s"
  by (rule trusted_unless_spanning [OF assms])

theorem connection_trusted_witness:
  "\<exists>s. trust_reach {''r1''} s \<and> (''r1'', 0) \<in> tracked (conns s) \<and> ''r1'' \<in> roots_now s"
proof -
  let ?s0 = "trust_init {''r1''}"
  let ?s1 = "?s0\<lparr>shaking := Map.empty(0 \<mapsto> ({''r1''}, 0))\<rparr>"
  let ?s2 = "?s1\<lparr>shaking := Map.empty, conns := track_add ''r1'' 0 Map.empty, began := (\<lambda>_. 0)(0 := 0)\<rparr>"
  have "trust_step ?s0 ?s1" using begin_handshake [of ?s0 0] by (simp add: trust_init_def tracked_def)
  moreover have "trust_step ?s1 ?s2" using end_handshake [of ?s1 0 "{''r1''}" 0 "''r1''"] by (simp add: trust_init_def)
  ultimately have r: "trust_reach {''r1''} ?s2" by (meson trust_start trust_next)
  from connection_trusted [OF this, of "''r1''" 0] have "''r1'' \<in> roots_now ?s2" by (simp add: trust_init_def)
  with r show ?thesis by (intro exI [of _ ?s2]) simp
qed

text \<open>
  A handshake that a publication and its callback overtake leaves a served connection under a
  root that is no longer trusted, with no callback left to close it. This is a defect of the code.
\<close>

theorem retired_root_can_stay:
  fixes m :: material
  assumes "fp \<in> R" "fp \<notin> R'" "{fp. Roots m fp \<noteq> None} = R'"
  shows "\<exists>s c. trust_reach R s \<and> \<not> callback_due s \<and> roots_now s = R' \<and> (fp, c) \<in> tracked (conns s)"
  by (rule retired_root_kept [OF assms])

theorem retired_root_can_stay_witness:
  "\<exists>s c. trust_reach {''old''} s \<and> \<not> callback_due s \<and> roots_now s = {''new''} \<and> (''old'', c) \<in> tracked (conns s)"
proof -
  let ?c = "\<lparr>Raw = ''new'', NotBefore = 0, NotAfter = 1, IsCA = True, URIs = []\<rparr>"
  have "{fp. Roots \<lparr>Leaf = ?c, Pool = [?c], Roots = Map.empty(''new'' \<mapsto> ?c), MDigest = []\<rparr> fp \<noteq> None} = {''new''}"
    by auto
  from retired_root_can_stay [OF _ _ this, of "''old''" "{''old''}"] show ?thesis by auto
qed

end
