(* ===== verification/Mounts.thy ===== *)
theory Mounts
  imports Trust "HOL-Library.AList" "HOL-Library.Multiset"
begin

text \<open>
  Identity files that are rotated under the service: Mount and Files of
  internal/transport/identity/identitytest/pki.go, which write and replace the three files the way
  the kubelet mounts a Secret, on the files and symbolic links of one directory, and what a Reloader (theory Trust)
  reads and publishes while that happens.

  A tree is the mount directory: a list of paths, relative to it, with their nodes. Every system
  call of Mount is one operation on the tree, and os.WriteFile is two (the file is created or
  truncated, then written), so that every tree a concurrent reader can meet is in \<open>instants\<close>. The
  other files of the machine are not in the tree.
\<close>

section \<open>A directory with symbolic links\<close>

type_synonym path = "string list"

datatype node = Plain string | Symlink path | Directory

type_synonym tree = "(path \<times> node) list"

text \<open>
  The resolution of a path: the components \<open>rest\<close> below the directory \<open>here\<close>, at most \<open>n\<close> symbolic
  links, whose relative targets continue in the directory that holds the link.
\<close>

function walk :: "nat \<Rightarrow> tree \<Rightarrow> path \<Rightarrow> path \<Rightarrow> path option" where
  "walk n t here [] = Some here"
| "walk n t here (c # rest) =
     (case map_of t (here @ [c]) of
        None \<Rightarrow> None
      | Some (Symlink target) \<Rightarrow> (if n = 0 then None else walk (n - 1) t here (target @ rest))
      | Some _ \<Rightarrow> walk n t (here @ [c]) rest)"
  by pat_completeness auto
termination
  by (relation "measures [\<lambda>(n, _, _, _). n, \<lambda>(_, _, _, rest). length rest]") auto

definition resolve :: "tree \<Rightarrow> path \<Rightarrow> path option" where
  "resolve t p = walk 40 t [] p"

definition ReadFile :: "tree \<Rightarrow> path \<Rightarrow> string + string" where
  "ReadFile t p =
     (case resolve t p of
        None \<Rightarrow> Inl ''no such file or directory''
      | Some q \<Rightarrow> (case map_of t q of Some (Plain b) \<Rightarrow> Inr b | _ \<Rightarrow> Inl ''is a directory''))"

type_synonym op = "tree \<Rightarrow> string + tree"

text \<open>The directory itself is the empty path.\<close>

definition MkdirAll :: op where
  "MkdirAll t =
     (case map_of t [] of
        None \<Rightarrow> Inr (AList.update [] Directory t)
      | Some Directory \<Rightarrow> Inr t
      | Some _ \<Rightarrow> Inl ''not a directory'')"

text \<open>A new entry: nothing has the name, and its parent is a directory.\<close>

definition create :: "path \<Rightarrow> node \<Rightarrow> op" where
  "create p n t =
     (if map_of t p \<noteq> None then Inl ''file exists''
      else if p = [] \<or> map_of t (butlast p) \<noteq> Some Directory then Inl ''no such file or directory''
      else Inr (AList.update p n t))"

definition WriteFile :: "path \<Rightarrow> string \<Rightarrow> op" where
  "WriteFile p b t =
     (case resolve t p of
        None \<Rightarrow> create p (Plain b) t
      | Some q \<Rightarrow> (case map_of t q of Some (Plain _) \<Rightarrow> Inr (AList.update q (Plain b) t) | _ \<Rightarrow> Inl ''is a directory''))"

definition Remove :: "path \<Rightarrow> op" where
  "Remove p t =
     (case map_of t p of
        None \<Rightarrow> Inl ''no such file or directory''
      | Some n \<Rightarrow>
          if n = Directory \<and> (\<exists>(q, _)\<in>set t. q \<noteq> [] \<and> butlast q = p) then Inl ''directory not empty''
          else Inr (AList.delete p t))"

text \<open>Rename of a file or a link, the only ones here: the new name is replaced at once, unless it is a directory.\<close>

definition Rename :: "path \<Rightarrow> path \<Rightarrow> op" where
  "Rename p q t =
     (case map_of t p of
        None \<Rightarrow> Inl ''no such file or directory''
      | Some n \<Rightarrow>
          if n = Directory \<or> map_of t q = Some Directory then Inl ''file exists''
          else if q = [] \<or> map_of t (butlast q) \<noteq> Some Directory then Inl ''no such file or directory''
          else Inr (AList.update q n (AList.delete p t)))"

section \<open>Mount\<close>

record leaf =
  CertPEM :: string
  KeyPEM :: string

text \<open>What one Mount writes, under the names of Files.\<close>

definition bodies :: "leaf \<Rightarrow> string \<Rightarrow> (string \<times> string) list" where
  "bodies l caBundle = [(''tls.crt'', CertPEM l), (''tls.key'', KeyPEM l), (''ca.crt'', caBundle)]"

definition ignored :: "op \<Rightarrow> op" where
  "ignored f t = (case f t of Inl e \<Rightarrow> Inr t | Inr t' \<Rightarrow> Inr t')"

definition link_once :: "string \<Rightarrow> op" where
  "link_once name t = (if map_of t [name] = None then create [name] (Symlink [''..data'', name]) t else Inr t)"

text \<open>
  The system calls of Mount: \<open>ts\<close> is the fresh name that os.MkdirTemp takes, and \<open>order\<close> the order
  in which the iteration over the map of bodies writes them.
\<close>

definition Mount :: "string \<Rightarrow> (string \<times> string) list \<Rightarrow> op list" where
  "Mount ts order =
     [MkdirAll, create [ts] Directory] @
     concat (map (\<lambda>(name, body). [WriteFile [ts, name] [], WriteFile [ts, name] body]) order) @
     [ignored (Remove [''..data_tmp'']), create [''..data_tmp''] (Symlink [ts]), Rename [''..data_tmp''] [''..data'']] @
     map link_once [''tls.crt'', ''tls.key'', ''ca.crt'']"

definition mount_Files :: "string \<Rightarrow> files" where
  "mount_Files dir = \<lparr>CertFile = Join CHR ''/'' [dir, ''tls.crt''], KeyFile = Join CHR ''/'' [dir, ''tls.key''],
     CAFile = Join CHR ''/'' [dir, ''ca.crt'']\<rparr>"

text \<open>The run of system calls; \<open>t.Fatal\<close> ends it. \<open>instants\<close>: the tree before it and after each call.\<close>

fun run_ops :: "op list \<Rightarrow> tree \<Rightarrow> string + tree" where
  "run_ops [] t = Inr t"
| "run_ops (f # fs) t = bindR (f t) (run_ops fs)"

fun instants :: "op list \<Rightarrow> tree \<Rightarrow> tree list" where
  "instants [] t = [t]"
| "instants (f # fs) t = t # (case f t of Inl e \<Rightarrow> [] | Inr t' \<Rightarrow> instants fs t')"

text \<open>A path of the machine, as the program has it, in the tree of the directory \<open>dir\<close>.\<close>

definition below :: "string \<Rightarrow> string \<Rightarrow> path option" where
  "below dir p = (let d = Split CHR ''/'' dir; q = Split CHR ''/'' p in if take (length d) q = d then Some (drop (length d) q) else None)"

definition read_at :: "string \<Rightarrow> tree \<Rightarrow> file_system" where
  "read_at dir t p = (case below dir p of None \<Rightarrow> Inl ''no such file or directory'' | Some q \<Rightarrow> ReadFile t q)"

section \<open>What Mount leaves, at every instant\<close>

lemmas map_of_change [simp] = update_conv' delete_conv'

text \<open>A tree: what has an entry below it is a directory.\<close>

definition wf_tree :: "tree \<Rightarrow> bool" where
  "wf_tree t \<longleftrightarrow> (\<forall>p c. map_of t (p @ [c]) \<noteq> None \<longrightarrow> map_of t p = Some Directory)"

lemma wf_treeD: "wf_tree t \<Longrightarrow> map_of t (p @ [c]) = Some n \<Longrightarrow> map_of t p = Some Directory"
  unfolding wf_tree_def by blast

text \<open>The names that Mount uses are free for it, or as an earlier Mount has left them.\<close>

definition names :: "string list" where
  "names = [''tls.crt'', ''tls.key'', ''ca.crt'']"

definition mountable :: "tree \<Rightarrow> bool" where
  "mountable t \<longleftrightarrow> wf_tree t \<and> map_of t [] \<in> {None, Some Directory} \<and>
     map_of t [''..data''] \<noteq> Some Directory \<and> map_of t [''..data_tmp''] \<noteq> Some Directory \<and>
     (\<forall>n\<in>set names. map_of t [n] \<in> {None, Some (Symlink [''..data'', n])})"

text \<open>The three files in the directory \<open>ts\<close>, which \<open>..data\<close> names; the stable names lead there.\<close>

type_synonym secret = "leaf \<times> string"

definition staged :: "tree \<Rightarrow> string \<Rightarrow> secret \<Rightarrow> bool" where
  "staged t ts b \<longleftrightarrow> map_of t [ts] = Some Directory \<and>
     (\<forall>(n, body)\<in>set (bodies (fst b) (snd b)). map_of t [ts, n] = Some (Plain body))"

definition mounted :: "tree \<Rightarrow> string \<Rightarrow> secret \<Rightarrow> bool" where
  "mounted t ts b \<longleftrightarrow> staged t ts b \<and> map_of t [''..data''] = Some (Symlink [ts]) \<and>
     (\<forall>n\<in>set names. map_of t [n] = Some (Symlink [''..data'', n]))"

definition temp_name :: "string \<Rightarrow> bool" where
  "temp_name ts \<longleftrightarrow> take 5 ts = ''..ts-''"

lemma temp_name_new [simp]:
  "temp_name ts \<Longrightarrow> ts \<noteq> ''..data'' \<and> ts \<noteq> ''..data_tmp'' \<and> ts \<notin> set names"
  by (auto simp: temp_name_def names_def)

lemma fixed_names [simp]:
  "\<not> temp_name ''..data''" "\<not> temp_name ''..data_tmp''" "''..data'' \<notin> set names" "''..data_tmp'' \<notin> set names"
  "n \<in> set names \<Longrightarrow> \<not> temp_name n"
  by (auto simp: temp_name_def names_def)

lemma distinct_names: "distinct names"
  by (simp add: names_def)

text \<open>A mounted directory answers the three names with the three bodies.\<close>

lemma mounted_reads:
  assumes "mounted t ts b" "(n, body) \<in> set (bodies (fst b) (snd b))"
  shows "ReadFile t [n] = Inr body"
proof -
  have "n \<in> set names" using assms(2) by (auto simp: bodies_def names_def)
  with assms have "map_of t [n] = Some (Symlink [''..data'', n])" "map_of t [''..data''] = Some (Symlink [ts])"
    "map_of t [ts] = Some Directory" "map_of t [ts, n] = Some (Plain body)"
    by (auto simp: mounted_def staged_def)
  then show ?thesis by (simp add: ReadFile_def resolve_def)
qed

subsection \<open>Runs that keep something\<close>

definition keeps :: "(tree \<Rightarrow> bool) \<Rightarrow> op list \<Rightarrow> tree \<Rightarrow> tree \<Rightarrow> bool" where
  "keeps I fs t t' \<longleftrightarrow> run_ops fs t = Inr t' \<and> (\<forall>u\<in>set (instants fs t). I u)"

lemma keeps_Nil [simp]: "keeps I [] t t' \<longleftrightarrow> t' = t \<and> I t"
  by (auto simp: keeps_def)

lemma keeps_Cons [simp]: "keeps I (f # fs) t t' \<longleftrightarrow> I t \<and> (\<exists>u. f t = Inr u \<and> keeps I fs u t')"
  by (auto simp: keeps_def split: sum.splits)

lemma keeps_append: "keeps I (fs @ gs) t t' \<longleftrightarrow> (\<exists>u. keeps I fs t u \<and> keeps I gs u t')"
proof (induction fs arbitrary: t)
  case Nil
  have "keeps I gs t t' \<Longrightarrow> I t" by (cases gs) auto
  then show ?case by auto
next
  case (Cons f fs)
  then show ?case by auto
qed

lemma keeps_mono: "keeps I fs t t' \<Longrightarrow> (\<And>u. I u \<Longrightarrow> J u) \<Longrightarrow> keeps J fs t t'"
  by (auto simp: keeps_def)

lemma run_keeps: "run_ops fs t = Inr t' \<longleftrightarrow> keeps (\<lambda>_. True) fs t t'"
  by (simp add: keeps_def)

lemma run_ops_append: "run_ops (fs @ gs) t = bindR (run_ops fs t) (run_ops gs)"
  by (induction fs arbitrary: t) (auto simp: bindR_def split: sum.splits)

lemma instants_append:
  "run_ops fs t = Inr u \<Longrightarrow> instants (fs @ gs) t = butlast (instants fs t) @ instants gs u"
proof (induction fs arbitrary: t)
  case (Cons f fs)
  moreover have "instants fs v \<noteq> []" for v by (cases fs) auto
  ultimately show ?case by auto
qed simp

lemma last_instant: "run_ops fs t = Inr u \<Longrightarrow> instants fs t \<noteq> [] \<and> last (instants fs t) = u"
  by (induction fs t rule: instants.induct) (auto split: sum.splits)

subsection \<open>The steps of Mount\<close>

lemma keeps_last: "keeps I fs t t' \<Longrightarrow> I t'"
  by (induction fs arbitrary: t) auto

text \<open>Every operation keeps a tree a tree.\<close>

definition keeps_tree :: "op \<Rightarrow> bool" where
  "keeps_tree f \<longleftrightarrow> (\<forall>t t'. wf_tree t \<longrightarrow> f t = Inr t' \<longrightarrow> wf_tree t')"

lemma wf_update:
  assumes "wf_tree t" "map_of t p \<noteq> Some Directory \<or> n = Directory" "p = [] \<or> map_of t (butlast p) = Some Directory"
  shows "wf_tree (AList.update p n t)"
proof -
  have "map_of (AList.update p n t) q = Some Directory" if "map_of (AList.update p n t) (q @ [c]) \<noteq> None" for q c
  proof (cases "q @ [c] = p")
    case True
    then show ?thesis using assms(3) by auto
  next
    case False
    with that obtain x where "map_of t (q @ [c]) = Some x" by auto
    with wf_treeD [OF assms(1)] have "map_of t q = Some Directory" .
    with assms(2) show ?thesis by auto
  qed
  then show ?thesis by (simp add: wf_tree_def)
qed

lemma wf_parent: "wf_tree t \<Longrightarrow> map_of t p = Some n \<Longrightarrow> p = [] \<or> map_of t (butlast p) = Some Directory"
  using wf_treeD by (cases p rule: rev_cases) auto

lemma wf_delete:
  assumes "wf_tree t" "\<And>c. map_of t (p @ [c]) = None"
  shows "wf_tree (AList.delete p t)"
  using assms unfolding wf_tree_def by (auto split: if_splits)

lemma create_Inr: "create p n t = Inr t' \<longleftrightarrow>
    map_of t p = None \<and> p \<noteq> [] \<and> map_of t (butlast p) = Some Directory \<and> t' = AList.update p n t"
  by (auto simp: create_def)

lemma create_tree: "keeps_tree (create p n)"
  by (auto simp: keeps_tree_def create_Inr intro: wf_update)

lemma MkdirAll_tree: "keeps_tree MkdirAll"
  by (auto simp: keeps_tree_def MkdirAll_def intro: wf_update split: option.splits node.splits)

lemma WriteFile_tree: "keeps_tree (WriteFile p b)"
  using create_tree [of p "Plain b"]
  by (auto simp: keeps_tree_def WriteFile_def intro: wf_update dest: wf_parent split: option.splits node.splits)

lemma Remove_tree: "keeps_tree (Remove p)"
proof -
  have "wf_tree t'" if t: "wf_tree t" "Remove p t = Inr t'" for t t'
  proof -
    from t(2) obtain n where n: "map_of t p = Some n" "t' = AList.delete p t"
      "n = Directory \<Longrightarrow> \<forall>(q, _)\<in>set t. q = [] \<or> butlast q \<noteq> p"
      by (auto simp: Remove_def split: option.splits if_splits)
    have "map_of t (p @ [c]) = None" for c
    proof (rule ccontr)
      assume "map_of t (p @ [c]) \<noteq> None"
      then obtain x where x: "map_of t (p @ [c]) = Some x" by auto
      then have "n = Directory" using wf_treeD [OF t(1)] n(1) by force
      with n(3) map_of_SomeD [OF x] show False by auto
    qed
    then show ?thesis unfolding n(2) by (rule wf_delete [OF t(1)])
  qed
  then show ?thesis by (simp add: keeps_tree_def)
qed

lemma Rename_tree: "keeps_tree (Rename p q)"
proof -
  have "wf_tree t'" if t: "wf_tree t" "Rename p q t = Inr t'" for t t'
  proof -
    from t(2) obtain n where n: "map_of t p = Some n" "n \<noteq> Directory" "map_of t q \<noteq> Some Directory" "q \<noteq> []"
      "map_of t (butlast q) = Some Directory" "t' = AList.update q n (AList.delete p t)"
      by (auto simp: Rename_def split: option.splits if_splits)
    have "map_of t (p @ [c]) = None" for c
      using wf_treeD [OF t(1), of p c] n(1,2) by (cases "map_of t (p @ [c])") auto
    with t(1) have "wf_tree (AList.delete p t)" by (rule wf_delete)
    then show ?thesis unfolding n(6) using n(1-5) by (intro wf_update) auto
  qed
  then show ?thesis by (simp add: keeps_tree_def)
qed

lemma ignored_tree: "keeps_tree f \<Longrightarrow> keeps_tree (ignored f)"
  by (auto simp: keeps_tree_def ignored_def split: sum.splits)

lemma link_once_tree: "keeps_tree (link_once n)"
  using create_tree [of "[n]"] by (auto simp: keeps_tree_def link_once_def split: if_splits)

lemmas ops_tree = create_tree MkdirAll_tree WriteFile_tree ignored_tree [OF Remove_tree] Rename_tree link_once_tree

lemma Mount_tree: "\<forall>f\<in>set (Mount ts order). keeps_tree f"
  by (auto simp: Mount_def intro: ops_tree)

lemma run_tree: "run_ops fs t = Inr t' \<Longrightarrow> wf_tree t \<Longrightarrow> \<forall>f\<in>set fs. keeps_tree f \<Longrightarrow> wf_tree t'"
proof (induction fs arbitrary: t)
  case (Cons f fs)
  then obtain u where u: "f t = Inr u" "run_ops fs u = Inr t'" by auto
  moreover from u(1) Cons.prems have "wf_tree u" unfolding keeps_tree_def by (meson list.set_intros(1))
  ultimately show ?case using Cons by simp
qed simp

lemma WriteFile_staging:
  assumes "map_of t [ts] = Some Directory" "map_of t [ts, n] \<in> insert None (range (Some \<circ> Plain))"
  shows "WriteFile [ts, n] b t = Inr (AList.update [ts, n] (Plain b) t)"
  using assms by (auto simp: WriteFile_def resolve_def create_def)

lemma write_bodies:
  assumes "map_of t [ts] = Some Directory" "\<And>n. map_of t [ts, n] \<in> insert None (range (Some \<circ> Plain))"
    and "distinct (map fst order)" "I t"
    and "\<And>u n b. I u \<Longrightarrow> I (AList.update [ts, n] (Plain b) u)"
  shows "\<exists>t'. keeps I (concat (map (\<lambda>(name, body). [WriteFile [ts, name] [], WriteFile [ts, name] body]) order)) t t'
    \<and> (\<forall>(n, b)\<in>set order. map_of t' [ts, n] = Some (Plain b))
    \<and> (\<forall>q. (\<forall>n\<in>fst ` set order. q \<noteq> [ts, n]) \<longrightarrow> map_of t' q = map_of t q)"
  using assms(1-4)
proof (induction order arbitrary: t)
  case (Cons nb order)
  obtain n b where nb: "nb = (n, b)" by (cases nb)
  let ?u = "AList.update [ts, n] (Plain b) (AList.update [ts, n] (Plain []) t)"
  have w: "WriteFile [ts, n] [] t = Inr (AList.update [ts, n] (Plain []) t)"
    using Cons.prems(1,2) by (rule WriteFile_staging)
  have w': "WriteFile [ts, n] b (AList.update [ts, n] (Plain []) t) = Inr ?u"
    using Cons.prems(1) by (intro WriteFile_staging) auto
  have "\<exists>t'. keeps I (concat (map (\<lambda>(name, body). [WriteFile [ts, name] [], WriteFile [ts, name] body]) order)) ?u t'
    \<and> (\<forall>(n, b)\<in>set order. map_of t' [ts, n] = Some (Plain b))
    \<and> (\<forall>q. (\<forall>n\<in>fst ` set order. q \<noteq> [ts, n]) \<longrightarrow> map_of t' q = map_of ?u q)"
    using Cons.prems assms(5) by (intro Cons.IH) auto
  then obtain t' where t': "keeps I (concat (map (\<lambda>(name, body). [WriteFile [ts, name] [], WriteFile [ts, name] body]) order)) ?u t'"
    "\<forall>(n, b)\<in>set order. map_of t' [ts, n] = Some (Plain b)"
    "\<forall>q. (\<forall>n\<in>fst ` set order. q \<noteq> [ts, n]) \<longrightarrow> map_of t' q = map_of ?u q" by blast
  have "n \<notin> fst ` set order" using Cons.prems(3) nb by simp
  with t'(3) [rule_format, of "[ts, n]"] have "map_of t' [ts, n] = Some (Plain b)" by auto
  with t' w w' Cons.prems(4) assms(5) show ?case unfolding nb by (intro exI [of _ t']) auto
qed simp

text \<open>The steps up to the rename touch only paths that no reader is led to.\<close>

definition unseen :: "string \<Rightarrow> path set" where
  "unseen ts = {[], [ts], [''..data_tmp'']} \<union> range (\<lambda>n. [ts, n])"

definition stable :: "(tree \<Rightarrow> bool) \<Rightarrow> string \<Rightarrow> bool" where
  "stable I ts \<longleftrightarrow> (\<forall>t p n. I t \<and> p \<in> unseen ts \<longrightarrow> I (AList.update p n t) \<and> I (AList.delete p t))"

lemma stableD:
  assumes "stable I ts" "I t" "p \<in> unseen ts"
  shows "I (AList.update p n t)" "I (AList.delete p t)"
  using assms unfolding stable_def by blast+

definition stage :: "string \<Rightarrow> (string \<times> string) list \<Rightarrow> op list" where
  "stage ts order = MkdirAll # create [ts] Directory #
     concat (map (\<lambda>(name, body). [WriteFile [ts, name] [], WriteFile [ts, name] body]) order) @
     [ignored (Remove [''..data_tmp'']), create [''..data_tmp''] (Symlink [ts])]"

lemma Mount_stage: "Mount ts order = stage ts order @ Rename [''..data_tmp''] [''..data''] # map link_once names"
  by (simp add: Mount_def stage_def names_def)

lemma MkdirAll_step:
  assumes "map_of t [] \<in> {None, Some Directory}" "stable I ts" "I t"
  shows "\<exists>t1. MkdirAll t = Inr t1 \<and> map_of t1 = (map_of t)([] \<mapsto> Directory) \<and> I t1"
proof (cases "map_of t []")
  case None
  then show ?thesis using stableD(1) [OF assms(2,3), of "[]"] by (auto simp: MkdirAll_def unseen_def)
next
  case (Some n)
  with assms(1) have "map_of t [] = Some Directory" by simp
  then show ?thesis using assms(3) by (intro exI [of _ t]) (auto simp: MkdirAll_def fun_upd_idem)
qed

lemma Remove_step:
  assumes "map_of t [''..data_tmp''] \<noteq> Some Directory" "stable I ts" "I t"
  shows "\<exists>t1. ignored (Remove [''..data_tmp'']) t = Inr t1 \<and> map_of t1 = (map_of t)([''..data_tmp''] := None) \<and> I t1"
proof (cases "map_of t [''..data_tmp'']")
  case None
  then show ?thesis using assms(3) by (intro exI [of _ t]) (auto simp: ignored_def Remove_def)
next
  case (Some n)
  with assms(1) show ?thesis
    using stableD(2) [OF assms(2,3), of "[''..data_tmp'']"]
    by (intro exI [of _ "AList.delete [''..data_tmp''] t"]) (auto simp: ignored_def Remove_def unseen_def)
qed

lemma stage_steps:
  assumes m: "mountable t" and ts: "map_of t [ts] = None" "temp_name ts"
    and order: "mset order = mset (bodies (fst b) (snd b))" and I: "stable I ts" "I t"
  shows "\<exists>u. keeps I (stage ts order) t u \<and> staged u ts b \<and> map_of u [''..data_tmp''] = Some (Symlink [ts])
    \<and> map_of u [] = Some Directory \<and> (\<forall>q. q \<notin> unseen ts \<longrightarrow> map_of u q = map_of t q)"
proof -
  let ?writes = "concat (map (\<lambda>(name, body). [WriteFile [ts, name] [], WriteFile [ts, name] body]) order)"
  have none: "map_of t [ts, n] = None" for n
    using m ts(1) wf_treeD [of t "[ts]" n] by (cases "map_of t [ts, n]") (auto simp: mountable_def)
  have d: "distinct (map fst order)"
  proof -
    have "mset (map fst order) = mset (map fst (bodies (fst b) (snd b)))" using order by (metis mset_map)
    then have "mset (map fst order) = mset names" by (simp add: bodies_def names_def)
    then show ?thesis using mset_eq_imp_distinct_iff by (metis distinct_names)
  qed
  obtain t1 where t1: "MkdirAll t = Inr t1" "map_of t1 = (map_of t)([] \<mapsto> Directory)" "I t1"
    using MkdirAll_step [OF _ I] m by (auto simp: mountable_def)
  let ?t2 = "AList.update [ts] Directory t1"
  have t2: "create [ts] Directory t1 = Inr ?t2" "I ?t2"
    using t1 ts(1) stableD(1) [OF I(1) t1(3), of "[ts]"] by (auto simp: create_def unseen_def)
  obtain t3 where t3: "keeps I ?writes ?t2 t3" "\<forall>(n, b)\<in>set order. map_of t3 [ts, n] = Some (Plain b)"
    "\<forall>q. (\<forall>n\<in>fst ` set order. q \<noteq> [ts, n]) \<longrightarrow> map_of t3 q = map_of ?t2 q"
    using write_bodies [of ?t2 ts order I] none t1(2) t2(2) d stableD(1) [OF I(1)] by (auto simp: unseen_def)
  have I3: "I t3" by (rule keeps_last [OF t3(1)])
  have tmp: "map_of t3 [''..data_tmp''] \<noteq> Some Directory"
    using t3(3) [rule_format, of "[''..data_tmp'']"] t1(2) ts(2) m by (auto simp: mountable_def)
  obtain t4 where t4: "ignored (Remove [''..data_tmp'']) t3 = Inr t4" "map_of t4 = (map_of t3)([''..data_tmp''] := None)" "I t4"
    using Remove_step [OF tmp I(1) I3] by blast
  let ?u = "AList.update [''..data_tmp''] (Symlink [ts]) t4"
  have root: "map_of t3 [] = Some Directory" using t3(3) [rule_format, of "[]"] t1(2) by simp
  have u: "create [''..data_tmp''] (Symlink [ts]) t4 = Inr ?u" "I ?u"
    using t4 root stableD(1) [OF I(1) t4(3), of "[''..data_tmp'']"] by (auto simp: create_def unseen_def)
  have "keeps I (stage ts order) t ?u"
    unfolding stage_def using t1 t2 t3(1) t4 u I(2) I3 by (auto simp: keeps_append)
  moreover have "staged ?u ts b"
  proof -
    have "map_of ?u [ts] = Some Directory"
      using t3(3) [rule_format, of "[ts]"] t4(2) ts(2) by auto
    moreover have "set order = set (bodies (fst b) (snd b))" using order by (rule mset_eq_setD)
    ultimately show ?thesis using t3(2) t4(2) unfolding staged_def by auto
  qed
  moreover have "map_of ?u q = map_of t q" if q: "q \<notin> unseen ts" for q
    using q t3(3) [rule_format, of q] t4(2) t1(2) by (auto simp: unseen_def)
  ultimately show ?thesis using root t4(2) by (intro exI [of _ ?u]) auto
qed

lemma link_once_step: "map_of t [] = Some Directory \<Longrightarrow> map_of t [n] \<in> {None, Some (Symlink [''..data'', n])} \<Longrightarrow>
    \<exists>t'. link_once n t = Inr t' \<and> map_of t' = (map_of t)([n] \<mapsto> Symlink [''..data'', n])"
  by (auto simp: link_once_def create_def fun_upd_idem intro: exI [of _ t])

lemma link_steps:
  assumes "map_of t [] = Some Directory" "\<And>n. n \<in> set ns \<Longrightarrow> map_of t [n] \<in> {None, Some (Symlink [''..data'', n])}"
  shows "\<exists>t'. run_ops (map link_once ns) t = Inr t'
    \<and> (\<forall>q. map_of t' q = (if \<exists>n\<in>set ns. q = [n] then Some (Symlink [''..data'', hd q]) else map_of t q))"
  using assms
proof (induction ns arbitrary: t)
  case (Cons n ns)
  obtain t1 where t1: "link_once n t = Inr t1" "map_of t1 = (map_of t)([n] \<mapsto> Symlink [''..data'', n])"
    using link_once_step [of t n] Cons.prems by auto
  have "\<exists>t'. run_ops (map link_once ns) t1 = Inr t'
    \<and> (\<forall>q. map_of t' q = (if \<exists>n\<in>set ns. q = [n] then Some (Symlink [''..data'', hd q]) else map_of t1 q))"
    using Cons.prems t1(2) by (intro Cons.IH) auto
  then obtain t' where t': "run_ops (map link_once ns) t1 = Inr t'"
    "\<And>q. map_of t' q = (if \<exists>n\<in>set ns. q = [n] then Some (Symlink [''..data'', hd q]) else map_of t1 q)" by blast
  have "map_of t' q = (if \<exists>m\<in>set (n # ns). q = [m] then Some (Symlink [''..data'', hd q]) else map_of t q)" for q
    by (cases "q = [n]") (simp_all add: t'(2) t1(2))
  with t'(1) t1(1) show ?case by (intro exI [of _ t']) simp
qed simp

text \<open>
  The rename and what follows it: from then on the directory is mounted with what was staged, at
  every instant if the stable names were there before.
\<close>

lemma publish_steps:
  assumes u: "staged u ts b" "map_of u [''..data_tmp''] = Some (Symlink [ts])" "map_of u [] = Some Directory" "temp_name ts"
      "map_of u [''..data''] \<noteq> Some Directory" "\<And>n. n \<in> set names \<Longrightarrow> map_of u [n] \<in> {None, Some (Symlink [''..data'', n])}"
  shows "\<exists>v t'. Rename [''..data_tmp''] [''..data''] u = Inr v \<and> run_ops (map link_once names) v = Inr t' \<and> mounted t' ts b
    \<and> map_of t' [''..data_tmp''] = None \<and> map_of t' [] = Some Directory
    \<and> ((\<forall>n\<in>set names. map_of u [n] \<noteq> None) \<longrightarrow> mounted v ts b \<and> instants (map link_once names) v = replicate 4 v)"
proof -
  let ?v = "AList.update [''..data''] (Symlink [ts]) (AList.delete [''..data_tmp''] u)"
  have v: "Rename [''..data_tmp''] [''..data''] u = Inr ?v" using u by (auto simp: Rename_def)
  have nm: "''..data'' \<notin> set names" "''..data_tmp'' \<notin> set names" "length names = 3" by (simp_all add: names_def)
  have vn: "map_of ?v [n] = map_of u [n]" if "n \<in> set names" for n using nm that by auto
  obtain t' where t': "run_ops (map link_once names) ?v = Inr t'"
    "\<And>q. map_of t' q = (if \<exists>n\<in>set names. q = [n] then Some (Symlink [''..data'', hd q]) else map_of ?v q)"
    using link_steps [of ?v names] u(3,6) vn by auto
  have st: "staged ?v ts b" using u(1,4) by (auto simp: staged_def)
  then have "mounted t' ts b" using u(4) t'(2) nm by (auto simp: mounted_def staged_def)
  moreover have "mounted ?v ts b" "instants (map link_once names) ?v = replicate 4 ?v" if all: "\<forall>n\<in>set names. map_of u [n] \<noteq> None"
  proof -
    have l: "map_of ?v [n] = Some (Symlink [''..data'', n])" if "n \<in> set names" for n
      using vn [OF that] u(6) [OF that] all that by auto
    then show "mounted ?v ts b" using st by (simp add: mounted_def)
    have "link_once n ?v = Inr ?v" if "n \<in> set names" for n using l [OF that] by (simp add: link_once_def)
    then show "instants (map link_once names) ?v = replicate 4 ?v" by (simp add: names_def numeral_eq_Suc)
  qed
  ultimately show ?thesis using v t' u(3) nm by (intro exI [of _ ?v] exI [of _ t']) auto
qed

lemma mounted_stable: "ts \<noteq> ts0 \<Longrightarrow> temp_name ts \<Longrightarrow> temp_name ts0 \<Longrightarrow> stable (\<lambda>t. mounted t ts0 b0) ts"
  by (auto simp: stable_def unseen_def mounted_def staged_def)

text \<open>A Mount succeeds on a directory that is new or that earlier ones left, and leaves its secret mounted.\<close>

lemma mount_succeeds:
  assumes m: "mountable t" and ts: "map_of t [ts] = None" "temp_name ts"
    and order: "mset order = mset (bodies (fst b) (snd b))"
  shows "\<exists>t'. run_ops (Mount ts order) t = Inr t' \<and> mounted t' ts b \<and> mountable t'"
proof -
  have "stable (\<lambda>_. True) ts" by (simp add: stable_def)
  from stage_steps [OF m ts order this] obtain u where u: "run_ops (stage ts order) t = Inr u" "staged u ts b"
    "map_of u [''..data_tmp''] = Some (Symlink [ts])" "map_of u [] = Some Directory"
    "\<And>q. q \<notin> unseen ts \<Longrightarrow> map_of u q = map_of t q" by (auto simp: keeps_def)
  have "map_of u [n] = map_of t [n]" if "n \<in> insert ''..data'' (set names)" for n
    using that ts(2) by (intro u(5)) (auto simp: unseen_def)
  with m have d: "map_of u [''..data''] \<noteq> Some Directory" "n \<in> set names \<Longrightarrow> map_of u [n] \<in> {None, Some (Symlink [''..data'', n])}" for n
    by (auto simp: mountable_def)
  from publish_steps [OF u(2-4) ts(2) d] obtain v t' where t': "Rename [''..data_tmp''] [''..data''] u = Inr v"
    "run_ops (map link_once names) v = Inr t'" "mounted t' ts b" "map_of t' [''..data_tmp''] = None" "map_of t' [] = Some Directory"
    by blast
  then have r: "run_ops (Mount ts order) t = Inr t'" using u(1) by (simp add: Mount_stage run_ops_append)
  moreover have "wf_tree t'" using run_tree [OF r _ Mount_tree] m by (simp add: mountable_def)
  ultimately show ?thesis using t' by (auto simp: mountable_def mounted_def)
qed

text \<open>A rotation: what was mounted before is read up to the rename, what it mounts from then on.\<close>

lemma rotation_instants:
  assumes m: "mountable t" "mounted t ts0 b0" "temp_name ts0" and ts: "map_of t [ts] = None" "temp_name ts"
    and order: "mset order = mset (bodies (fst b) (snd b))"
  shows "\<exists>v. run_ops (Mount ts order) t = Inr v \<and> mountable v \<and> mounted v ts b
    \<and> (\<exists>pre. instants (Mount ts order) t = pre @ replicate 4 v \<and> (\<forall>u\<in>set pre. mounted u ts0 b0))"
proof -
  have "ts \<noteq> ts0" using m(2) ts(1) by (auto simp: mounted_def staged_def)
  then have "stable (\<lambda>t. mounted t ts0 b0) ts" using ts(2) m(3) by (rule mounted_stable)
  from stage_steps [OF m(1) ts order this m(2)] obtain u where u: "keeps (\<lambda>t. mounted t ts0 b0) (stage ts order) t u"
    "staged u ts b" "map_of u [''..data_tmp''] = Some (Symlink [ts])" "map_of u [] = Some Directory" by blast
  then have "mounted u ts0 b0" by (blast dest: keeps_last)
  then have d: "map_of u [''..data''] \<noteq> Some Directory" "\<forall>n\<in>set names. map_of u [n] = Some (Symlink [''..data'', n])"
    by (auto simp: mounted_def)
  with publish_steps [OF u(2-4) ts(2)] obtain v t' where v: "Rename [''..data_tmp''] [''..data''] u = Inr v"
    "run_ops (map link_once names) v = Inr t'" "mounted v ts b" "instants (map link_once names) v = replicate 4 v" by force
  have same: "t' = v" using last_instant [OF v(2)] unfolding v(4) by simp
  have r: "run_ops (stage ts order) t = Inr u" using u(1) by (simp add: keeps_def)
  then have run: "run_ops (Mount ts order) t = Inr v"
    using v(1,2) same by (simp add: Mount_stage run_ops_append)
  moreover have "instants (Mount ts order) t = instants (stage ts order) t @ replicate 4 v"
    using instants_append [OF r, of "Rename [''..data_tmp''] [''..data''] # map link_once names"] append_butlast_last_id [of "instants (stage ts order) t"]
      last_instant [OF r] v(1,4) by (simp add: Mount_stage)
  moreover have "mountable v" using mount_succeeds [OF m(1) ts order] run by auto
  ultimately show ?thesis using u(1) v(3) by (auto simp: keeps_def)
qed

text \<open>Rotations one after another, each of a secret with its own fresh directory.\<close>

definition rotations :: "(string \<times> (string \<times> string) list) list \<Rightarrow> op list" where
  "rotations ms = concat (map (\<lambda>(ts, order). Mount ts order) ms)"

definition mount_of :: "string \<times> (string \<times> string) list \<Rightarrow> secret \<Rightarrow> bool" where
  "mount_of m b \<longleftrightarrow> temp_name (fst m) \<and> mset (snd m) = mset (bodies (fst b) (snd b))"

lemma mount_fresh:
  assumes "run_ops (Mount ts order @ fs) t = Inr t'" "ts \<noteq> []"
  shows "map_of t [ts] = None"
  using assms by (auto simp: Mount_def MkdirAll_def create_Inr split: option.splits node.splits if_splits)

text \<open>Which secret a reader is led to at each instant: they follow one another in the order of the rotations.\<close>

lemma rotations_instants:
  assumes "mountable t" "mounted t ts0 b0" "temp_name ts0" "run_ops (rotations ms) t = Inr t'" "list_all2 mount_of ms bs"
  shows "\<exists>idx. list_all2 (\<lambda>u i. i \<le> length bs \<and> (\<exists>ts. mounted u ts ((b0 # bs) ! i))) (instants (rotations ms) t) idx
    \<and> sorted idx \<and> (\<exists>ts. mounted t' ts ((b0 # bs) ! length bs))"
  using assms
proof (induction ms arbitrary: bs t ts0 b0)
  case Nil
  then show ?case by (intro exI [of _ "[0]"]) (auto simp: rotations_def)
next
  case (Cons m ms)
  obtain ts order where mo: "m = (ts, order)" by (cases m)
  from Cons.prems(5) obtain b bs' where bs: "bs = b # bs'" and mb: "mount_of m b" and rest: "list_all2 mount_of ms bs'"
    unfolding list_all2_Cons1 by blast
  from mb have b: "temp_name ts" "mset order = mset (bodies (fst b) (snd b))" by (simp_all add: mount_of_def mo)
  have ops: "rotations (m # ms) = Mount ts order @ rotations ms" by (simp add: rotations_def mo)
  have "ts \<noteq> []" using b(1) by (auto simp: temp_name_def)
  with Cons.prems(4) have "map_of t [ts] = None" unfolding ops by (rule mount_fresh)
  from rotation_instants [OF Cons.prems(1-3) this b] obtain v pre where v: "run_ops (Mount ts order) t = Inr v" "mountable v"
    "mounted v ts b" "instants (Mount ts order) t = pre @ replicate 4 v" "\<forall>u\<in>set pre. mounted u ts0 b0" by blast
  have "run_ops (rotations ms) v = Inr t'" using Cons.prems(4) v(1) by (simp add: ops run_ops_append)
  from Cons.IH [OF v(2,3) b(1) this rest] obtain idx where idx:
    "list_all2 (\<lambda>u i. i \<le> length bs' \<and> (\<exists>ts. mounted u ts ((b # bs') ! i))) (instants (rotations ms) v) idx"
    "sorted idx" "\<exists>ts. mounted t' ts ((b # bs') ! length bs')" by blast
  let ?idx = "replicate (length pre) 0 @ replicate 3 1 @ map Suc idx"
  have "instants (rotations (m # ms)) t = pre @ replicate 3 v @ instants (rotations ms) v"
    unfolding ops instants_append [OF v(1)] v(4) by (simp add: butlast_append numeral_eq_Suc)
  moreover have "list_all2 (\<lambda>u i. i \<le> length bs \<and> (\<exists>ts. mounted u ts ((b0 # bs) ! i)))
      (pre @ replicate 3 v @ instants (rotations ms) v) ?idx"
    using v(3,5) idx(1) unfolding bs
    by (intro list_all2_appendI) (auto simp: list_all2_conv_all_nth)
  moreover have "sorted ?idx" using idx(2) by (auto simp: sorted_append sorted_map intro: sorted_replicate)
  ultimately show ?case using idx(3) bs by auto
qed

section \<open>A Reloader on rotated files\<close>

lemma Split_snoc: "sep \<notin> set n \<Longrightarrow> Split sep (s @ sep # n) = Split sep s @ [n]"
  by (induction s) (auto simp: Split_plain split: list.splits)

lemma read_at_name: "CHR ''/'' \<notin> set n \<Longrightarrow> read_at dir t (Join CHR ''/'' [dir, n]) = ReadFile t [n]"
  by (simp add: read_at_def below_def Split_snoc)

text \<open>
  The readings of one load or digest: the certificate, the key and the bundle are opened one after the other, each at
  an instant of its own.
\<close>

definition seen :: "string \<Rightarrow> tree list \<Rightarrow> nat \<times> nat \<times> nat \<Rightarrow> file_system" where
  "seen dir tr = (\<lambda>(i, j, k) p.
     if p = CertFile (mount_Files dir) then read_at dir (tr ! i) p
     else if p = KeyFile (mount_Files dir) then read_at dir (tr ! j) p
     else read_at dir (tr ! k) p)"

text \<open>The secrets \<open>bs\<close> are mounted one after the other over the instants \<open>tr\<close>: \<open>idx\<close> tells which one is there.\<close>

definition follows :: "tree list \<Rightarrow> secret list \<Rightarrow> nat list \<Rightarrow> bool" where
  "follows tr bs idx \<longleftrightarrow> list_all2 (\<lambda>u i. i < length bs \<and> (\<exists>ts. mounted u ts (bs ! i))) tr idx \<and> sorted idx"

lemma follows_read_all:
  assumes "follows tr bs idx" "i < length tr" "j < length tr" "k < length tr"
  shows "read_all (seen dir tr (i, j, k)) (mount_Files dir) =
    Inr (CertPEM (fst (bs ! (idx ! i))), KeyPEM (fst (bs ! (idx ! j))), snd (bs ! (idx ! k)))"
proof -
  have r: "ReadFile (tr ! l) [n] = Inr body"
    if "l < length tr" "(n, body) \<in> set (bodies (fst (bs ! (idx ! l))) (snd (bs ! (idx ! l))))" for l n body
    using assms(1) that mounted_reads unfolding follows_def list_all2_conv_all_nth by blast
  have "ReadFile (tr ! i) [''tls.crt''] = Inr (CertPEM (fst (bs ! (idx ! i))))"
    "ReadFile (tr ! j) [''tls.key''] = Inr (KeyPEM (fst (bs ! (idx ! j))))"
    "ReadFile (tr ! k) [''ca.crt''] = Inr (snd (bs ! (idx ! k)))"
    using assms(2-4) by (auto intro!: r simp: bodies_def)
  then show ?thesis
    using read_at_name [of "''tls.crt''" dir] read_at_name [of "''tls.key''" dir] read_at_name [of "''ca.crt''" dir]
    by (simp add: read_all_def seen_def mount_Files_def)
qed

text \<open>
  What a load gives: a certificate and the key it was mounted with, of one secret, with the bundle of
  that or of a later one. Only a key that does not belong to the certificate could be of another secret, and it is refused.
\<close>

definition whole :: "pki \<Rightarrow> (string \<Rightarrow> string) \<Rightarrow> secret list \<Rightarrow> nat \<Rightarrow> nat \<Rightarrow> int \<Rightarrow> string + material" where
  "whole x sha bs i k now = Parse x sha (CertPEM (fst (bs ! i))) (KeyPEM (fst (bs ! i))) (snd (bs ! k)) now"

definition own_keys :: "pki \<Rightarrow> secret list \<Rightarrow> bool" where
  "own_keys x bs \<longleftrightarrow> (\<forall>b\<in>set bs. \<forall>b'\<in>set bs. \<forall>d. X509KeyPair x (CertPEM (fst b)) (KeyPEM (fst b')) = Inr d \<longrightarrow>
     KeyPEM (fst b') = KeyPEM (fst b))"

lemma follows_load:
  assumes f: "follows tr bs idx" "own_keys x bs" "i \<le> j" "j \<le> k" "k < length tr"
    and l: "load_material x sha (seen dir tr (i, j, k)) (mount_Files dir) now = Inr m"
  shows "\<exists>i' k'. i' \<le> k' \<and> k' < length bs \<and> whole x sha bs i' k' now = Inr m"
proof -
  have len: "length idx = length tr" using f(1) by (auto simp: follows_def list_all2_lengthD)
  then have "idx ! i \<le> idx ! k" using f by (intro sorted_nth_mono) (auto simp: follows_def)
  moreover have bd: "idx ! l < length bs" if "l < length tr" for l
    using f(1) that by (auto simp: follows_def list_all2_conv_all_nth)
  moreover have p: "Parse x sha (CertPEM (fst (bs ! (idx ! i)))) (KeyPEM (fst (bs ! (idx ! j)))) (snd (bs ! (idx ! k))) now = Inr m"
    using l follows_read_all [OF f(1), of i j k dir] f(3-5) by (simp add: load_material_Parse)
  moreover have "KeyPEM (fst (bs ! (idx ! j))) = KeyPEM (fst (bs ! (idx ! i)))"
  proof -
    from p obtain d where "X509KeyPair x (CertPEM (fst (bs ! (idx ! i)))) (KeyPEM (fst (bs ! (idx ! j)))) = Inr d"
      unfolding Parse_def bindR_Inr by (auto split: sum.splits)
    moreover have "bs ! (idx ! i) \<in> set bs" "bs ! (idx ! j) \<in> set bs" using bd f(3-5) by simp_all
    ultimately show ?thesis using f(2) unfolding own_keys_def by blast
  qed
  ultimately show ?thesis using f(5) unfolding whole_def by (intro exI [of _ "idx ! i"] exI [of _ "idx ! k"]) simp
qed

text \<open>A poll: the instants of its digest and of its load, and the time of the load.\<close>

type_synonym poll = "(nat \<times> nat \<times> nat) \<times> (nat \<times> nat \<times> nat) \<times> int"

definition poll_files :: "pki \<Rightarrow> (string \<Rightarrow> string) \<Rightarrow> string \<Rightarrow> tree list \<Rightarrow> reloader \<Rightarrow> poll \<Rightarrow> reloader" where
  "poll_files x sha dir tr r = (\<lambda>(s, s', now). fst (Reload x sha (seen dir tr s) (seen dir tr s') now r))"

definition in_turn :: "nat \<Rightarrow> nat \<times> nat \<times> nat \<Rightarrow> bool" where
  "in_turn n = (\<lambda>(i, j, k). i \<le> j \<and> j \<le> k \<and> k < n)"

definition polls_in_turn :: "nat \<Rightarrow> poll list \<Rightarrow> bool" where
  "polls_in_turn n = list_all (\<lambda>(s, s', now). in_turn n s \<and> in_turn n s')"

definition whole_material :: "pki \<Rightarrow> (string \<Rightarrow> string) \<Rightarrow> secret list \<Rightarrow> material \<Rightarrow> bool" where
  "whole_material x sha bs m \<longleftrightarrow> (\<exists>i k now. i \<le> k \<and> k < length bs \<and> whole x sha bs i k now = Inr m)"

lemma load_whole:
  assumes f: "follows tr bs idx" "own_keys x bs" and s: "in_turn (length tr) s"
    and l: "load_material x sha (seen dir tr s) (mount_Files dir) now = Inr m"
  shows "whole_material x sha bs m"
proof -
  obtain i j k where "s = (i, j, k)" by (metis prod.exhaust)
  with s l have "i \<le> j" "j \<le> k" "k < length tr" "load_material x sha (seen dir tr (i, j, k)) (mount_Files dir) now = Inr m"
    by (simp_all add: in_turn_def)
  from follows_load [OF f this] show ?thesis unfolding whole_material_def by blast
qed

lemma poll_keeps_whole:
  assumes f: "follows tr bs idx" "own_keys x bs" and p: "in_turn (length tr) s'"
    and r: "whole_material x sha bs (current r)" "rfiles r = mount_Files dir"
  shows "whole_material x sha bs (current (poll_files x sha dir tr r (s, s', now)))
    \<and> rfiles (poll_files x sha dir tr r (s, s', now)) = mount_Files dir"
  using r load_whole [OF f p] by (auto simp: poll_files_def Reload_def split: sum.splits)

lemma polls_keep_whole:
  assumes f: "follows tr bs idx" "own_keys x bs" and "polls_in_turn (length tr) ps"
    and "whole_material x sha bs (current r)" "rfiles r = mount_Files dir"
  shows "whole_material x sha bs (current (foldl (poll_files x sha dir tr) r ps))
    \<and> rfiles (foldl (poll_files x sha dir tr) r ps) = mount_Files dir"
  using assms(3-5)
proof (induction ps arbitrary: r)
  case (Cons p ps)
  obtain s s' now where p: "p = (s, s', now)" by (metis prod.exhaust)
  then have "in_turn (length tr) s'" "polls_in_turn (length tr) ps" using Cons.prems(1) by (simp_all add: polls_in_turn_def)
  with Cons p poll_keeps_whole [OF f, of s' sha r dir s now] show ?case by simp
qed simp

lemma Parse_time: "Parse x sha c k a now = Inr m \<Longrightarrow> Parse x sha c k a now' = Inr m' \<Longrightarrow> m = m'"
  unfolding Parse_def bindR_Inr by (auto split: if_split_asm)

text \<open>SHA-256 does not collide on what is mounted, and PEM files hold no zero byte.\<close>

definition tells_apart :: "(string \<Rightarrow> string) \<Rightarrow> secret list \<Rightarrow> bool" where
  "tells_apart sha bs \<longleftrightarrow>
     inj_on sha ((\<lambda>(b, b'). framing [CertPEM (fst b), KeyPEM (fst b), snd b']) ` (set bs \<times> set bs)) \<and>
     (\<forall>b\<in>set bs. CHR 0x00 \<notin> set (CertPEM (fst b)) \<union> set (KeyPEM (fst b)) \<union> set (snd b))"

lemma whole_digest:
  assumes "tells_apart sha bs" "i < length bs" "k < length bs" "n < length bs"
    and "whole x sha bs i k now = Inr m" "whole x sha bs n n now' = Inr m'" "MDigest m = MDigest m'"
  shows "m = m'"
proof -
  let ?f = "\<lambda>b b'. [CertPEM (fst b), KeyPEM (fst b), snd b']"
  have mem: "bs ! i \<in> set bs" "bs ! k \<in> set bs" "bs ! n \<in> set bs" using assms(2-4) by simp_all
  have "sha (framing (?f (bs ! i) (bs ! k))) = sha (framing (?f (bs ! n) (bs ! n)))"
    using assms(5-7) by (auto simp: whole_def dest!: Parse_ok)
  moreover have "framing (?f b b') \<in> (\<lambda>(b, b'). framing (?f b b')) ` (set bs \<times> set bs)" if "b \<in> set bs" "b' \<in> set bs" for b b'
    using that by force
  ultimately have "framing (?f (bs ! i) (bs ! k)) = framing (?f (bs ! n) (bs ! n))"
    using assms(1) mem unfolding tells_apart_def by (meson inj_onD)
  then have "?f (bs ! i) (bs ! k) = ?f (bs ! n) (bs ! n)"
    by (rule framing_inj) (use assms(1) mem in \<open>auto simp: tells_apart_def\<close>)
  then show ?thesis using assms(5,6) Parse_time by (auto simp: whole_def)
qed

text \<open>A reload of the files as the last secret left them puts that secret in force.\<close>

lemma reload_settled_files:
  assumes m: "whole_material x sha bs (current r)" "rfiles r = mount_Files dir" and t: "mounted t ts (bs ! n)" "n < length bs"
    and p: "whole x sha bs n n now = Inr m" "tells_apart sha bs"
  shows "current (fst (Reload x sha (read_at dir t) (read_at dir t) now r)) = m"
proof -
  have "follows [t] bs [n]" using t by (auto simp: follows_def)
  from follows_read_all [OF this, of 0 0 0 dir] have "read_all (read_at dir t) (mount_Files dir) =
    Inr (CertPEM (fst (bs ! n)), KeyPEM (fst (bs ! n)), snd (bs ! n))"
    by (simp add: seen_def read_all_def mount_Files_def)
  with p(1) have l: "load_material x sha (read_at dir t) (mount_Files dir) now = Inr m"
    by (simp add: load_material_Parse whole_def)
  obtain i k now' where w: "i \<le> k" "k < length bs" "whole x sha bs i k now' = Inr (current r)"
    using m(1) unfolding whole_material_def by blast
  then have "current r = m" if "MDigest (current r) = MDigest m"
    using whole_digest [OF p(2) _ w(2) t(2) w(3) p(1) that] by simp
  with l load_material_digest [OF l] m(2) show ?thesis by (auto simp: Reload_def)
qed

section \<open>Properties\<close>

text \<open>
  C9. Rotation is never torn and takes effect: while secrets are mounted one after the other in the way of
  the kubelet, and however the reads of New and of the polls fall between the system calls, no read fails;
  the material in force is always a certificate with the key it was mounted with and the bundle of
  that or of a later secret; and the first poll after the last rotation puts that secret in force, if it is valid.
\<close>

theorem rotation_takes_effect:
  assumes "mountable t0" "mounted t0 ts0 b0" "temp_name ts0"
    and "run_ops (rotations ms) t0 = Inr t'" "list_all2 mount_of ms bs"
    and "own_keys x (b0 # bs)" "tells_apart sha (b0 # bs)"
    and "tr = instants (rotations ms) t0"
    and "Trust.New x sha (seen dir tr s0) (mount_Files dir) now0 = Inr r0"
    and "in_turn (length tr) s0" "polls_in_turn (length tr) ps" "in_turn (length tr) s"
    and "r = foldl (poll_files x sha dir tr) r0 ps"
  shows "filesDigest sha (seen dir tr s) (mount_Files dir) \<in> range Inr
    \<and> whole_material x sha (b0 # bs) (current r)
    \<and> (whole x sha (b0 # bs) (length bs) (length bs) now = Inr m \<longrightarrow>
         current (fst (Reload x sha (read_at dir t') (read_at dir t') now r)) = m)"
proof -
  obtain idx ts where f: "follows tr (b0 # bs) idx" and t': "mounted t' ts ((b0 # bs) ! length bs)"
    using rotations_instants [OF assms(1-5)] by (auto simp: follows_def assms(8) less_Suc_eq_le)
  obtain i j k where s: "s = (i, j, k)" by (metis prod.exhaust)
  have "filesDigest sha (seen dir tr s) (mount_Files dir) \<in> range Inr"
    using follows_read_all [OF f, of i j k dir] assms(12) by (auto simp: filesDigest_def s in_turn_def)
  moreover have r0: "rfiles r0 = mount_Files dir" "load_material x sha (seen dir tr s0) (mount_Files dir) now0 = Inr (current r0)"
    using assms(9) by (auto simp: New_def split: if_splits sum.splits)
  then have "whole_material x sha (b0 # bs) (current r0)" using load_whole [OF f assms(6,10)] by blast
  with polls_keep_whole [OF f assms(6,11) _ r0(1)] have "whole_material x sha (b0 # bs) (current r)" "rfiles r = mount_Files dir"
    by (simp_all add: assms(13))
  ultimately show ?thesis using reload_settled_files [OF _ _ t' _ _ assms(7)] by simp
qed

text \<open>Two secrets: the second has a new key and a new bundle, and its files are written in another order.\<close>

definition demo_secret :: "char \<Rightarrow> secret" where
  "demo_secret c = (\<lparr>CertPEM = [c], KeyPEM = [c]\<rparr>, ''ca'' @ [c])"

definition rotation_pki :: pki where
  "rotation_pki = \<lparr>X509KeyPair = (\<lambda>c k. if c = k then Inr c else Inl ''private key does not match public key''),
     ParseCertificate = (\<lambda>d. Inr \<lparr>Raw = d, NotBefore = 0, NotAfter = 100, IsCA = length d > 1, URIs = []\<rparr>),
     PemBlocks = (\<lambda>b. [(''CERTIFICATE'', b)])\<rparr>"

definition demo_rotation :: "(string \<times> (string \<times> string) list) list" where
  "demo_rotation = [(''..ts-2'', rev (bodies (fst (demo_secret CHR ''2'')) (snd (demo_secret CHR ''2''))))]"

lemma demo_mounted:
  "\<exists>t0 t'. mountable t0 \<and> mounted t0 ''..ts-1'' (demo_secret CHR ''1'') \<and> run_ops (rotations demo_rotation) t0 = Inr t'"
proof -
  have "mountable []" by (simp add: mountable_def wf_tree_def)
  from mount_succeeds [OF this, of "''..ts-1''" "bodies (fst (demo_secret CHR ''1'')) (snd (demo_secret CHR ''1''))" "demo_secret CHR ''1''"]
  obtain t0 where t0: "run_ops (Mount ''..ts-1'' (bodies (fst (demo_secret CHR ''1'')) (snd (demo_secret CHR ''1'')))) [] = Inr t0"
    "mounted t0 ''..ts-1'' (demo_secret CHR ''1'')" "mountable t0" by (auto simp: temp_name_def)
  have "case run_ops (Mount ''..ts-1'' (bodies (fst (demo_secret CHR ''1'')) (snd (demo_secret CHR ''1'')))) [] of
      Inr t \<Rightarrow> map_of t [''..ts-2''] = None | _ \<Rightarrow> True" by code_simp
  then have "map_of t0 [''..ts-2''] = None" using t0(1) by simp
  with mount_succeeds [OF t0(3), of "''..ts-2''" "snd (hd demo_rotation)" "demo_secret CHR ''2''"] t0 show ?thesis
    by (auto simp: temp_name_def demo_rotation_def rotations_def run_ops_append)
qed

text \<open>
  New reads the first secret before the rotation, a poll runs at its first instant, and the next poll
  after it puts the second secret in force.
\<close>

theorem rotation_takes_effect_witness:
  "\<exists>t0 t' r0 r m. run_ops (rotations demo_rotation) t0 = Inr t'
     \<and> Trust.New rotation_pki (\<lambda>s. s) (seen ''/id'' (instants (rotations demo_rotation) t0) (0, 0, 0)) (mount_Files ''/id'') 5 = Inr r0
     \<and> r = poll_files rotation_pki (\<lambda>s. s) ''/id'' (instants (rotations demo_rotation) t0) r0 ((0, 0, 0), (0, 0, 0), 6)
     \<and> whole rotation_pki (\<lambda>s. s) [demo_secret CHR ''1'', demo_secret CHR ''2''] 1 1 7 = Inr m
     \<and> current (fst (Reload rotation_pki (\<lambda>s. s) (read_at ''/id'' t') (read_at ''/id'' t') 7 r)) = m
     \<and> Raw (Leaf m) = ''2''"
proof -
  let ?bs = "[demo_secret CHR ''1'', demo_secret CHR ''2'']"
  obtain t0 t' where t: "mountable t0" "mounted t0 ''..ts-1'' (demo_secret CHR ''1'')" "run_ops (rotations demo_rotation) t0 = Inr t'"
    using demo_mounted by blast
  let ?tr = "instants (rotations demo_rotation) t0"
  have tr: "?tr \<noteq> []" using last_instant [OF t(3)] by simp
  have ms: "list_all2 mount_of demo_rotation [demo_secret CHR ''2'']"
    by (simp add: demo_rotation_def mount_of_def temp_name_def)
  have x: "own_keys rotation_pki ?bs" "tells_apart (\<lambda>s. s) ?bs"
    by (auto simp: own_keys_def rotation_pki_def demo_secret_def tells_apart_def)
  have "?tr ! 0 = t0" by (cases "rotations demo_rotation") simp_all
  then have e: "seen ''/id'' ?tr (0, 0, 0) = seen ''/id'' [t0] (0, 0, 0)" by (simp add: seen_def fun_eq_iff)
  have "follows [t0] [demo_secret CHR ''1''] [0]" using t(2) by (auto simp: follows_def)
  from follows_read_all [OF this, of 0 0 0 "''/id''"]
  have rd: "read_all (seen ''/id'' ?tr (0, 0, 0)) (mount_Files ''/id'') = Inr (''1'', ''1'', ''ca1'')"
    unfolding e by (simp add: demo_secret_def)
  obtain m where m: "whole rotation_pki (\<lambda>s. s) ?bs 1 1 7 = Inr m" "Raw (Leaf m) = ''2''"
    by (simp add: whole_def Parse_def rotation_pki_def demo_secret_def)
  obtain r0 where r0: "Trust.New rotation_pki (\<lambda>s. s) (seen ''/id'' ?tr (0, 0, 0)) (mount_Files ''/id'') 5 = Inr r0"
  proof -
    obtain m0 where "Parse rotation_pki (\<lambda>s. s) ''1'' ''1'' ''ca1'' 5 = Inr m0"
      by (simp add: Parse_def rotation_pki_def)
    with rd have "load_material rotation_pki (\<lambda>s. s) (seen ''/id'' ?tr (0, 0, 0)) (mount_Files ''/id'') 5 = Inr m0"
      by (simp add: load_material_Parse)
    then show ?thesis using that by (simp add: New_def mount_Files_def)
  qed
  have b: "in_turn (length ?tr) (0, 0, 0)" "polls_in_turn (length ?tr) [((0, 0, 0), (0, 0, 0), 6)]"
    using tr by (simp_all add: in_turn_def polls_in_turn_def)
  from rotation_takes_effect [OF t(1,2) _ t(3) ms x refl r0 b(1,2,1) refl, where now = 7 and m = m] m t(3) r0
  show ?thesis by (intro exI [of _ t0] exI [of _ t'] exI [of _ r0] exI conjI) (auto simp: temp_name_def)
qed

end
