(* ===== verification/Pki.thy ===== *)
theory Pki
  imports Mounts
begin

text \<open>
  The throwaway certificate authority of internal/transport/identity/identitytest/pki.go: NewCA, Issue, IssueFor
  and SPIFFE. Key generation, the signing and encoding of certificates and url.Parse are the record
  \<open>mint\<close> of functions, of which \<open>mint_laws\<close> is assumed: what is encoded is read back by the same libraries (theory
  Trust). \<open>t.Fatal\<close> is an error value. Times are nanoseconds.
\<close>

section \<open>Issuing\<close>

datatype key_usage = DigitalSignature | CertSign | CRLSign

datatype ext_key_usage = ServerAuth | ClientAuth

record template =
  TSerial :: nat
  CommonName :: string
  TNotBefore :: int
  TNotAfter :: int
  TIsCA :: bool
  KeyUsages :: "key_usage list"
  ExtKeyUsages :: "ext_key_usage list"
  DNSNames :: "string list"
  IPAddresses :: "string list"
  TURIs :: "url list"

text \<open>The parent that signs: the template itself, or an authority's certificate.\<close>

datatype signer = SelfSigned | SignedBy "cert option"

record 'k mint =
  PublicKey :: "'k \<Rightarrow> string"
  CreateCertificate :: "template \<Rightarrow> signer \<Rightarrow> string \<Rightarrow> 'k \<Rightarrow> string + string"
  MarshalECPrivateKey :: "'k \<Rightarrow> string + string"
  EncodeToMemory :: "string \<Rightarrow> string \<Rightarrow> string"
  UrlParse :: "string \<Rightarrow> string + url"

record 'k authority =
  AuCert :: "cert option"
  AuKey :: 'k
  AuPEM :: string

abbreviation second :: int where "second \<equiv> 1000000000"

definition NewCA :: "'k mint \<Rightarrow> pki \<Rightarrow> string + 'k \<Rightarrow> nat \<Rightarrow> string \<Rightarrow> int \<Rightarrow> string + 'k authority" where
  "NewCA lib x key serial name now =
     bindR key (\<lambda>k.
     bindR (CreateCertificate lib
        \<lparr>TSerial = serial, CommonName = name, TNotBefore = now - 3600 * second, TNotAfter = now + 24 * 3600 * second,
         TIsCA = True, KeyUsages = [CertSign, CRLSign], ExtKeyUsages = [], DNSNames = [], IPAddresses = [], TURIs = []\<rparr>
        SelfSigned (PublicKey lib k) k) (\<lambda>der.
     Inr \<lparr>AuCert = (case ParseCertificate x der of Inl e \<Rightarrow> None | Inr c \<Rightarrow> Some c), AuKey = k,
          AuPEM = EncodeToMemory lib ''CERTIFICATE'' der\<rparr>))"

fun parse_uris :: "'k mint \<Rightarrow> string list \<Rightarrow> string + url list" where
  "parse_uris lib [] = Inr []"
| "parse_uris lib (u # us) = bindR (UrlParse lib u) (\<lambda>p. bindR (parse_uris lib us) (\<lambda>ps. Inr (p # ps)))"

definition IssueFor ::
  "'k mint \<Rightarrow> 'k authority \<Rightarrow> string + 'k \<Rightarrow> nat \<Rightarrow> string \<Rightarrow> string list \<Rightarrow> int \<Rightarrow> int \<Rightarrow> string list \<Rightarrow> string + leaf" where
  "IssueFor lib ca key serial commonName uris notBefore notAfter dnsNames =
     bindR key (\<lambda>k.
     bindR (parse_uris lib uris) (\<lambda>us.
     bindR (CreateCertificate lib
        \<lparr>TSerial = serial, CommonName = commonName, TNotBefore = notBefore, TNotAfter = notAfter, TIsCA = False,
         KeyUsages = [DigitalSignature], ExtKeyUsages = [ServerAuth, ClientAuth], DNSNames = ''localhost'' # dnsNames,
         IPAddresses = [''127.0.0.1''], TURIs = us\<rparr>
        (SignedBy (AuCert ca)) (PublicKey lib k) (AuKey ca)) (\<lambda>der.
     bindR (MarshalECPrivateKey lib k) (\<lambda>keyDER.
     Inr \<lparr>CertPEM = EncodeToMemory lib ''CERTIFICATE'' der, KeyPEM = EncodeToMemory lib ''EC PRIVATE KEY'' keyDER\<rparr>))))"

definition Issue ::
  "'k mint \<Rightarrow> 'k authority \<Rightarrow> string + 'k \<Rightarrow> nat \<Rightarrow> string \<Rightarrow> string list \<Rightarrow> int \<Rightarrow> string list \<Rightarrow> string + leaf" where
  "Issue lib ca key serial commonName uris now dnsNames =
     IssueFor lib ca key serial commonName uris (now - 60 * second) (now + 12 * 3600 * second) dnsNames"

definition SPIFFE :: "string \<Rightarrow> string \<Rightarrow> string \<Rightarrow> string" where
  "SPIFFE td ns sa = ''spiffe://'' @ td @ ''/ns/'' @ ns @ ''/sa/'' @ sa"

section \<open>What the libraries read back\<close>

text \<open>
  Of the inputs that this file gives the libraries: pem.Decode reads what pem.EncodeToMemory wrote with one of its two types; a parsed
  certificate has the fields of its template, whose URIs are well-formed identities, and its validity in whole
  seconds; a certificate and the private key of its public key are a pair; url.Parse reads the text of a well-formed identity.
\<close>

definition created :: "pki \<Rightarrow> template \<Rightarrow> string \<Rightarrow> bool" where
  "created x t der \<longleftrightarrow> ParseCertificate x der = Inr \<lparr>Raw = der, NotBefore = TNotBefore t - TNotBefore t mod second,
     NotAfter = TNotAfter t - TNotAfter t mod second, IsCA = TIsCA t, URIs = TURIs t\<rparr>"

definition spiffe_uris :: "template \<Rightarrow> bool" where
  "spiffe_uris t \<longleftrightarrow> (\<forall>u\<in>set (TURIs t). \<exists>p. valid_principal p \<and> u = spiffe_url p)"

definition mint_laws :: "'k mint \<Rightarrow> pki \<Rightarrow> bool" where
  "mint_laws lib x \<longleftrightarrow>
     (\<forall>ty b. ty \<in> {''CERTIFICATE'', ''EC PRIVATE KEY''} \<longrightarrow> PemBlocks x (EncodeToMemory lib ty b) = [(ty, b)]) \<and>
     (\<forall>t i pub k der. spiffe_uris t \<longrightarrow> CreateCertificate lib t i pub k = Inr der \<longrightarrow> created x t der) \<and>
     (\<forall>t i k k' der kd. spiffe_uris t \<longrightarrow> CreateCertificate lib t i (PublicKey lib k) k' = Inr der \<longrightarrow> MarshalECPrivateKey lib k = Inr kd \<longrightarrow>
        X509KeyPair x (EncodeToMemory lib ''CERTIFICATE'' der) (EncodeToMemory lib ''EC PRIVATE KEY'' kd) = Inr der) \<and>
     (\<forall>p. valid_principal p \<longrightarrow> UrlParse lib (principal_String p) = Inr (spiffe_url p))"

lemma NewCA_laws:
  assumes "mint_laws lib x" "NewCA lib x key serial name now = Inr ca"
  shows "\<exists>c. AuCert ca = Some c \<and> IsCA c \<and> PemBlocks x (AuPEM ca) = [(''CERTIFICATE'', Raw c)] \<and> ParseCertificate x (Raw c) = Inr c"
proof -
  from assms(2) obtain k t der where d: "CreateCertificate lib t SelfSigned (PublicKey lib k) k = Inr der" "TIsCA t" "TURIs t = []"
    and ca: "ca = \<lparr>AuCert = (case ParseCertificate x der of Inl e \<Rightarrow> None | Inr c \<Rightarrow> Some c), AuKey = k, AuPEM = EncodeToMemory lib ''CERTIFICATE'' der\<rparr>"
    unfolding NewCA_def bindR_Inr by (metis Inr_inject template.select_convs(5,10))
  have "spiffe_uris t" using d(3) by (simp add: spiffe_uris_def)
  then have "created x t der" using assms(1) d(1) unfolding mint_laws_def by blast
  then show ?thesis using assms(1) d(2) unfolding ca created_def mint_laws_def by simp
qed

lemma SPIFFE_parsed:
  assumes "mint_laws lib x" "valid_principal p"
  shows "parse_uris lib [SPIFFE (TrustDomain p) (Namespace p) (ServiceAccount p)] = Inr [spiffe_url p]"
proof -
  have "SPIFFE (TrustDomain p) (Namespace p) (ServiceAccount p) = principal_String p"
    by (simp add: SPIFFE_def principal_String_def)
  with assms show ?thesis unfolding mint_laws_def by simp
qed

lemma Issue_laws:
  assumes "mint_laws lib x" "Issue lib ca key serial cn uris now dns = Inr l" "parse_uris lib uris = Inr us"
    and "\<forall>u\<in>set us. \<exists>p. valid_principal p \<and> u = spiffe_url p"
  shows "\<exists>der c. X509KeyPair x (CertPEM l) (KeyPEM l) = Inr der \<and> ParseCertificate x der = Inr c \<and> URIs c = us
    \<and> NotBefore c \<le> now \<and> now + 12 * 3600 * second - second < NotAfter c"
proof -
  from assms(2,3) obtain k t der kd where d: "CreateCertificate lib t (SignedBy (AuCert ca)) (PublicKey lib k) (AuKey ca) = Inr der"
    and t: "TNotBefore t = now - 60 * second" "TNotAfter t = now + 12 * 3600 * second" "TURIs t = us"
    and kd: "MarshalECPrivateKey lib k = Inr kd"
    and l: "l = \<lparr>CertPEM = EncodeToMemory lib ''CERTIFICATE'' der, KeyPEM = EncodeToMemory lib ''EC PRIVATE KEY'' kd\<rparr>"
    unfolding Issue_def IssueFor_def bindR_Inr by (metis Inr_inject template.select_convs(3,4,10))
  have sp: "spiffe_uris t" using assms(4) t(3) by (simp add: spiffe_uris_def)
  then have "created x t der" using assms(1) d unfolding mint_laws_def by blast
  moreover have "X509KeyPair x (CertPEM l) (KeyPEM l) = Inr der"
    using assms(1) d kd sp unfolding l mint_laws_def leaf.select_convs by blast
  moreover have "TNotBefore t - TNotBefore t mod second \<le> now" "now + 12 * 3600 * second - second < TNotAfter t - TNotAfter t mod second"
    unfolding t using pos_mod_bound [of second "now + 12 * 3600 * second"] pos_mod_sign [of second "now - 60 * second"] by linarith+
  ultimately show ?thesis using t(3) unfolding created_def by auto
qed

section \<open>Properties\<close>

text \<open>
  C24. An identity survives the way from the authority through the mounted files to the peer check: a leaf that
  Issue signs for an identity, mounted with the authority's certificate as the bundle, is loaded by
  New at any time of its twelve hours; the principal of the loaded leaf is the identity it was issued for, and the
  authority is the trusted root.
\<close>

theorem issued_identity_is_read_back:
  assumes "mint_laws lib x" "valid_principal p"
    and "NewCA lib x caKey caSerial name now0 = Inr ca"
    and "Issue lib ca key serial cn [SPIFFE (TrustDomain p) (Namespace p) (ServiceAccount p)] now dns = Inr l"
    and "mountable t" "map_of t [ts] = None" "temp_name ts" "mset order = mset (bodies l (AuPEM ca))"
    and "now \<le> now'" "now' + second \<le> now + 12 * 3600 * second"
  shows "\<exists>t' r. run_ops (Mount ts order) t = Inr t'
    \<and> Trust.New x sha (read_at dir t') (mount_Files dir) now' = Inr r
    \<and> PeerPrincipal (Some (URIs (Leaf (current r)))) = Inr p
    \<and> TrustsRoot sha (Some (current r)) (AuCert ca)"
proof -
  obtain root where root: "AuCert ca = Some root" "IsCA root" "PemBlocks x (AuPEM ca) = [(''CERTIFICATE'', Raw root)]"
    "ParseCertificate x (Raw root) = Inr root" using NewCA_laws [OF assms(1,3)] by blast
  obtain der c where leaf: "X509KeyPair x (CertPEM l) (KeyPEM l) = Inr der" "ParseCertificate x der = Inr c" "URIs c = [spiffe_url p]"
    "NotBefore c \<le> now" "now + 12 * 3600 * second - second < NotAfter c"
    using Issue_laws [OF assms(1,4) SPIFFE_parsed [OF assms(1,2)]] assms(2) by auto
  obtain t' where t': "run_ops (Mount ts order) t = Inr t'" "mounted t' ts (l, AuPEM ca)"
    using mount_succeeds [OF assms(5-7), of order "(l, AuPEM ca)"] assms(8) by auto
  have "follows [t'] [(l, AuPEM ca)] [0]" using t'(2) by (auto simp: follows_def)
  from follows_read_all [OF this, of 0 0 0 dir] have rd: "read_all (read_at dir t') (mount_Files dir) = Inr (CertPEM l, KeyPEM l, AuPEM ca)"
    by (simp add: seen_def read_all_def mount_Files_def)
  let ?m = "\<lparr>Leaf = c, Pool = [root], Roots = Map.empty(sha (Raw root) \<mapsto> root), MDigest = sha (framing [CertPEM l, KeyPEM l, AuPEM ca])\<rparr>"
  have "\<not> now' < NotBefore c" "\<not> NotAfter c < now'" using leaf(4,5) assms(9,10) by linarith+
  then have "Parse x sha (CertPEM l) (KeyPEM l) (AuPEM ca) now' = Inr ?m"
    using root leaf by (simp add: Parse_def)
  with rd have "load_material x sha (read_at dir t') (mount_Files dir) now' = Inr ?m"
    by (simp add: load_material_Parse)
  then have "Trust.New x sha (read_at dir t') (mount_Files dir) now' = Inr \<lparr>rfiles = mount_Files dir, current = ?m, failures = 0\<rparr>"
    by (simp add: New_def mount_Files_def)
  moreover have "PeerPrincipal (Some (URIs c)) = Inr p"
    using ParseSPIFFE_spiffe_url [OF assms(2)] leaf(3) by (simp add: PeerPrincipal_def)
  ultimately show ?thesis using t'(1) root(1) by (simp add: TrustsRoot_def)
qed

text \<open>Libraries for which the laws hold: two templates can be signed, and an encoding gives the length of its type in unary.\<close>

definition demo_ca_template :: template where
  "demo_ca_template = \<lparr>TSerial = 1, CommonName = ''ca'', TNotBefore = - 3600 * second, TNotAfter = 24 * 3600 * second,
     TIsCA = True, KeyUsages = [CertSign, CRLSign], ExtKeyUsages = [], DNSNames = [], IPAddresses = [], TURIs = []\<rparr>"

definition demo_leaf_template :: template where
  "demo_leaf_template = \<lparr>TSerial = 2, CommonName = ''api'', TNotBefore = - 60 * second, TNotAfter = 12 * 3600 * second,
     TIsCA = False, KeyUsages = [DigitalSignature], ExtKeyUsages = [ServerAuth, ClientAuth], DNSNames = [''localhost''],
     IPAddresses = [''127.0.0.1''], TURIs = [spiffe_url \<lparr>TrustDomain = ''d'', Namespace = ''n'', ServiceAccount = ''s''\<rparr>]\<rparr>"

definition unary_pem :: "string \<Rightarrow> string \<Rightarrow> string" where
  "unary_pem ty b = replicate (length ty) CHR ''1'' @ ''0'' @ ty @ b"

definition unary_decode :: "string \<Rightarrow> string \<times> string" where
  "unary_decode s = (let n = length (takeWhile (\<lambda>c. c = CHR ''1'') s) in (take n (drop (n + 1) s), drop n (drop (n + 1) s)))"

lemma unary_decode_pem: "unary_decode (unary_pem ty b) = (ty, b)"
proof -
  have "takeWhile (\<lambda>c. c = CHR ''1'') (replicate n CHR ''1'' @ CHR ''0'' # s) = replicate n CHR ''1''" for n s
    by (induction n) auto
  then show ?thesis by (simp add: unary_decode_def unary_pem_def)
qed

definition demo_mint :: "string mint" where
  "demo_mint = \<lparr>PublicKey = (\<lambda>k. k),
     CreateCertificate = (\<lambda>t i pub k. if t = demo_ca_template then Inr ''R'' else if t = demo_leaf_template then Inr ''L'' else Inl ''unsupported''),
     MarshalECPrivateKey = Inr, EncodeToMemory = unary_pem,
     UrlParse = (\<lambda>s. let ps = Split CHR ''/'' s in
       Inr (spiffe_url \<lparr>TrustDomain = ps ! 2, Namespace = ps ! 4, ServiceAccount = ps ! 6\<rparr>))\<rparr>"

definition demo_x509 :: pki where
  "demo_x509 = \<lparr>X509KeyPair = (\<lambda>c k. Inr (snd (unary_decode c))),
     ParseCertificate = (\<lambda>d. let t = (if d = ''R'' then demo_ca_template else demo_leaf_template) in
       Inr \<lparr>Raw = d, NotBefore = TNotBefore t, NotAfter = TNotAfter t, IsCA = TIsCA t, URIs = TURIs t\<rparr>),
     PemBlocks = (\<lambda>s. [unary_decode s])\<rparr>"

lemma Split_principal:
  assumes "valid_principal p"
  shows "Split CHR ''/'' (principal_String p) = [''spiffe:'', [], TrustDomain p, ''ns'', Namespace p, ''sa'', ServiceAccount p]"
proof -
  have "CHR ''/'' \<notin> set (TrustDomain p)" "CHR ''/'' \<notin> set (Namespace p)" "CHR ''/'' \<notin> set (ServiceAccount p)"
    using assms label_no_special trustDomain_no_special by (auto simp: valid_principal_def)
  then show ?thesis
    using Split_append_sep [of "CHR ''/''" "TrustDomain p"] Split_spiffe_path [of "Namespace p" "ServiceAccount p"]
    by (simp add: principal_String_def)
qed

lemma demo_mint_laws: "mint_laws demo_mint demo_x509"
  unfolding mint_laws_def
proof (intro conjI allI impI)
  fix p assume p: "valid_principal p"
  show "UrlParse demo_mint (principal_String p) = Inr (spiffe_url p)"
    by (cases p) (use Split_principal [OF p] in \<open>simp add: demo_mint_def\<close>)
qed (auto simp: demo_mint_def demo_x509_def unary_decode_pem created_def demo_ca_template_def demo_leaf_template_def split: if_splits)

theorem issued_identity_is_read_back_witness:
  "\<exists>ca l t' r. NewCA demo_mint demo_x509 (Inr ''ck'') 1 ''ca'' 0 = Inr ca
     \<and> Issue demo_mint ca (Inr ''lk'') 2 ''api'' [SPIFFE ''d'' ''n'' ''s''] 0 [] = Inr l
     \<and> run_ops (Mount ''..ts-1'' (bodies l (AuPEM ca))) [] = Inr t'
     \<and> Trust.New demo_x509 (\<lambda>s. s) (read_at ''/id'' t') (mount_Files ''/id'') second = Inr r
     \<and> PeerPrincipal (Some (URIs (Leaf (current r)))) = Inr \<lparr>TrustDomain = ''d'', Namespace = ''n'', ServiceAccount = ''s''\<rparr>"
proof -
  let ?p = "\<lparr>TrustDomain = ''d'', Namespace = ''n'', ServiceAccount = ''s''\<rparr>"
  have p: "valid_principal ?p" by code_simp
  obtain ca where ca: "NewCA demo_mint demo_x509 (Inr ''ck'') 1 ''ca'' 0 = Inr ca"
    by (simp add: NewCA_def demo_mint_def demo_ca_template_def)
  have "parse_uris demo_mint [SPIFFE ''d'' ''n'' ''s''] = Inr [spiffe_url ?p]"
    using SPIFFE_parsed [OF demo_mint_laws p] by simp
  then obtain l where l: "Issue demo_mint ca (Inr ''lk'') 2 ''api'' [SPIFFE ''d'' ''n'' ''s''] 0 [] = Inr l"
    by (simp add: Issue_def IssueFor_def demo_mint_def demo_leaf_template_def demo_ca_template_def del: parse_uris.simps)
  have t: "mountable []" "map_of [] [''..ts-1''] = (None :: node option)" "temp_name ''..ts-1''"
    by (simp_all add: mountable_def wf_tree_def temp_name_def)
  have b: "(0::int) \<le> second" "second + second \<le> 0 + 12 * 3600 * second" by simp_all
  have "\<exists>t' r. run_ops (Mount ''..ts-1'' (bodies l (AuPEM ca))) [] = Inr t'
    \<and> Trust.New demo_x509 (\<lambda>s. s) (read_at ''/id'' t') (mount_Files ''/id'') second = Inr r
    \<and> PeerPrincipal (Some (URIs (Leaf (current r)))) = Inr ?p
    \<and> TrustsRoot (\<lambda>s. s) (Some (current r)) (AuCert ca)"
    by (rule issued_identity_is_read_back [OF demo_mint_laws p ca _ t refl b]) (use l in simp)
  with ca l show ?thesis by blast
qed

end
