(* ===== verification/Gateway.thy ===== *)
theory Gateway
  imports Owner "HOL-Library.Word"
begin

text \<open>
  What the gateway clients of internal/adapters/knowledge and internal/adapters/mcp share: contract
  words and enum values, a unary method, and the locale \<open>owner_client\<close>, the promise every client of
  an owner makes about the identities its requests name. Control's own requests are its first
  interpretation; the knowledge, MCP and recovery clients interpret it in their theories.
\<close>

section \<open>Words and numbers\<close>

definition word :: "string \<Rightarrow> string \<Rightarrow> string" where
  "word name prefix = ToLower (TrimPrefix name prefix)"

text \<open>
  \<open>known\<close>: the names of the generated enum values. A word that names none is the zero value,
  \<^const>\<open>None\<close>.
\<close>

definition enum :: "(string \<Rightarrow> bool) \<Rightarrow> string \<Rightarrow> string \<Rightarrow> string option" where
  "enum known prefix w = (if known (enum_name prefix w) then Some (enum_name prefix w) else None)"

type_synonym uint32 = "32 word"

definition uint32 :: "int \<Rightarrow> uint32" where
  "uint32 n = word_of_int n"

definition optTime :: "timestamp \<Rightarrow> int option" where
  "optTime t = map_option (\<lambda>x. AsTime (Some x)) t"

lemma enum_word: "is_lower_word w \<Longrightarrow> enum known prefix w = Some e \<Longrightarrow> word e prefix = w"
  by (auto simp: enum_def enum_name_def word_def ToLower_ToUpper split: if_splits)

lemma enum_unknown: "\<not> known (enum_name prefix w) \<Longrightarrow> enum known prefix w = None"
  by (simp add: enum_def)

lemma uint_uint32: "0 \<le> n \<Longrightarrow> n < 2 ^ 32 \<Longrightarrow> uint (uint32 n) = n"
  by (simp add: uint32_def unsigned_of_int take_bit_int_eq_self)

section \<open>A unary method\<close>

text \<open>
  The request a method sends and what it makes of the answer. The call is made under the client's
  timeout, which only decides whether the owner's answer is a deadline error.
\<close>

type_synonym ('q, 'm, 'v) unary = "'q \<times> ('m \<Rightarrow> 'v)"

definition perform :: "string \<Rightarrow> ('q \<Rightarrow> rpc_error + 'm) \<Rightarrow> ('q, 'm, 'v) unary \<Rightarrow> go_error + 'v" where
  "perform service rpc m = call service rpc (snd m) (fst m)"

lemma perform_simps [simp]:
  "rpc q = Inr m \<Longrightarrow> perform service rpc (q, conv) = Inr (conv m)"
  "rpc q = Inl e \<Longrightarrow> perform service rpc (q, conv) = Inl (mapErr service e)"
  by (simp_all add: perform_def call_def)

section \<open>Identities\<close>

text \<open>The command a principal sends: its tenant and actor are the principal's.\<close>

definition commands_as :: "principal \<Rightarrow> command_identity \<Rightarrow> bool" where
  "commands_as p cmd \<longleftrightarrow> CmdTenantID cmd = TenantID p \<and> CmdActorID cmd = ActorID p"

text \<open>
  \<open>sends cmd p c q\<close>: given that command identity and that principal, the method call \<open>c\<close> sends the
  message \<open>q\<close>. The message names that scope (or none), and that command exactly when the call is
  mutating.
\<close>

locale owner_client =
  fixes sends :: "command_identity \<Rightarrow> principal \<Rightarrow> 'c \<Rightarrow> 'q \<Rightarrow> bool"
    and request_scope :: "'q \<Rightarrow> scope_msg option"
    and request_command :: "'q \<Rightarrow> command_msg option"
    and mutating :: "'c \<Rightarrow> bool"
  assumes scoped: "sends cmd p c q \<Longrightarrow> request_scope q \<in> {Some (scope p), None}"
    and commanded: "sends cmd p c q \<Longrightarrow> request_command q = (if mutating c then Some (command cmd) else None)"
    and identified: "sends cmd p c q \<Longrightarrow> request_scope q = None \<Longrightarrow> mutating c"
begin

text \<open>Every request says who asks: the principal's tenant and actor, and nobody else's.\<close>

lemma one_tenant:
  "sends cmd p c q \<Longrightarrow> commands_as p cmd
   \<Longrightarrow> ScTenantId ` set_option (request_scope q) \<union> CmTenantId ` set_option (request_command q) = {TenantID p}"
  using scoped [of cmd p c q] commanded [of cmd p c q] identified [of cmd p c q]
  by (auto simp: scope_def command_def commands_as_def)

lemma one_actor:
  "sends cmd p c q \<Longrightarrow> commands_as p cmd
   \<Longrightarrow> ScActorId ` set_option (request_scope q) \<union> CmActorId ` set_option (request_command q) = {ActorID p}"
  using scoped [of cmd p c q] commanded [of cmd p c q] identified [of cmd p c q]
  by (auto simp: scope_def command_def commands_as_def)

text \<open>A read depends on the principal only: no command identity reaches the owner.\<close>

lemma read_has_scope: "sends cmd p c q \<Longrightarrow> \<not> mutating c \<Longrightarrow> request_scope q = Some (scope p) \<and> request_command q = None"
  using scoped [of cmd p c q] commanded [of cmd p c q] identified [of cmd p c q] by auto

text \<open>A command is sent with the digest of the caller's body and the caller's command identifier.\<close>

lemma command_digest:
  "sends cmd p c q \<Longrightarrow> mutating c \<Longrightarrow> request_command q = Some \<lparr>CmTenantId = CmdTenantID cmd, CmCommandId = CommandID cmd,
     CmActorId = CmdActorID cmd, CmRequestDigest = RequestDigest cmd\<rparr>"
  using commanded [of cmd p c q] by (simp add: command_def)

end

text \<open>A client whose calls are never refused before they are sent.\<close>

locale total_client =
  fixes request :: "command_identity \<Rightarrow> principal \<Rightarrow> 'c \<Rightarrow> 'q"
    and request_scope :: "'q \<Rightarrow> scope_msg option"
    and request_command :: "'q \<Rightarrow> command_msg option"
    and mutating :: "'c \<Rightarrow> bool"
  assumes requests_scope: "request_scope (request cmd p c) \<in> {Some (scope p), None}"
    and requests_command: "request_command (request cmd p c) = (if mutating c then Some (command cmd) else None)"
    and requests_identity: "request_scope (request cmd p c) = None \<Longrightarrow> mutating c"

sublocale total_client \<subseteq> owner_client "\<lambda>cmd p c q. q = request cmd p c" request_scope request_command mutating
  using requests_scope requests_command requests_identity by unfold_locales auto

section \<open>Control's unary methods\<close>

datatype control_call =
    CtlCreateOperation string operation_subject
  | CtlCreatePreparation string string preparation_intake
  | CtlSubmitAnswer string string string string string
  | CtlGetOperation string
  | CtlSubmitCommand string string string string
  | CtlGetCommand string string
  | CtlBeginTransfer transfer_intent
  | CtlFinalizeTransfer string string

fun control_call_request :: "command_identity \<Rightarrow> principal \<Rightarrow> control_call \<Rightarrow> control_request" where
  "control_call_request cmd p (CtlCreateOperation kind s) = CreateOperation cmd p kind s"
| "control_call_request cmd p (CtlCreatePreparation prof d i) = CreatePreparation cmd p prof d i"
| "control_call_request cmd p (CtlSubmitAnswer op qs qrev t d) = SubmitAnswer cmd p op qs qrev t d"
| "control_call_request cmd p (CtlGetOperation op) = GetOperation p op"
| "control_call_request cmd p (CtlSubmitCommand op kind xrev target) = SubmitCommand cmd p op kind xrev target"
| "control_call_request cmd p (CtlGetCommand op cid) = GetCommand p op cid"
| "control_call_request cmd p (CtlBeginTransfer i) = BeginTransfer cmd p i"
| "control_call_request cmd p (CtlFinalizeTransfer h v) = FinalizeTransfer cmd h v"

fun control_mutating :: "control_call \<Rightarrow> bool" where
  "control_mutating (CtlGetOperation op) = False"
| "control_mutating (CtlGetCommand op cid) = False"
| "control_mutating _ = True"

lemmas [conv_defs] = CreateOperation_def CreatePreparation_def SubmitAnswer_def GetOperation_def SubmitCommand_def
  GetCommand_def BeginTransfer_def FinalizeTransfer_def

interpretation control: total_client control_call_request control_scope control_command control_mutating
proof
  fix cmd p c
  show "control_scope (control_call_request cmd p c) \<in> {Some (scope p), None}"
    by (cases c) (simp_all add: conv_defs)
  show "control_command (control_call_request cmd p c) = (if control_mutating c then Some (command cmd) else None)"
    by (cases c) (simp_all add: conv_defs)
  show "control_scope (control_call_request cmd p c) = None \<Longrightarrow> control_mutating c"
    by (cases c) (simp_all add: conv_defs)
qed

end
