(* ===== verification/Knowledge.thy ===== *)
theory Knowledge
  imports Gateway
begin

text \<open>
  The gateway to the Knowledge owner: internal/adapters/knowledge/client.go. Each method of the
  client is the request it sends with the conversion of the answer. Records named \<open>_msg\<close> are the
  generated messages as their getters read them; the others are the public contract's values.
  \<open>known\<close> are the names of the generated enum values, \<open>now\<close> the clock, \<open>timeout\<close> the client's.
\<close>

section \<open>Sources\<close>

record access_msg =
  AmPrincipalType :: string
  AmPrincipalId :: string
  AmPermission :: string

record access_entry =
  AePrincipalType :: string
  AePrincipalId :: string
  AePermission :: "string option"

record kn_source_msg =
  KsSourceId :: string
  KsTenantId :: string
  KsProjectId :: string
  KsKind :: string
  KsLocator :: string
  KsCurrentRevision :: string
  KsContentDigest :: string
  KsAclRevision :: string
  KsAccess :: "access_msg list"
  KsIngest :: string
  KsDeleted :: bool
  KsCreatedAt :: timestamp
  KsUpdatedAt :: timestamp

record kn_source =
  SrcSourceId :: string
  SrcTenantId :: string
  SrcProjectId :: "string option"
  SrcKind :: string
  SrcLocator :: string
  SrcCurrentRevision :: string
  SrcContentDigest :: string
  SrcAclRevision :: string
  SrcAccess :: "access_entry list"
  SrcIngest :: string
  SrcDeleted :: bool
  SrcCreatedAt :: int
  SrcUpdatedAt :: int

definition manage :: string where "manage = ''manage''"

definition to_access :: "access_msg \<Rightarrow> access_entry" where
  "to_access a = \<lparr>AePrincipalType = AmPrincipalType a, AePrincipalId = AmPrincipalId a,
     AePermission = (if AmPermission a = manage then Some manage else None)\<rparr>"

definition toSource :: "kn_source_msg \<Rightarrow> kn_source" where
  "toSource s =
     \<lparr>SrcSourceId = KsSourceId s, SrcTenantId = KsTenantId s, SrcProjectId = (if KsProjectId s \<noteq> [] then Some (KsProjectId s) else None),
      SrcKind = word (KsKind s) ''SOURCE_KIND_'', SrcLocator = KsLocator s, SrcCurrentRevision = KsCurrentRevision s,
      SrcContentDigest = KsContentDigest s, SrcAclRevision = KsAclRevision s, SrcAccess = map to_access (KsAccess s),
      SrcIngest = word (KsIngest s) ''INGEST_STATE_'', SrcDeleted = KsDeleted s, SrcCreatedAt = AsTime (KsCreatedAt s),
      SrcUpdatedAt = AsTime (KsUpdatedAt s)\<rparr>"

definition accessOf :: "access_entry list \<Rightarrow> access_msg list" where
  "accessOf es = map (\<lambda>a. \<lparr>AmPrincipalType = AePrincipalType a, AmPrincipalId = AePrincipalId a, AmPermission = deref (AePermission a)\<rparr>) es"

section \<open>Facts and snapshots\<close>

record fact_msg =
  FmFactId :: string
  FmTenantId :: string
  FmSubjectType :: string
  FmSubjectId :: string
  FmContent :: string
  FmContentDigest :: string
  FmState :: string
  FmRevision :: string
  FmProposer :: string
  FmConfirmer :: "string option"
  FmSourceRefs :: "string list"
  FmExpiresAt :: timestamp
  FmCreatedAt :: timestamp
  FmUpdatedAt :: timestamp

record memory_fact =
  FactId :: string
  FactTenantId :: string
  FactSubjectType :: string
  FactSubjectId :: string
  FactContent :: string
  FactContentDigest :: string
  FactState :: string
  FactRevision :: string
  FactProposer :: string
  FactConfirmer :: "string option"
  FactSourceRefs :: "string list option"
  FactExpiresAt :: "int option"
  FactCreatedAt :: int
  FactUpdatedAt :: int

text \<open>The confirmer is read through the message's pointer: an absent fact panics.\<close>

definition fact_of :: "fact_msg \<Rightarrow> memory_fact" where
  "fact_of f =
     \<lparr>FactId = FmFactId f, FactTenantId = FmTenantId f, FactSubjectType = FmSubjectType f, FactSubjectId = FmSubjectId f,
      FactContent = FmContent f, FactContentDigest = FmContentDigest f, FactState = word (FmState f) ''FACT_STATE_'',
      FactRevision = FmRevision f, FactProposer = FmProposer f, FactConfirmer = FmConfirmer f,
      FactSourceRefs = (if length (FmSourceRefs f) > 0 then Some (FmSourceRefs f) else None),
      FactExpiresAt = optTime (FmExpiresAt f), FactCreatedAt = AsTime (FmCreatedAt f), FactUpdatedAt = AsTime (FmUpdatedAt f)\<rparr>"

definition toFact :: "fact_msg option \<Rightarrow> memory_fact option" where
  "toFact f = map_option fact_of f"

record snapshot_msg =
  SnSnapshotId :: string
  SnTenantId :: string
  SnProjectId :: string
  SnIndexGeneration :: string
  SnSourceRevisions :: "string list"
  SnContentDigest :: string
  SnCreatedAt :: timestamp

record snapshot =
  SnapId :: string
  SnapTenantId :: string
  SnapProjectId :: "string option"
  SnapIndexGeneration :: string
  SnapSourceRevisions :: "string list"
  SnapContentDigest :: string
  SnapCreatedAt :: int

definition toSnapshot :: "snapshot_msg \<Rightarrow> snapshot" where
  "toSnapshot s =
     \<lparr>SnapId = SnSnapshotId s, SnapTenantId = SnTenantId s,
      SnapProjectId = (if SnProjectId s \<noteq> [] then Some (SnProjectId s) else None), SnapIndexGeneration = SnIndexGeneration s,
      SnapSourceRevisions = SnSourceRevisions s, SnapContentDigest = SnContentDigest s, SnapCreatedAt = AsTime (SnCreatedAt s)\<rparr>"

section \<open>Requests\<close>

datatype knowledge_request =
    KListSources scope_msg string uint32
  | KRegisterSource command_msg scope_msg "string option" string string string string "access_msg list"
  | KGetSource scope_msg string
  | KDeleteSource command_msg scope_msg string string
  | KUpdateSourceAccess command_msg scope_msg string string "access_msg list"
  | KSearch scope_msg string string string uint32 timestamp
  | KListFacts scope_msg string string "string option" string uint32
  | KProposeFact command_msg scope_msg string string string string "string list" timestamp
  | KDecideFact command_msg scope_msg string string "string option" "string option"
  | KBeginUpload command_msg scope_msg string string string
  | KCreateSnapshot command_msg scope_msg "string list"
  | KGetSnapshot scope_msg string
  | KRecallFacts scope_msg string string uint32 timestamp

section \<open>Methods on sources\<close>

text \<open>A page of answers: its entries and the cursor of the next, absent when there is none.\<close>

definition page :: "('m \<Rightarrow> 'v) \<Rightarrow> 'm list \<times> string \<Rightarrow> 'v list \<times> string option" where
  "page conv resp = (map conv (fst resp), if snd resp \<noteq> [] then Some (snd resp) else None)"

definition kn_ListSources :: "principal \<Rightarrow> string \<Rightarrow> int \<Rightarrow> (knowledge_request, kn_source_msg list \<times> string, kn_source list \<times> string option) unary" where
  "kn_ListSources p cursor limit = (KListSources (scope p) cursor (uint32 limit), page toSource)"

record register_source =
  RgKind :: string
  RgLocator :: string
  RgContentDigest :: string
  RgMediaType :: string
  RgSizeBytes :: string
  RgAccess :: "access_entry list option"

definition kn_RegisterSource ::
  "(string \<Rightarrow> bool) \<Rightarrow> command_identity \<Rightarrow> principal \<Rightarrow> register_source \<Rightarrow> (knowledge_request, kn_source_msg, kn_source) unary" where
  "kn_RegisterSource known cmd p r =
     (KRegisterSource (command cmd) (scope p) (enum known ''SOURCE_KIND_'' (RgKind r)) (RgLocator r) (RgContentDigest r)
        (RgMediaType r) (RgSizeBytes r) (case RgAccess r of None \<Rightarrow> [] | Some es \<Rightarrow> accessOf es), toSource)"

definition kn_GetSource :: "principal \<Rightarrow> string \<Rightarrow> (knowledge_request, kn_source_msg, kn_source) unary" where
  "kn_GetSource p sourceID = (KGetSource (scope p) sourceID, toSource)"

definition kn_DeleteSource ::
  "command_identity \<Rightarrow> principal \<Rightarrow> string \<Rightarrow> string \<Rightarrow> (knowledge_request, kn_source_msg, kn_source) unary" where
  "kn_DeleteSource cmd p sourceID expectedRevision =
     (KDeleteSource (command cmd) (scope p) sourceID expectedRevision, toSource)"

definition kn_ReplaceSourceAccess ::
  "command_identity \<Rightarrow> principal \<Rightarrow> string \<Rightarrow> string \<Rightarrow> access_entry list \<Rightarrow> (knowledge_request, kn_source_msg, kn_source) unary" where
  "kn_ReplaceSourceAccess cmd p sourceID expectedAclRevision access =
     (KUpdateSourceAccess (command cmd) (scope p) sourceID expectedAclRevision (accessOf access), toSource)"

section \<open>Search\<close>

definition defaultMaxContextItems :: uint32 where "defaultMaxContextItems = 64"

record search_request =
  SqSnapshotId :: string
  SqQuery :: string
  SqRetrievalProfileId :: string
  SqMaxContextItems :: "int option"

definition searchRequest :: "principal \<Rightarrow> search_request \<Rightarrow> int \<Rightarrow> knowledge_request" where
  "searchRequest p r deadline =
     KSearch (scope p) (SqSnapshotId r) (SqQuery r) (SqRetrievalProfileId r)
       (case SqMaxContextItems r of None \<Rightarrow> defaultMaxContextItems | Some n \<Rightarrow> uint32 n) (timestamppb_New deadline)"

record citation =
  CtOrdinal :: int
  CtSourceId :: string
  CtSourceRevision :: string
  CtChunkId :: string
  CtLocator :: string
  CtContentDigest :: string

text \<open>The items are text and citation; a public item has the same members.\<close>

record search_response =
  SrItems :: "(string \<times> citation) list"
  SrNoAnswer :: bool
  SrIndexGeneration :: string

definition kn_Search :: "int \<Rightarrow> int \<Rightarrow> principal \<Rightarrow> search_request \<Rightarrow> (knowledge_request, search_response, search_response) unary" where
  "kn_Search now timeout p r =
     (searchRequest p r (Add now timeout),
      \<lambda>resp. \<lparr>SrItems = map (\<lambda>it. (fst it, snd it)) (SrItems resp), SrNoAnswer = SrNoAnswer resp, SrIndexGeneration = SrIndexGeneration resp\<rparr>)"

section \<open>Memory\<close>

record list_memories =
  LmSubjectType :: "string option"
  LmSubjectId :: "string option"
  LmState :: "string option"
  LmCursor :: "string option"
  LmLimit :: "int option"

definition kn_ListMemories ::
  "(string \<Rightarrow> bool) \<Rightarrow> principal \<Rightarrow> list_memories \<Rightarrow> (knowledge_request, fact_msg list \<times> string, memory_fact list \<times> string option) unary" where
  "kn_ListMemories known p q =
     (KListFacts (scope p) (deref (LmSubjectType q)) (deref (LmSubjectId q))
        (case LmState q of None \<Rightarrow> None | Some w \<Rightarrow> enum known ''FACT_STATE_'' w) (deref (LmCursor q))
        (case LmLimit q of None \<Rightarrow> 0 | Some n \<Rightarrow> uint32 n), page fact_of)"

record propose_memory =
  PpSubjectType :: string
  PpSubjectId :: string
  PpContent :: string
  PpSourceRefs :: "string list option"
  PpExpiresAt :: "int option"

definition kn_ProposeMemory ::
  "command_identity \<Rightarrow> principal \<Rightarrow> propose_memory \<Rightarrow> (knowledge_request, fact_msg option, memory_fact option) unary" where
  "kn_ProposeMemory cmd p r =
     (KProposeFact (command cmd) (scope p) (PpSubjectType r) (PpSubjectId r) (PpContent r) ''FACT_ORIGIN_USER''
        (case PpSourceRefs r of None \<Rightarrow> [] | Some refs \<Rightarrow> refs)
        (case PpExpiresAt r of None \<Rightarrow> None | Some t \<Rightarrow> timestamppb_New t), toFact)"

record memory_decision =
  MdExpectedRevision :: string
  MdDecision :: string
  MdReasonCode :: "string option"

definition kn_DecideMemory ::
  "(string \<Rightarrow> bool) \<Rightarrow> command_identity \<Rightarrow> principal \<Rightarrow> string \<Rightarrow> memory_decision \<Rightarrow> (knowledge_request, fact_msg option, memory_fact option) unary" where
  "kn_DecideMemory known cmd p factID r =
     (KDecideFact (command cmd) (scope p) factID (MdExpectedRevision r) (enum known ''FACT_DECISION_'' (MdDecision r)) (MdReasonCode r), toFact)"

record recall_memories =
  RcQuery :: string
  RcRetrievalProfileId :: string
  RcMaxFacts :: "int option"

record recall_msg =
  RcmFacts :: "fact_msg list"
  RcmNoAnswer :: bool
  RcmIndexGeneration :: string

record recall_response =
  RcrFacts :: "memory_fact list"
  RcrNoAnswer :: bool
  RcrIndexGeneration :: string

definition kn_RecallMemories ::
  "int \<Rightarrow> int \<Rightarrow> principal \<Rightarrow> recall_memories \<Rightarrow> (knowledge_request, recall_msg, recall_response) unary" where
  "kn_RecallMemories now timeout p r =
     (KRecallFacts (scope p) (RcQuery r) (RcRetrievalProfileId r) (case RcMaxFacts r of None \<Rightarrow> 5 | Some n \<Rightarrow> uint32 n)
        (timestamppb_New (Add now timeout)),
      \<lambda>resp. \<lparr>RcrFacts = map fact_of (RcmFacts resp), RcrNoAnswer = RcmNoAnswer resp, RcrIndexGeneration = RcmIndexGeneration resp\<rparr>)"

section \<open>Uploads and snapshots\<close>

record begin_upload =
  BuContentDigest :: string
  BuSizeBytes :: string
  BuMediaType :: string

record upload_msg =
  UmUploadId :: string
  UmUploadUrl :: string
  UmUploadMethod :: string
  UmUploadHeaders :: "string \<rightharpoonup> string"
  UmExpiresAt :: timestamp

record source_upload =
  UpUploadId :: string
  UpUploadUrl :: string
  UpUploadMethod :: string
  UpUploadHeaders :: "string \<rightharpoonup> string"
  UpExpiresAt :: int

definition to_upload :: "upload_msg \<Rightarrow> source_upload" where
  "to_upload m = \<lparr>UpUploadId = UmUploadId m, UpUploadUrl = UmUploadUrl m, UpUploadMethod = UmUploadMethod m,
     UpUploadHeaders = UmUploadHeaders m, UpExpiresAt = AsTime (UmExpiresAt m)\<rparr>"

definition kn_BeginSourceUpload ::
  "command_identity \<Rightarrow> principal \<Rightarrow> begin_upload \<Rightarrow> (knowledge_request, upload_msg, source_upload) unary" where
  "kn_BeginSourceUpload cmd p r =
     (KBeginUpload (command cmd) (scope p) (BuContentDigest r) (BuSizeBytes r) (BuMediaType r), to_upload)"

definition kn_CreateSnapshot ::
  "command_identity \<Rightarrow> principal \<Rightarrow> string list \<Rightarrow> (knowledge_request, snapshot_msg, snapshot) unary" where
  "kn_CreateSnapshot cmd p sourceIds = (KCreateSnapshot (command cmd) (scope p) sourceIds, toSnapshot)"

definition kn_GetSnapshot :: "principal \<Rightarrow> string \<Rightarrow> (knowledge_request, snapshot_msg, snapshot) unary" where
  "kn_GetSnapshot p snapshotID = (KGetSnapshot (scope p) snapshotID, toSnapshot)"

section \<open>The port\<close>

text \<open>The calls of the Knowledge interface with their arguments, and the request each one sends.\<close>

datatype knowledge_call =
    KnListSources string int
  | KnRegisterSource register_source
  | KnGetSource string
  | KnDeleteSource string string
  | KnReplaceSourceAccess string string "access_entry list"
  | KnSearch search_request
  | KnBeginSourceUpload begin_upload
  | KnCreateSnapshot "string list"
  | KnGetSnapshot string
  | KnRecallMemories recall_memories
  | KnListMemories list_memories
  | KnProposeMemory propose_memory
  | KnDecideMemory string memory_decision

fun knowledge_call_request ::
  "(string \<Rightarrow> bool) \<Rightarrow> int \<Rightarrow> int \<Rightarrow> command_identity \<Rightarrow> principal \<Rightarrow> knowledge_call \<Rightarrow> knowledge_request" where
  "knowledge_call_request known now timeout cmd p (KnListSources cursor n) = fst (kn_ListSources p cursor n)"
| "knowledge_call_request known now timeout cmd p (KnRegisterSource r) = fst (kn_RegisterSource known cmd p r)"
| "knowledge_call_request known now timeout cmd p (KnGetSource i) = fst (kn_GetSource p i)"
| "knowledge_call_request known now timeout cmd p (KnDeleteSource i xrev) = fst (kn_DeleteSource cmd p i xrev)"
| "knowledge_call_request known now timeout cmd p (KnReplaceSourceAccess i xrev es) = fst (kn_ReplaceSourceAccess cmd p i xrev es)"
| "knowledge_call_request known now timeout cmd p (KnSearch r) = fst (kn_Search now timeout p r)"
| "knowledge_call_request known now timeout cmd p (KnBeginSourceUpload r) = fst (kn_BeginSourceUpload cmd p r)"
| "knowledge_call_request known now timeout cmd p (KnCreateSnapshot ids) = fst (kn_CreateSnapshot cmd p ids)"
| "knowledge_call_request known now timeout cmd p (KnGetSnapshot i) = fst (kn_GetSnapshot p i)"
| "knowledge_call_request known now timeout cmd p (KnRecallMemories r) = fst (kn_RecallMemories now timeout p r)"
| "knowledge_call_request known now timeout cmd p (KnListMemories q) = fst (kn_ListMemories known p q)"
| "knowledge_call_request known now timeout cmd p (KnProposeMemory r) = fst (kn_ProposeMemory cmd p r)"
| "knowledge_call_request known now timeout cmd p (KnDecideMemory i r) = fst (kn_DecideMemory known cmd p i r)"

fun knowledge_mutating :: "knowledge_call \<Rightarrow> bool" where
  "knowledge_mutating (KnRegisterSource r) = True"
| "knowledge_mutating (KnDeleteSource i xrev) = True"
| "knowledge_mutating (KnReplaceSourceAccess i xrev es) = True"
| "knowledge_mutating (KnBeginSourceUpload r) = True"
| "knowledge_mutating (KnCreateSnapshot ids) = True"
| "knowledge_mutating (KnProposeMemory r) = True"
| "knowledge_mutating (KnDecideMemory i r) = True"
| "knowledge_mutating _ = False"

fun knowledge_scope :: "knowledge_request \<Rightarrow> scope_msg option" where
  "knowledge_scope (KListSources s a b) = Some s"
| "knowledge_scope (KRegisterSource c s k a b d e es) = Some s"
| "knowledge_scope (KGetSource s a) = Some s"
| "knowledge_scope (KDeleteSource c s a b) = Some s"
| "knowledge_scope (KUpdateSourceAccess c s a b es) = Some s"
| "knowledge_scope (KSearch s a b d n t) = Some s"
| "knowledge_scope (KListFacts s a b k d n) = Some s"
| "knowledge_scope (KProposeFact c s a b d k refs t) = Some s"
| "knowledge_scope (KDecideFact c s a b k d) = Some s"
| "knowledge_scope (KBeginUpload c s a b d) = Some s"
| "knowledge_scope (KCreateSnapshot c s ids) = Some s"
| "knowledge_scope (KGetSnapshot s a) = Some s"
| "knowledge_scope (KRecallFacts s a b n t) = Some s"

fun knowledge_command :: "knowledge_request \<Rightarrow> command_msg option" where
  "knowledge_command (KRegisterSource c s k a b d e es) = Some c"
| "knowledge_command (KDeleteSource c s a b) = Some c"
| "knowledge_command (KUpdateSourceAccess c s a b es) = Some c"
| "knowledge_command (KProposeFact c s a b d k refs t) = Some c"
| "knowledge_command (KDecideFact c s a b k d) = Some c"
| "knowledge_command (KBeginUpload c s a b d) = Some c"
| "knowledge_command (KCreateSnapshot c s ids) = Some c"
| "knowledge_command _ = None"

lemmas kn_defs = kn_ListSources_def kn_RegisterSource_def kn_GetSource_def kn_DeleteSource_def kn_ReplaceSourceAccess_def
  kn_Search_def kn_BeginSourceUpload_def kn_CreateSnapshot_def kn_GetSnapshot_def kn_RecallMemories_def kn_ListMemories_def
  kn_ProposeMemory_def kn_DecideMemory_def searchRequest_def

interpretation knowledge: total_client "knowledge_call_request known now timeout" knowledge_scope knowledge_command knowledge_mutating
proof
  fix cmd p c
  show "knowledge_scope (knowledge_call_request known now timeout cmd p c) \<in> {Some (scope p), None}"
    by (cases c) (simp_all add: kn_defs)
  show "knowledge_command (knowledge_call_request known now timeout cmd p c) = (if knowledge_mutating c then Some (command cmd) else None)"
    by (cases c) (simp_all add: kn_defs)
  show "knowledge_scope (knowledge_call_request known now timeout cmd p c) = None \<Longrightarrow> knowledge_mutating c"
    by (cases c) (simp_all add: kn_defs)
qed

section \<open>Properties\<close>

lemma list_memories_limit: "LmLimit q = Some n \<Longrightarrow> 0 \<le> n \<Longrightarrow> n < 2 ^ 32 \<Longrightarrow>
    \<exists>s a b k d x. fst (kn_ListMemories known p q) = KListFacts s a b k d x \<and> uint x = n"
  by (simp add: kn_ListMemories_def uint_uint32)

text \<open>
  The caps sent with a retrieval are within the owner's bounds: for a request within the public
  contract a search asks for 1 to 64 items and a recall for 1 to 64 facts, the number the caller
  named when it named one, 64 and 5 when it did not, and never for zero.
\<close>

theorem retrieval_caps_bounded:
  assumes "\<forall>n\<in>set_option (SqMaxContextItems r). 1 \<le> n \<and> n \<le> 64" "\<forall>n\<in>set_option (RcMaxFacts q). 1 \<le> n \<and> n \<le> 64"
  shows "(\<exists>k t. fst (kn_Search now timeout p r) = KSearch (scope p) (SqSnapshotId r) (SqQuery r) (SqRetrievalProfileId r) k t
      \<and> 1 \<le> uint k \<and> uint k \<le> 64 \<and> uint k = (case SqMaxContextItems r of None \<Rightarrow> 64 | Some n \<Rightarrow> n))
    \<and> (\<exists>k t. fst (kn_RecallMemories now timeout p q) = KRecallFacts (scope p) (RcQuery q) (RcRetrievalProfileId q) k t
      \<and> 1 \<le> uint k \<and> uint k \<le> 64 \<and> uint k = (case RcMaxFacts q of None \<Rightarrow> 5 | Some n \<Rightarrow> n))"
  using assms
  by (cases "SqMaxContextItems r"; cases "RcMaxFacts q")
     (auto simp: kn_Search_def searchRequest_def kn_RecallMemories_def defaultMaxContextItems_def uint_uint32)

theorem retrieval_caps_bounded_witness:
  "\<exists>k t. fst (kn_Search 0 0 no_principal \<lparr>SqSnapshotId = ''s'', SqQuery = ''q'', SqRetrievalProfileId = ''p'', SqMaxContextItems = Some 64\<rparr>)
     = KSearch (scope no_principal) ''s'' ''q'' ''p'' k t \<and> uint k = 64"
  using retrieval_caps_bounded [of "\<lparr>SqSnapshotId = ''s'', SqQuery = ''q'', SqRetrievalProfileId = ''p'', SqMaxContextItems = Some 64\<rparr>"
      "\<lparr>RcQuery = [], RcRetrievalProfileId = [], RcMaxFacts = None\<rparr>" 0 0 no_principal]
  by auto

text \<open>
  A source's access list comes back as it was registered: whatever the entries, the owner that
  stores what it was sent shows the same principals in the same order, may-manage exactly for the
  entries that had it, and the very same entries when none asked for another permission.
\<close>

theorem access_round_trip:
  assumes "fst (kn_ReplaceSourceAccess cmd p i xrev es) = KUpdateSourceAccess c sc i' r' stored" "KsAccess s = stored"
  shows "map (\<lambda>e. (AePrincipalType e, AePrincipalId e, AePermission e = Some manage)) (SrcAccess (toSource s))
       = map (\<lambda>e. (AePrincipalType e, AePrincipalId e, AePermission e = Some manage)) es
    \<and> (SrcAccess (toSource s) = es \<longleftrightarrow> AePermission ` set es \<subseteq> {None, Some manage})
    \<and> c = command cmd \<and> sc = scope p \<and> i' = i \<and> r' = xrev"
proof -
  have st: "stored = accessOf es" and rest: "c = command cmd \<and> sc = scope p \<and> i' = i \<and> r' = xrev"
    using assms(1) by (simp_all add: kn_ReplaceSourceAccess_def)
  have a: "SrcAccess (toSource s) = map to_access (accessOf es)" using assms(2) st by (simp add: toSource_def)
  have m: "deref x = manage \<longleftrightarrow> x = Some manage" for x by (cases x) (auto simp: manage_def)
  have e: "to_access \<lparr>AmPrincipalType = AePrincipalType e, AmPrincipalId = AePrincipalId e, AmPermission = deref (AePermission e)\<rparr> = e
      \<longleftrightarrow> AePermission e \<in> {None, Some manage}" for e :: access_entry
    by (cases e) (auto simp: to_access_def m)
  have "map to_access (accessOf es) = es \<longleftrightarrow> AePermission ` set es \<subseteq> {None, Some manage}"
    by (induction es) (auto simp: accessOf_def e)
  moreover have "map (\<lambda>e. (AePrincipalType e, AePrincipalId e, AePermission e = Some manage)) (map to_access (accessOf es))
      = map (\<lambda>e. (AePrincipalType e, AePrincipalId e, AePermission e = Some manage)) es"
    by (induction es) (auto simp: accessOf_def to_access_def m)
  ultimately show ?thesis using a rest by simp
qed

theorem access_round_trip_witness:
  "let es = [\<lparr>AePrincipalType = ''user'', AePrincipalId = ''ann'', AePermission = Some manage\<rparr>];
       s = \<lparr>KsSourceId = [], KsTenantId = [], KsProjectId = [], KsKind = [], KsLocator = [], KsCurrentRevision = [], KsContentDigest = [],
            KsAclRevision = [], KsAccess = accessOf es, KsIngest = [], KsDeleted = False, KsCreatedAt = None, KsUpdatedAt = None\<rparr>
   in SrcAccess (toSource s) = es"
proof -
  define es where "es = [\<lparr>AePrincipalType = ''user'', AePrincipalId = ''ann'', AePermission = Some manage\<rparr>]"
  let ?cmd = "\<lparr>CmdTenantID = [], CommandID = [], CmdActorID = [], RequestDigest = []\<rparr>"
  have q: "fst (kn_ReplaceSourceAccess ?cmd no_principal [] [] es) = KUpdateSourceAccess (command ?cmd) (scope no_principal) [] [] (accessOf es)"
    by (simp add: kn_ReplaceSourceAccess_def)
  have "SrcAccess (toSource s) = es" if "KsAccess s = accessOf es" for s
    using access_round_trip [OF q that] by (simp add: es_def)
  then show ?thesis by (simp add: Let_def es_def)
qed

end
