(* ===== verification/Mcp.thy ===== *)
theory Mcp
  imports Gateway Digest
begin

text \<open>
  The gateway to the MCP owner: internal/adapters/mcp/client.go, as in Knowledge.thy a request and a
  conversion per method. json.Marshal of a tool call's arguments is \<open>marshal\<close> of Digest.thy, the
  decoding of a call's result object is the parameter \<open>unmarshal\<close>.
\<close>

section \<open>Messages and their conversions\<close>

record money =
  MnCurrency :: string
  MnAmount :: string

definition no_money :: money where "no_money = \<lparr>MnCurrency = [], MnAmount = []\<rparr>"

definition money_of :: "money option \<Rightarrow> money" where
  "money_of m = (case m of Some v \<Rightarrow> v | None \<Rightarrow> no_money)"

record tool_schema_msg =
  TsMethod :: string
  TsInputSchemaDigest :: string
  TsOutputSchemaDigest :: string
  TsSideEffecting :: bool
  TsIdempotent :: bool
  TsQuerySupported :: bool
  TsUnitPrice :: "money option"

record tool_schema =
  ToMethod :: string
  ToInputSchemaDigest :: string
  ToOutputSchemaDigest :: string
  ToSideEffecting :: bool
  ToUnitPrice :: "money option"

record descriptor_msg =
  DmServerId :: string
  DmRevision :: string
  DmCanonicalResource :: string
  DmTransport :: string
  DmProtocolVersion :: string
  DmDescriptorDigest :: string
  DmTools :: "tool_schema_msg list"
  DmState :: string
  DmCreatedAt :: timestamp
  DmUpdatedAt :: timestamp

record descriptor =
  DscServerId :: string
  DscRevision :: string
  DscCanonicalResource :: string
  DscTransport :: string
  DscProtocolVersion :: string
  DscDescriptorDigest :: string
  DscTools :: "tool_schema list"
  DscState :: string
  DscCreatedAt :: int
  DscUpdatedAt :: int

definition to_tool :: "tool_schema_msg \<Rightarrow> tool_schema" where
  "to_tool t = \<lparr>ToMethod = TsMethod t, ToInputSchemaDigest = TsInputSchemaDigest t, ToOutputSchemaDigest = TsOutputSchemaDigest t,
     ToSideEffecting = TsSideEffecting t, ToUnitPrice = map_option (\<lambda>m. money_of (Some m)) (TsUnitPrice t)\<rparr>"

definition toDescriptor :: "descriptor_msg \<Rightarrow> descriptor" where
  "toDescriptor d =
     \<lparr>DscServerId = DmServerId d, DscRevision = DmRevision d, DscCanonicalResource = DmCanonicalResource d,
      DscTransport = DmTransport d, DscProtocolVersion = DmProtocolVersion d, DscDescriptorDigest = DmDescriptorDigest d,
      DscTools = map to_tool (DmTools d), DscState = word (DmState d) ''CATALOG_STATE_'',
      DscCreatedAt = AsTime (DmCreatedAt d), DscUpdatedAt = AsTime (DmUpdatedAt d)\<rparr>"

record grant_msg =
  GmGrantId :: string
  GmRevision :: string
  GmTenantId :: string
  GmSubjectType :: string
  GmSubjectId :: string
  GmServerId :: string
  GmDescriptorRevision :: string
  GmDescriptorDigest :: string
  GmMethods :: "string list"
  GmPurpose :: string
  GmCostCap :: "money option"
  GmState :: string
  GmExpiresAt :: timestamp
  GmCreatedAt :: timestamp
  GmUpdatedAt :: timestamp

record grant =
  GrGrantId :: string
  GrRevision :: string
  GrTenantId :: string
  GrSubjectType :: string
  GrSubjectId :: string
  GrServerId :: string
  GrDescriptorRevision :: string
  GrDescriptorDigest :: string
  GrMethods :: "string list"
  GrPurpose :: string
  GrCostCap :: money
  GrState :: string
  NewAdmissionBlocked :: bool
  SendersConverged :: bool
  GrExpiresAt :: "int option"
  GrCreatedAt :: int
  GrUpdatedAt :: int

definition toGrant :: "grant_msg \<Rightarrow> grant" where
  "toGrant g =
     (let state = word (GmState g) ''GRANT_STATE_'' in
      \<lparr>GrGrantId = GmGrantId g, GrRevision = GmRevision g, GrTenantId = GmTenantId g, GrSubjectType = GmSubjectType g,
       GrSubjectId = GmSubjectId g, GrServerId = GmServerId g, GrDescriptorRevision = GmDescriptorRevision g,
       GrDescriptorDigest = GmDescriptorDigest g, GrMethods = GmMethods g, GrPurpose = GmPurpose g,
       GrCostCap = money_of (GmCostCap g), GrState = state, NewAdmissionBlocked = (state \<noteq> ''active''),
       SendersConverged = (state = ''revoked''), GrExpiresAt = optTime (GmExpiresAt g),
       GrCreatedAt = AsTime (GmCreatedAt g), GrUpdatedAt = AsTime (GmUpdatedAt g)\<rparr>)"

record call_msg =
  KmCallId :: string
  KmTenantId :: string
  KmGrantId :: string
  KmGrantRevision :: string
  KmServerId :: string
  KmMethod :: string
  KmArgumentDigest :: string
  KmState :: string
  KmFailureCode :: "string option"
  KmResultDigest :: "string option"
  KmResult :: string
  KmCreatedAt :: timestamp
  KmUpdatedAt :: timestamp

record 'o tool_call =
  TcCallId :: string
  TcTenantId :: string
  TcGrantId :: string
  TcGrantRevision :: string
  TcServerId :: string
  TcMethod :: string
  TcArgumentDigest :: string
  TcState :: string
  TcFailureCode :: "string option"
  TcResultDigest :: "string option"
  TcResult :: "'o option"
  TcCreatedAt :: int
  TcUpdatedAt :: int

text \<open>Bytes of a result that are not an object are left out. An absent call panics.\<close>

definition call_of :: "(string \<Rightarrow> 'o option) \<Rightarrow> call_msg \<Rightarrow> 'o tool_call" where
  "call_of unmarshal t =
     \<lparr>TcCallId = KmCallId t, TcTenantId = KmTenantId t, TcGrantId = KmGrantId t, TcGrantRevision = KmGrantRevision t,
      TcServerId = KmServerId t, TcMethod = KmMethod t, TcArgumentDigest = KmArgumentDigest t,
      TcState = word (KmState t) ''CALL_STATE_'', TcFailureCode = KmFailureCode t, TcResultDigest = KmResultDigest t,
      TcResult = (if length (KmResult t) > 0 then unmarshal (KmResult t) else None),
      TcCreatedAt = AsTime (KmCreatedAt t), TcUpdatedAt = AsTime (KmUpdatedAt t)\<rparr>"

definition toCall :: "(string \<Rightarrow> 'o option) \<Rightarrow> call_msg option \<Rightarrow> 'o tool_call option" where
  "toCall unmarshal t = map_option (call_of unmarshal) t"

section \<open>Requests\<close>

datatype mcp_request =
    MListCatalog scope_msg "string option" string uint32
  | MDiscoverServer command_msg scope_msg string string string string string "tool_schema_msg list" string string "string list"
  | MDisableDescriptor command_msg scope_msg string string string
  | MReviewDescriptor command_msg scope_msg string string string "string option" string
  | MListGrants scope_msg "string option" string uint32
  | MCreateGrant command_msg scope_msg string string string string string "string list" string money timestamp
  | MGetRevocationProgress scope_msg string
  | MRevokeGrant command_msg scope_msg string string string
  | MCreateCall command_msg scope_msg string string string string string string string string string timestamp
  | MGetCall scope_msg string
  | MReconcileCall scope_msg string

section \<open>The catalog\<close>

record list_params =
  LpState :: "string option"
  LpCursor :: "string option"
  LpLimit :: "int option"

definition mcp_ListCatalog ::
  "(string \<Rightarrow> bool) \<Rightarrow> principal \<Rightarrow> list_params \<Rightarrow> (mcp_request, descriptor_msg list \<times> string, descriptor list \<times> string option) unary" where
  "mcp_ListCatalog known p q =
     (MListCatalog (scope p) (case LpState q of None \<Rightarrow> None | Some w \<Rightarrow> enum known ''CATALOG_STATE_'' w) (deref (LpCursor q))
        (case LpLimit q of None \<Rightarrow> 0 | Some n \<Rightarrow> uint32 n),
      \<lambda>resp. (map toDescriptor (fst resp), if snd resp \<noteq> [] then Some (snd resp) else None))"

record discover_tool =
  DtMethod :: string
  DtSideEffecting :: bool
  DtUnitPrice :: money
  DtIdempotent :: "bool option"
  DtQuerySupported :: "bool option"

definition discover_tool_msg :: "discover_tool \<Rightarrow> tool_schema_msg" where
  "discover_tool_msg t =
     \<lparr>TsMethod = DtMethod t, TsInputSchemaDigest = [], TsOutputSchemaDigest = [], TsSideEffecting = DtSideEffecting t,
      TsIdempotent = (case DtIdempotent t of None \<Rightarrow> False | Some b \<Rightarrow> b),
      TsQuerySupported = (case DtQuerySupported t of None \<Rightarrow> False | Some b \<Rightarrow> b), TsUnitPrice = Some (DtUnitPrice t)\<rparr>"

record discover_server =
  DsCanonicalResource :: string
  DsTransport :: string
  DsProtocolVersion :: string
  DsProvenance :: string
  DsDataClass :: string
  DsTools :: "discover_tool list"
  DsDescriptorDigest :: "string option"
  DsNetworkScope :: "string option"
  DsLicenses :: "string list option"

definition mcp_DiscoverServer ::
  "command_identity \<Rightarrow> principal \<Rightarrow> discover_server \<Rightarrow> (mcp_request, descriptor_msg, descriptor) unary" where
  "mcp_DiscoverServer cmd p r =
     (MDiscoverServer (command cmd) (scope p) (DsCanonicalResource r) (DsTransport r) (DsProtocolVersion r) (DsProvenance r)
        (DsDataClass r) (map discover_tool_msg (DsTools r)) (deref (DsDescriptorDigest r)) (deref (DsNetworkScope r))
        (case DsLicenses r of None \<Rightarrow> [] | Some ls \<Rightarrow> ls), toDescriptor)"

record review_descriptor =
  RdRevision :: string
  RdDescriptorDigest :: string
  RdDecision :: string
  RdReasonCode :: string

definition mcp_ReviewDescriptor ::
  "(string \<Rightarrow> bool) \<Rightarrow> command_identity \<Rightarrow> principal \<Rightarrow> string \<Rightarrow> review_descriptor \<Rightarrow> (mcp_request, descriptor_msg, descriptor) unary" where
  "mcp_ReviewDescriptor known cmd p serverID r =
     (if RdDecision r = ''disable''
      then (MDisableDescriptor (command cmd) (scope p) serverID (RdRevision r) (RdReasonCode r), toDescriptor)
      else (MReviewDescriptor (command cmd) (scope p) serverID (RdRevision r) (RdDescriptorDigest r)
              (enum known ''REVIEW_DECISION_'' (RdDecision r)) (RdReasonCode r), toDescriptor))"

section \<open>Grants\<close>

definition mcp_ListGrants ::
  "(string \<Rightarrow> bool) \<Rightarrow> principal \<Rightarrow> list_params \<Rightarrow> (mcp_request, grant_msg list \<times> string, grant list \<times> string option) unary" where
  "mcp_ListGrants known p q =
     (MListGrants (scope p) (case LpState q of None \<Rightarrow> None | Some w \<Rightarrow> enum known ''GRANT_STATE_'' w) (deref (LpCursor q))
        (case LpLimit q of None \<Rightarrow> 0 | Some n \<Rightarrow> uint32 n),
      \<lambda>resp. (map toGrant (fst resp), if snd resp \<noteq> [] then Some (snd resp) else None))"

record create_grant =
  CgSubjectType :: string
  CgSubjectId :: string
  CgServerId :: string
  CgDescriptorRevision :: string
  CgDescriptorDigest :: string
  CgMethods :: "string list"
  CgPurpose :: string
  CgCostCap :: money
  CgExpiresAt :: "int option"

definition mcp_CreateGrant ::
  "command_identity \<Rightarrow> principal \<Rightarrow> create_grant \<Rightarrow> (mcp_request, grant_msg, grant) unary" where
  "mcp_CreateGrant cmd p r =
     (MCreateGrant (command cmd) (scope p) (CgSubjectType r) (CgSubjectId r) (CgServerId r) (CgDescriptorRevision r)
        (CgDescriptorDigest r) (CgMethods r) (CgPurpose r) (CgCostCap r)
        (case CgExpiresAt r of None \<Rightarrow> None | Some t \<Rightarrow> timestamppb_New t), toGrant)"

record progress_resp =
  RpGrant :: grant_msg
  RpNewAdmissionBlocked :: bool
  RpSendersConverged :: bool
  RpInFlightCalls :: string
  RpUnknownCalls :: string
  RpOpenCalls :: string
  RpControlState :: string

definition owner_progress :: "progress_resp \<Rightarrow> grant" where
  "owner_progress pr = (toGrant (RpGrant pr))\<lparr>NewAdmissionBlocked := RpNewAdmissionBlocked pr, SendersConverged := RpSendersConverged pr\<rparr>"

text \<open>The one owner call behind GetGrant and GetRevocationProgress.\<close>

definition mcp_progress :: "principal \<Rightarrow> string \<Rightarrow> mcp_request" where
  "mcp_progress p grantID = MGetRevocationProgress (scope p) grantID"

declare mcp_progress_def [simp]

definition mcp_GetGrant :: "principal \<Rightarrow> string \<Rightarrow> (mcp_request, progress_resp, grant) unary" where
  "mcp_GetGrant p grantID = (mcp_progress p grantID, owner_progress)"

definition zeroIfEmpty :: "string \<Rightarrow> string" where
  "zeroIfEmpty s = (if s = [] then ''0'' else s)"

record revocation_progress =
  RvpGrant :: grant
  RvpNewAdmissionBlocked :: bool
  RvpSendersConverged :: bool
  RvpInFlightCalls :: string
  RvpUnknownCalls :: string
  RvpOpenCalls :: string
  RvpControlState :: string

definition to_progress_view :: "progress_resp \<Rightarrow> revocation_progress" where
  "to_progress_view pr =
     \<lparr>RvpGrant = owner_progress pr, RvpNewAdmissionBlocked = RpNewAdmissionBlocked pr, RvpSendersConverged = RpSendersConverged pr,
      RvpInFlightCalls = zeroIfEmpty (RpInFlightCalls pr), RvpUnknownCalls = zeroIfEmpty (RpUnknownCalls pr),
      RvpOpenCalls = zeroIfEmpty (RpOpenCalls pr),
      RvpControlState = (if RpControlState pr = [] then ''none'' else RpControlState pr)\<rparr>"

definition mcp_GetRevocationProgress :: "principal \<Rightarrow> string \<Rightarrow> (mcp_request, progress_resp, revocation_progress) unary" where
  "mcp_GetRevocationProgress p grantID = (mcp_progress p grantID, to_progress_view)"

definition mcp_RevokeGrant ::
  "command_identity \<Rightarrow> principal \<Rightarrow> string \<Rightarrow> string \<Rightarrow> string \<Rightarrow> (mcp_request, grant_msg, grant) unary" where
  "mcp_RevokeGrant cmd p grantID expectedRevision reasonCode =
     (MRevokeGrant (command cmd) (scope p) grantID expectedRevision reasonCode, toGrant)"

section \<open>Calls\<close>

definition maxArguments :: nat where "maxArguments = 65536"

definition arguments_refused :: go_error where
  "arguments_refused = ControlErr (ctl_err ''INVALID_ARGUMENT'' (''arguments must be an object of at most '' @ dec maxArguments @ '' bytes'') False)"

text \<open>
  The argument object as the generated handler decoded it, a number being the text json.Marshal
  writes for it; \<^const>\<open>JNull\<close> is the nil map.
\<close>

record create_call =
  CcGrantId :: string
  CcGrantRevision :: string
  CcMethod :: string
  CcArguments :: json
  CcOperationId :: string
  CcAttemptId :: string
  CcExecutionEpoch :: string

text \<open>Ten minutes.\<close>

definition call_deadline :: int where "call_deadline = 600 * 10 ^ 9"

definition mcp_CreateToolCall ::
  "(string \<Rightarrow> string) \<Rightarrow> (string \<Rightarrow> 'o option) \<Rightarrow> int \<Rightarrow> command_identity \<Rightarrow> principal \<Rightarrow> create_call
   \<Rightarrow> go_error + (mcp_request, call_msg option, 'o tool_call option) unary" where
  "mcp_CreateToolCall sha unmarshal now cmd p r =
     (case marshal (CcArguments r) of
        Inl e \<Rightarrow> Inl arguments_refused
      | Inr args \<Rightarrow>
          if length args > maxArguments then Inl arguments_refused
          else Inr (MCreateCall (command cmd) (scope p) (CcGrantId r) (CcGrantRevision r) (CcMethod r) ''inline''
                 (DigestBytes sha args) args (CcOperationId r) (CcAttemptId r) (CcExecutionEpoch r)
                 (timestamppb_New (Add now call_deadline)), toCall unmarshal))"

definition mcp_GetToolCall :: "(string \<Rightarrow> 'o option) \<Rightarrow> principal \<Rightarrow> string \<Rightarrow> (mcp_request, call_msg option, 'o tool_call option) unary" where
  "mcp_GetToolCall unmarshal p callID = (MGetCall (scope p) callID, toCall unmarshal)"

definition mcp_ReconcileToolCall :: "(string \<Rightarrow> 'o option) \<Rightarrow> principal \<Rightarrow> string \<Rightarrow> (mcp_request, call_msg option, 'o tool_call option) unary" where
  "mcp_ReconcileToolCall unmarshal p callID = (MReconcileCall (scope p) callID, toCall unmarshal)"

section \<open>The port\<close>

datatype mcp_call =
    McpListCatalog list_params
  | McpDiscoverServer discover_server
  | McpReviewDescriptor string review_descriptor
  | McpListGrants list_params
  | McpCreateGrant create_grant
  | McpGetGrant string
  | McpGetRevocationProgress string
  | McpRevokeGrant string string string
  | McpCreateToolCall create_call
  | McpGetToolCall string
  | McpReconcileToolCall string

fun mcp_call_request ::
  "(string \<Rightarrow> string) \<Rightarrow> (string \<Rightarrow> bool) \<Rightarrow> int \<Rightarrow> command_identity \<Rightarrow> principal \<Rightarrow> mcp_call \<Rightarrow> go_error + mcp_request" where
  "mcp_call_request sha known now cmd p (McpListCatalog q) = Inr (fst (mcp_ListCatalog known p q))"
| "mcp_call_request sha known now cmd p (McpDiscoverServer r) = Inr (fst (mcp_DiscoverServer cmd p r))"
| "mcp_call_request sha known now cmd p (McpReviewDescriptor i r) = Inr (fst (mcp_ReviewDescriptor known cmd p i r))"
| "mcp_call_request sha known now cmd p (McpListGrants q) = Inr (fst (mcp_ListGrants known p q))"
| "mcp_call_request sha known now cmd p (McpCreateGrant r) = Inr (fst (mcp_CreateGrant cmd p r))"
| "mcp_call_request sha known now cmd p (McpGetGrant i) = Inr (fst (mcp_GetGrant p i))"
| "mcp_call_request sha known now cmd p (McpGetRevocationProgress i) = Inr (fst (mcp_GetRevocationProgress p i))"
| "mcp_call_request sha known now cmd p (McpRevokeGrant i xrev reason) = Inr (fst (mcp_RevokeGrant cmd p i xrev reason))"
| "mcp_call_request sha known now cmd p (McpCreateToolCall r) =
     mapR fst (mcp_CreateToolCall sha (\<lambda>_. None :: unit option) now cmd p r)"
| "mcp_call_request sha known now cmd p (McpGetToolCall i) = Inr (fst (mcp_GetToolCall (\<lambda>_. None :: unit option) p i))"
| "mcp_call_request sha known now cmd p (McpReconcileToolCall i) = Inr (fst (mcp_ReconcileToolCall (\<lambda>_. None :: unit option) p i))"

fun mcp_mutating :: "mcp_call \<Rightarrow> bool" where
  "mcp_mutating (McpDiscoverServer r) = True"
| "mcp_mutating (McpReviewDescriptor i r) = True"
| "mcp_mutating (McpCreateGrant r) = True"
| "mcp_mutating (McpRevokeGrant i xrev reason) = True"
| "mcp_mutating (McpCreateToolCall r) = True"
| "mcp_mutating _ = False"

fun mcp_scope :: "mcp_request \<Rightarrow> scope_msg option" where
  "mcp_scope (MListCatalog s k a n) = Some s"
| "mcp_scope (MDiscoverServer c s a b d e f ts g h ls) = Some s"
| "mcp_scope (MDisableDescriptor c s a b d) = Some s"
| "mcp_scope (MReviewDescriptor c s a b d k e) = Some s"
| "mcp_scope (MListGrants s k a n) = Some s"
| "mcp_scope (MCreateGrant c s a b d e f ms g m t) = Some s"
| "mcp_scope (MGetRevocationProgress s a) = Some s"
| "mcp_scope (MRevokeGrant c s a b d) = Some s"
| "mcp_scope (MCreateCall c s a b d e f g h i j t) = Some s"
| "mcp_scope (MGetCall s a) = Some s"
| "mcp_scope (MReconcileCall s a) = Some s"

fun mcp_command :: "mcp_request \<Rightarrow> command_msg option" where
  "mcp_command (MDiscoverServer c s a b d e f ts g h ls) = Some c"
| "mcp_command (MDisableDescriptor c s a b d) = Some c"
| "mcp_command (MReviewDescriptor c s a b d k e) = Some c"
| "mcp_command (MCreateGrant c s a b d e f ms g m t) = Some c"
| "mcp_command (MRevokeGrant c s a b d) = Some c"
| "mcp_command (MCreateCall c s a b d e f g h i j t) = Some c"
| "mcp_command _ = None"

lemmas mcp_defs = mcp_ListCatalog_def mcp_DiscoverServer_def mcp_ReviewDescriptor_def mcp_ListGrants_def mcp_CreateGrant_def
  mcp_GetGrant_def mcp_GetRevocationProgress_def mcp_RevokeGrant_def mcp_GetToolCall_def mcp_ReconcileToolCall_def

lemma CreateToolCall_sends:
  "mcp_CreateToolCall sha unmarshal now cmd p r = Inr m \<longleftrightarrow>
   (\<exists>args. marshal (CcArguments r) = Inr args \<and> length args \<le> maxArguments \<and>
      m = (MCreateCall (command cmd) (scope p) (CcGrantId r) (CcGrantRevision r) (CcMethod r) ''inline'' (DigestBytes sha args) args
             (CcOperationId r) (CcAttemptId r) (CcExecutionEpoch r) (timestamppb_New (Add now call_deadline)), toCall unmarshal))"
  by (auto simp: mcp_CreateToolCall_def split: sum.splits)

interpretation mcp: owner_client "\<lambda>cmd p c q. mcp_call_request sha known now cmd p c = Inr q" mcp_scope mcp_command mcp_mutating
proof
  fix cmd p c q
  assume r: "mcp_call_request sha known now cmd p c = Inr q"
  show "mcp_scope q \<in> {Some (scope p), None}"
    using r by (cases c) (auto simp: mcp_defs CreateToolCall_sends split: if_splits)
  show "mcp_command q = (if mcp_mutating c then Some (command cmd) else None)"
    using r by (cases c) (auto simp: mcp_defs CreateToolCall_sends split: if_splits)
  show "mcp_scope q = None \<Longrightarrow> mcp_mutating c"
    using r by (cases c) (auto simp: mcp_defs CreateToolCall_sends split: if_splits)
qed

section \<open>Properties\<close>

lemma arguments_refused_400:
  "\<exists>e. arguments_refused = ControlErr e \<and> Code e = ''INVALID_ARGUMENT'' \<and> status (fromControl (ControlErr e)) = 400"
  by (simp add: arguments_refused_def ctl_err_def fromControl_def httpStatus_def)

text \<open>
  C37. A tool call binds its arguments: what is sent is the marshalled argument object, at most 64 KiB,
  with the digest of exactly these bytes, under the caller's scope and command; an object that does
  not marshal or is larger is refused with INVALID_ARGUMENT and nothing is sent.
\<close>

theorem tool_call_binds_arguments:
  "(\<exists>args t. marshal (CcArguments r) = Inr args \<and> length args \<le> 65536 \<and>
      mcp_call_request sha known now cmd p (McpCreateToolCall r) =
        Inr (MCreateCall (command cmd) (scope p) (CcGrantId r) (CcGrantRevision r) (CcMethod r) ''inline'' (''sha256:'' @ sha args) args
               (CcOperationId r) (CcAttemptId r) (CcExecutionEpoch r) t)) \<or>
   ((\<forall>args. marshal (CcArguments r) = Inr args \<longrightarrow> length args > 65536) \<and>
    (\<exists>e. mcp_call_request sha known now cmd p (McpCreateToolCall r) = Inl (ControlErr e) \<and> Code e = ''INVALID_ARGUMENT''
       \<and> status (fromControl (ControlErr e)) = 400))"
proof (cases "\<exists>args. marshal (CcArguments r) = Inr args \<and> length args \<le> maxArguments")
  case True
  then show ?thesis by (auto simp: mcp_CreateToolCall_def DigestBytes_def maxArguments_def)
next
  case False
  then have "mcp_call_request sha known now cmd p (McpCreateToolCall r) = Inl arguments_refused"
    by (auto simp: mcp_CreateToolCall_def split: sum.splits)
  with False arguments_refused_400 show ?thesis by (fastforce simp: maxArguments_def)
qed

theorem tool_call_binds_arguments_witness:
  "\<exists>q. mcp_call_request id (\<lambda>_. True) 0 \<lparr>CmdTenantID = [], CommandID = [], CmdActorID = [], RequestDigest = []\<rparr> no_principal
     (McpCreateToolCall \<lparr>CcGrantId = [], CcGrantRevision = [], CcMethod = [], CcArguments = JObj [], CcOperationId = [],
        CcAttemptId = [], CcExecutionEpoch = []\<rparr>) = Inr q"
proof -
  let ?r = "\<lparr>CcGrantId = [], CcGrantRevision = [], CcMethod = [], CcArguments = JObj [], CcOperationId = [], CcAttemptId = [], CcExecutionEpoch = []\<rparr>"
  have "marshal (CcArguments ?r) = Inr ''{}''" by (simp add: marshal_def render.simps)
  then show ?thesis
    using tool_call_binds_arguments [of ?r id "\<lambda>_. True" 0 "\<lparr>CmdTenantID = [], CommandID = [], CmdActorID = [], RequestDigest = []\<rparr>" no_principal]
    by (simp del: mcp_call_request.simps) blast
qed

text \<open>
  What a grant shows of its revocation: without a progress read admission is open exactly for an
  active grant and senders have converged only for a revoked one, never both; a grant that is read
  through its progress shows the owner's own flags, and a progress view never has an empty counter.
\<close>

theorem grant_revocation_view:
  "(NewAdmissionBlocked (toGrant g) \<longleftrightarrow> GrState (toGrant g) \<noteq> ''active'') \<and>
   (SendersConverged (toGrant g) \<longleftrightarrow> GrState (toGrant g) = ''revoked'') \<and>
   \<not> (SendersConverged (toGrant g) \<and> \<not> NewAdmissionBlocked (toGrant g)) \<and>
   NewAdmissionBlocked (snd (mcp_GetGrant p i) pr) = RpNewAdmissionBlocked pr \<and>
   SendersConverged (snd (mcp_GetGrant p i) pr) = RpSendersConverged pr \<and>
   RvpGrant (snd (mcp_GetRevocationProgress p i) pr) = snd (mcp_GetGrant p i) pr \<and>
   fst (mcp_GetRevocationProgress p i) = fst (mcp_GetGrant p i) \<and>
   [] \<notin> {RvpInFlightCalls (snd (mcp_GetRevocationProgress p i) pr), RvpUnknownCalls (snd (mcp_GetRevocationProgress p i) pr),
          RvpOpenCalls (snd (mcp_GetRevocationProgress p i) pr), RvpControlState (snd (mcp_GetRevocationProgress p i) pr)}"
  by (auto simp: toGrant_def Let_def mcp_GetGrant_def mcp_GetRevocationProgress_def owner_progress_def to_progress_view_def zeroIfEmpty_def)

end
