(* ===== verification/Recovery.thy ===== *)
theory Recovery
  imports Gateway
begin

text \<open>
  The operator's recovery routes: internal/adapters/control/recovery.go, as requests and conversions
  (Gateway.thy). A run that its owner left out is read through its pointer: the conversion panics,
  \<^const>\<open>None\<close>. The existing flag says that Control had already applied the command.
\<close>

section \<open>Go durations\<close>

text \<open>A duration is an int64 of nanoseconds; its division truncates towards zero.\<close>

definition second :: int where "second = 10 ^ 9"

definition go_div :: "int \<Rightarrow> int \<Rightarrow> int" where
  "go_div a b = (if (a < 0) = (b < 0) then \<bar>a\<bar> div \<bar>b\<bar> else - (\<bar>a\<bar> div \<bar>b\<bar>))"

text \<open>A protobuf duration, seconds and nanoseconds of one sign; durationpb.New and AsDuration, which saturates.\<close>

type_synonym duration = "(int \<times> int) option"

definition durationpb_New :: "int \<Rightarrow> duration" where
  "durationpb_New d = Some (go_div d second, d - go_div d second * second)"

definition AsDuration :: "duration \<Rightarrow> int" where
  "AsDuration x =
     (case x of
        None \<Rightarrow> 0
      | Some (s, n) \<Rightarrow> max (- (2 ^ 63)) (min (2 ^ 63 - 1) (s * second + n)))"

section \<open>Runs and findings\<close>

definition recoveryScopeKey :: "principal \<Rightarrow> bool option \<Rightarrow> string" where
  "recoveryScopeKey p allTenants = (if allTenants = Some True then ''*'' else TenantID p)"

record class_progress =
  PcClass :: string
  PcComplete :: bool
  PcSeen :: string

record run_msg =
  RnRunId :: string
  RnScopeKey :: string
  RnRecoveryEpoch :: string
  RnPhase :: string
  RnWindowStart :: timestamp
  RnWindowEnd :: timestamp
  RnClockUncertainty :: duration
  RnFencedOperations :: string
  RnUnsettledFindings :: string
  RnProgress :: "class_progress list"
  RnCreatedAt :: timestamp
  RnReopenedAt :: timestamp

record recovery_run =
  RunId :: string
  RunScopeKey :: string
  RunRecoveryEpoch :: string
  RunPhase :: string
  RunWindowStart :: int
  RunWindowEnd :: int
  RunClockUncertaintySeconds :: int
  RunFencedOperations :: string
  RunUnsettledFindings :: string
  RunProgress :: "class_progress list"
  RunCreatedAt :: int
  RunReopenedAt :: "int option"

definition run_of :: "run_msg \<Rightarrow> recovery_run" where
  "run_of r =
     \<lparr>RunId = RnRunId r, RunScopeKey = RnScopeKey r, RunRecoveryEpoch = RnRecoveryEpoch r,
      RunPhase = enumWord (RnPhase r) ''RECOVERY_PHASE_'', RunWindowStart = AsTime (RnWindowStart r),
      RunWindowEnd = AsTime (RnWindowEnd r), RunClockUncertaintySeconds = go_div (AsDuration (RnClockUncertainty r)) second,
      RunFencedOperations = RnFencedOperations r, RunUnsettledFindings = RnUnsettledFindings r, RunProgress = RnProgress r,
      RunCreatedAt = AsTime (RnCreatedAt r), RunReopenedAt = map_option (\<lambda>t. AsTime (Some t)) (RnReopenedAt r)\<rparr>"

definition toRecoveryRun :: "run_msg option \<Rightarrow> recovery_run option" where
  "toRecoveryRun r = map_option run_of r"

definition optional :: "string \<Rightarrow> string option" where
  "optional s = (if s = [] then None else Some s)"

record finding_msg =
  FnFindingId :: string
  FnRunId :: string
  FnClass :: string
  FnObligationId :: string
  FnTenantId :: string
  FnInventoryVersion :: string
  FnRecordedAt :: timestamp
  FnStatus :: string
  FnOutcome :: string
  FnEvidenceRef :: string
  FnDetail :: string
  FnLaunchKey :: string

record finding =
  FdFindingId :: string
  FdRunId :: string
  FdClass :: string
  FdObligationId :: string
  FdTenantId :: string
  FdInventoryVersion :: string
  FdRecordedAt :: int
  FdStatus :: string
  FdOutcome :: "string option"
  FdEvidenceRef :: "string option"
  FdDetail :: "string option"
  FdLaunchKey :: "string option"

definition toFinding :: "finding_msg \<Rightarrow> finding" where
  "toFinding f =
     \<lparr>FdFindingId = FnFindingId f, FdRunId = FnRunId f, FdClass = FnClass f, FdObligationId = FnObligationId f,
      FdTenantId = FnTenantId f, FdInventoryVersion = FnInventoryVersion f, FdRecordedAt = AsTime (FnRecordedAt f),
      FdStatus = enumWord (FnStatus f) ''FINDING_STATUS_'', FdOutcome = optional (FnOutcome f),
      FdEvidenceRef = optional (FnEvidenceRef f), FdDetail = optional (FnDetail f), FdLaunchKey = optional (FnLaunchKey f)\<rparr>"

section \<open>Methods\<close>

datatype recovery_request =
    RBeginRecovery command_msg scope_msg string timestamp timestamp duration string
  | RGetRecovery scope_msg string
  | RListFindings scope_msg string "string option" string int
  | RDisposeObligation command_msg scope_msg string string "string option" string string string string string

record begin_recovery =
  BrAllTenants :: "bool option"
  BrWindowStart :: int
  BrWindowEnd :: int
  BrClockUncertaintySeconds :: "int option"
  BrReason :: "string option"

definition rec_BeginRecovery ::
  "command_identity \<Rightarrow> principal \<Rightarrow> begin_recovery \<Rightarrow> (recovery_request, run_msg option \<times> bool, recovery_run option \<times> bool) unary" where
  "rec_BeginRecovery cmd p r =
     (RBeginRecovery (command cmd) (scope p) (recoveryScopeKey p (BrAllTenants r)) (timestamppb_New (BrWindowStart r))
        (timestamppb_New (BrWindowEnd r))
        (case BrClockUncertaintySeconds r of None \<Rightarrow> None | Some n \<Rightarrow> durationpb_New (wrap64 (n * second))) (deref (BrReason r)),
      \<lambda>resp. (toRecoveryRun (fst resp), snd resp))"

definition rec_GetRecovery :: "principal \<Rightarrow> string \<Rightarrow> (recovery_request, run_msg option, recovery_run option) unary" where
  "rec_GetRecovery p runID = (RGetRecovery (scope p) runID, toRecoveryRun)"

record list_findings =
  LfStatus :: "string option"
  LfCursor :: "string option"
  LfLimit :: "int option"

definition int32 :: "int \<Rightarrow> int" where
  "int32 n = sint (word_of_int n :: 32 word)"

record findings_msg =
  FpFindings :: "finding_msg list"
  FpComplete :: bool
  FpNextCursor :: string

record finding_page =
  FpgFindings :: "finding list"
  FpgComplete :: bool
  FpgNextCursor :: "string option"

definition rec_ListRecoveryFindings ::
  "(string \<Rightarrow> bool) \<Rightarrow> principal \<Rightarrow> string \<Rightarrow> list_findings \<Rightarrow> (recovery_request, findings_msg, finding_page) unary" where
  "rec_ListRecoveryFindings known p runID q =
     (RListFindings (scope p) runID (case LfStatus q of None \<Rightarrow> None | Some w \<Rightarrow> enum known ''FINDING_STATUS_'' w) (deref (LfCursor q))
        (case LfLimit q of None \<Rightarrow> 0 | Some n \<Rightarrow> int32 n),
      \<lambda>resp. \<lparr>FpgFindings = map toFinding (FpFindings resp), FpgComplete = FpComplete resp, FpgNextCursor = optional (FpNextCursor resp)\<rparr>)"

record dispose_obligation =
  DoClass :: string
  DoObligationId :: string
  DoDecision :: string
  DoEvidenceRef :: string
  DoEvidenceDigest :: string
  DoRecoveryEpoch :: string
  DoReason :: "string option"

record disposition_msg =
  DpDispositionId :: string
  DpRunId :: string
  DpClass :: string
  DpObligationId :: string
  DpDecision :: string
  DpEvidenceRef :: string
  DpEvidenceDigest :: string
  DpRecoveryEpoch :: string
  DpDecidedAt :: timestamp

record disposition =
  DispId :: string
  DispRunId :: string
  DispClass :: string
  DispObligationId :: string
  DispDecision :: string
  DispEvidenceRef :: string
  DispEvidenceDigest :: string
  DispRecoveryEpoch :: string
  DispDecidedAt :: int

definition to_disposition :: "string \<Rightarrow> disposition_msg \<Rightarrow> disposition" where
  "to_disposition runID d =
     \<lparr>DispId = DpDispositionId d, DispRunId = (if DpRunId d = [] then runID else DpRunId d), DispClass = DpClass d,
      DispObligationId = DpObligationId d, DispDecision = enumWord (DpDecision d) ''DISPOSITION_DECISION_'',
      DispEvidenceRef = DpEvidenceRef d, DispEvidenceDigest = DpEvidenceDigest d, DispRecoveryEpoch = DpRecoveryEpoch d,
      DispDecidedAt = AsTime (DpDecidedAt d)\<rparr>"

definition rec_DisposeObligation ::
  "(string \<Rightarrow> bool) \<Rightarrow> command_identity \<Rightarrow> principal \<Rightarrow> string \<Rightarrow> dispose_obligation
   \<Rightarrow> (recovery_request, disposition_msg \<times> bool, disposition \<times> bool) unary" where
  "rec_DisposeObligation known cmd p runID r =
     (RDisposeObligation (command cmd) (scope p) (DoClass r) (DoObligationId r) (enum known ''DISPOSITION_DECISION_'' (DoDecision r))
        (DoEvidenceRef r) (DoEvidenceDigest r) (DoRecoveryEpoch r) runID (deref (DoReason r)),
      \<lambda>resp. (to_disposition runID (fst resp), snd resp))"

section \<open>The port\<close>

datatype recovery_call =
    RecBeginRecovery begin_recovery
  | RecGetRecovery string
  | RecListRecoveryFindings string list_findings
  | RecDisposeObligation string dispose_obligation

fun recovery_call_request :: "(string \<Rightarrow> bool) \<Rightarrow> command_identity \<Rightarrow> principal \<Rightarrow> recovery_call \<Rightarrow> recovery_request" where
  "recovery_call_request known cmd p (RecBeginRecovery r) = fst (rec_BeginRecovery cmd p r)"
| "recovery_call_request known cmd p (RecGetRecovery i) = fst (rec_GetRecovery p i)"
| "recovery_call_request known cmd p (RecListRecoveryFindings i q) = fst (rec_ListRecoveryFindings known p i q)"
| "recovery_call_request known cmd p (RecDisposeObligation i r) = fst (rec_DisposeObligation known cmd p i r)"

fun recovery_mutating :: "recovery_call \<Rightarrow> bool" where
  "recovery_mutating (RecBeginRecovery r) = True"
| "recovery_mutating (RecDisposeObligation i r) = True"
| "recovery_mutating _ = False"

fun recovery_scope :: "recovery_request \<Rightarrow> scope_msg option" where
  "recovery_scope (RBeginRecovery c s a b d e f) = Some s"
| "recovery_scope (RGetRecovery s a) = Some s"
| "recovery_scope (RListFindings s a b d n) = Some s"
| "recovery_scope (RDisposeObligation c s a b k d e f g h) = Some s"

fun recovery_command :: "recovery_request \<Rightarrow> command_msg option" where
  "recovery_command (RBeginRecovery c s a b d e f) = Some c"
| "recovery_command (RDisposeObligation c s a b k d e f g h) = Some c"
| "recovery_command _ = None"

lemmas rec_defs = rec_BeginRecovery_def rec_GetRecovery_def rec_ListRecoveryFindings_def rec_DisposeObligation_def

interpretation recovery: total_client "recovery_call_request known" recovery_scope recovery_command recovery_mutating
proof
  fix cmd p c
  show "recovery_scope (recovery_call_request known cmd p c) \<in> {Some (scope p), None}"
    by (cases c) (simp_all add: rec_defs)
  show "recovery_command (recovery_call_request known cmd p c) = (if recovery_mutating c then Some (command cmd) else None)"
    by (cases c) (simp_all add: rec_defs)
  show "recovery_scope (recovery_call_request known cmd p c) = None \<Longrightarrow> recovery_mutating c"
    by (cases c) (simp_all add: rec_defs)
qed

section \<open>The recovered scope\<close>

lemma AsDuration_New: "- (2 ^ 63) \<le> d \<Longrightarrow> d < 2 ^ 63 \<Longrightarrow> AsDuration (durationpb_New d) = d"
  by (simp add: durationpb_New_def AsDuration_def)

lemma go_div_mult [simp]: "go_div (n * second) second = n"
proof (cases "n < 0")
  case True
  have "- (n * 10 ^ 9) div 10 ^ 9 = - n"
    using nonzero_mult_div_cancel_right [of "10 ^ 9 :: int" "- n"] by simp
  with True show ?thesis by (simp add: go_div_def second_def abs_mult mult_less_0_iff)
qed (simp add: go_div_def second_def abs_mult mult_less_0_iff)

lemma uncertainty_round_trip:
  assumes "\<bar>n\<bar> * second < 2 ^ 63"
  shows "go_div (AsDuration (durationpb_New (wrap64 (n * second)))) second = n"
proof -
  have "\<bar>n * second\<bar> < 2 ^ 63" using assms by (simp add: abs_mult second_def)
  then have "- (2 ^ 63) \<le> n * second" "n * second < 2 ^ 63" by linarith+
  then show ?thesis by (simp add: wrap64_id AsDuration_New)
qed

section \<open>Properties\<close>

text \<open>
  C40. A recovery that is begun asks for the caller's own tenant or, when the operator says so, for
  every tenant, and never for a tenant the request names; a run recorded with what the request sent
  is shown with the window and the clock uncertainty the operator asked for.
\<close>

theorem recovery_run_as_requested:
  assumes q: "fst (rec_BeginRecovery cmd p r) = RBeginRecovery c sc key ws we unc reason"
    and win: "0 \<le> BrWindowStart r" "BrWindowStart r < 2 ^ 63 * 10 ^ 9" "0 \<le> BrWindowEnd r" "BrWindowEnd r < 2 ^ 63 * 10 ^ 9"
    and u: "BrClockUncertaintySeconds r = Some n" "\<bar>n\<bar> * second < 2 ^ 63"
    and stored: "RnScopeKey m = key" "RnWindowStart m = ws" "RnWindowEnd m = we" "RnClockUncertainty m = unc"
  shows "RunScopeKey (run_of m) = (if BrAllTenants r = Some True then ''*'' else TenantID p)
    \<and> RunWindowStart (run_of m) = BrWindowStart r \<and> RunWindowEnd (run_of m) = BrWindowEnd r
    \<and> RunClockUncertaintySeconds (run_of m) = n \<and> c = command cmd \<and> sc = scope p"
proof -
  from q have k: "key = recoveryScopeKey p (BrAllTenants r)" "ws = timestamppb_New (BrWindowStart r)"
    "we = timestamppb_New (BrWindowEnd r)" "unc = durationpb_New (wrap64 (n * second))" "c = command cmd" "sc = scope p"
    using u(1) by (auto simp: rec_BeginRecovery_def)
  then show ?thesis
    using stored AsTime_New [OF win(1,2)] AsTime_New [OF win(3,4)] uncertainty_round_trip [OF u(2)]
    by (simp add: run_of_def recoveryScopeKey_def)
qed

theorem recovery_run_as_requested_witness:
  "let r = \<lparr>BrAllTenants = None, BrWindowStart = 63000000000 * 10 ^ 9, BrWindowEnd = 63000003600 * 10 ^ 9,
             BrClockUncertaintySeconds = Some 30, BrReason = None\<rparr>;
       m = \<lparr>RnRunId = ''r'', RnScopeKey = recoveryScopeKey no_principal None, RnRecoveryEpoch = ''1'', RnPhase = ''RECOVERY_PHASE_OPEN'',
             RnWindowStart = timestamppb_New (63000000000 * 10 ^ 9), RnWindowEnd = timestamppb_New (63000003600 * 10 ^ 9),
             RnClockUncertainty = durationpb_New (wrap64 (30 * second)), RnFencedOperations = [], RnUnsettledFindings = [],
             RnProgress = [], RnCreatedAt = None, RnReopenedAt = None\<rparr>
   in RunClockUncertaintySeconds (run_of m) = 30 \<and> RunWindowStart (run_of m) = BrWindowStart r"
proof -
  define r where "r = \<lparr>BrAllTenants = None, BrWindowStart = 63000000000 * 10 ^ 9, BrWindowEnd = 63000003600 * 10 ^ 9,
             BrClockUncertaintySeconds = Some 30, BrReason = None\<rparr>"
  define m where "m = \<lparr>RnRunId = ''r'', RnScopeKey = recoveryScopeKey no_principal None, RnRecoveryEpoch = ''1'', RnPhase = ''RECOVERY_PHASE_OPEN'',
             RnWindowStart = timestamppb_New (63000000000 * 10 ^ 9), RnWindowEnd = timestamppb_New (63000003600 * 10 ^ 9),
             RnClockUncertainty = durationpb_New (wrap64 (30 * second)), RnFencedOperations = [], RnUnsettledFindings = [],
             RnProgress = [], RnCreatedAt = None, RnReopenedAt = None\<rparr>"
  let ?cmd = "\<lparr>CmdTenantID = [], CommandID = [], CmdActorID = [], RequestDigest = []\<rparr>"
  have q: "fst (rec_BeginRecovery ?cmd no_principal r) = RBeginRecovery (command ?cmd) (scope no_principal) (RnScopeKey m)
      (RnWindowStart m) (RnWindowEnd m) (RnClockUncertainty m) []"
    by (simp add: rec_BeginRecovery_def r_def m_def)
  have "RunClockUncertaintySeconds (run_of m) = 30 \<and> RunWindowStart (run_of m) = BrWindowStart r"
    using recovery_run_as_requested [OF q, of 30 m] by (simp add: r_def second_def)
  then show ?thesis by (simp add: Let_def r_def m_def)
qed

end
