(* ===== verification/Releases.thy ===== *)
theory Releases
  imports Reads
begin

text \<open>
  The release projection: release.go of internal/adapters/control. A release that its owner left out,
  or one without a target, is read through a nil pointer: the conversion panics, which is \<^const>\<open>None\<close>.
\<close>

section \<open>Messages\<close>

record target_msg =
  TgState :: string
  TgReceiptId :: "string option"
  TgReceiptDigest :: "string option"
  TgDestination :: "string option"
  TgManifestDigest :: "string option"
  TgFailureCode :: "string option"

record release_approval_msg =
  RaState :: string
  RaSubjectDigest :: string
  RaApproverId :: "string option"
  RaReasonCode :: "string option"
  RaDecidedAt :: timestamp

record release_approval =
  RvaState :: string
  RvaSubjectDigest :: string
  RvaApproverId :: "string option"
  RvaReasonCode :: "string option"
  RvaDecidedAt :: "int option"

record artifact_digest =
  AdDigest :: string
  AdSizeBytes :: string

record release_subject_msg =
  RsComponentId :: string
  RsPuckType :: string
  RsSourceRevision :: string
  RsSourceDigest :: string
  RsPackageName :: string
  RsVersion :: string
  RsNpm :: "artifact_digest option"
  RsBrowser :: "artifact_digest option"
  RsCss :: "artifact_digest list"
  RsBuildProfileId :: string
  RsBuildProfileDigest :: string
  RsValidatorProfileId :: string
  RsValidatorProfileDigest :: string
  RsHostAbi :: string
  RsHostAbiDigest :: string
  RsCertificationEvidenceDigest :: string
  RsSubjectDigest :: string
  RsNpmRegistry :: string
  RsBrowserOrigin :: string

record release_subject =
  ReComponentId :: string
  RePuckType :: string
  ReSourceRevision :: string
  ReSourceDigest :: string
  RePackageName :: string
  ReVersion :: string
  ReNpm :: artifact_digest
  ReBrowser :: artifact_digest
  ReCss :: "artifact_digest list"
  ReBuildProfileId :: string
  ReBuildProfileDigest :: string
  ReValidatorProfileId :: string
  ReValidatorProfileDigest :: string
  ReHostAbi :: string
  ReHostAbiDigest :: string
  ReCertificationEvidenceDigest :: string
  ReSubjectDigest :: string
  ReNpmRegistry :: string
  ReBrowserOrigin :: string

record release_lock =
  LkComponentId :: string
  LkPuckType :: string
  LkReleaseId :: string
  LkPackageName :: string
  LkPackageVersion :: string
  LkBrowserManifestDigest :: string
  LkHostProfileId :: string

record release_msg =
  RlOperationId :: string
  RlLineage :: string
  RlSourceRevision :: string
  RlState :: string
  RlReleaseId :: "string option"
  RlNpm :: "target_msg option"
  RlBrowser :: "target_msg option"
  RlActivation :: "target_msg option"
  RlCatalogRevision :: "string option"
  RlFailureCode :: "string option"
  RlRevision :: string
  RlUpdatedAt :: timestamp
  RlApprovalDeadline :: timestamp
  RlApproval :: "release_approval_msg option"
  RlSubject :: "release_subject_msg option"

record release_view =
  RvOperationId :: string
  RvLineage :: string
  RvSourceRevision :: string
  RvState :: string
  RvReleaseId :: "string option"
  RvNpm :: target_msg
  RvBrowser :: target_msg
  RvActivation :: target_msg
  RvCatalogRevision :: "string option"
  RvFailureCode :: "string option"
  RvRevision :: string
  RvUpdatedAt :: int
  RvApprovalDeadline :: "int option"
  RvApproval :: "release_approval option"
  RvSubject :: "release_subject option"
  RvLock :: "release_lock option"

section \<open>The projection\<close>

definition toReleaseTarget :: "target_msg \<Rightarrow> target_msg" where
  "toReleaseTarget t = t\<lparr>TgState := enumWord (TgState t) ''TARGET_STATE_''\<rparr>"

definition to_release_approval :: "release_approval_msg \<Rightarrow> release_approval" where
  "to_release_approval a =
     \<lparr>RvaState = enumWord (RaState a) ''APPROVAL_STATE_'', RvaSubjectDigest = RaSubjectDigest a,
      RvaApproverId = RaApproverId a, RvaReasonCode = RaReasonCode a,
      RvaDecidedAt = map_option (\<lambda>t. AsTime (Some t)) (RaDecidedAt a)\<rparr>"

definition digest_ref :: "artifact_digest option \<Rightarrow> artifact_digest" where
  "digest_ref d = (case d of Some a \<Rightarrow> a | None \<Rightarrow> \<lparr>AdDigest = [], AdSizeBytes = []\<rparr>)"

definition to_release_subject :: "release_subject_msg \<Rightarrow> release_subject" where
  "to_release_subject s =
     \<lparr>ReComponentId = RsComponentId s, RePuckType = RsPuckType s, ReSourceRevision = RsSourceRevision s,
      ReSourceDigest = RsSourceDigest s, RePackageName = RsPackageName s, ReVersion = RsVersion s,
      ReNpm = digest_ref (RsNpm s), ReBrowser = digest_ref (RsBrowser s), ReCss = RsCss s,
      ReBuildProfileId = RsBuildProfileId s, ReBuildProfileDigest = RsBuildProfileDigest s,
      ReValidatorProfileId = RsValidatorProfileId s, ReValidatorProfileDigest = RsValidatorProfileDigest s,
      ReHostAbi = RsHostAbi s, ReHostAbiDigest = RsHostAbiDigest s,
      ReCertificationEvidenceDigest = RsCertificationEvidenceDigest s, ReSubjectDigest = RsSubjectDigest s,
      ReNpmRegistry = RsNpmRegistry s, ReBrowserOrigin = RsBrowserOrigin s\<rparr>"

text \<open>The lock entry a saved page pins. The code reads the browser target through its pointer here,
  after it has converted that target.\<close>

definition release_lock_of :: "release_msg \<Rightarrow> target_msg \<Rightarrow> release_subject_msg \<Rightarrow> release_lock option" where
  "release_lock_of r browser s =
     (if RlState r = ''RELEASE_STATE_ACTIVATED'' \<and> RlReleaseId r \<noteq> None \<and> TgManifestDigest browser \<noteq> None
      then Some \<lparr>LkComponentId = RsComponentId s, LkPuckType = RsPuckType s, LkReleaseId = deref (RlReleaseId r),
                 LkPackageName = RsPackageName s, LkPackageVersion = RsVersion s,
                 LkBrowserManifestDigest = deref (TgManifestDigest browser), LkHostProfileId = RsHostAbi s\<rparr>
      else None)"

definition toRelease :: "release_msg option \<Rightarrow> release_view option" where
  "toRelease ro =
     (case ro of
        None \<Rightarrow> None
      | Some r \<Rightarrow>
          (case (RlNpm r, RlBrowser r, RlActivation r) of
             (Some npm, Some browser, Some activation) \<Rightarrow>
               Some \<lparr>RvOperationId = RlOperationId r, RvLineage = RlLineage r, RvSourceRevision = RlSourceRevision r,
                 RvState = enumWord (RlState r) ''RELEASE_STATE_'', RvReleaseId = RlReleaseId r,
                 RvNpm = toReleaseTarget npm, RvBrowser = toReleaseTarget browser, RvActivation = toReleaseTarget activation,
                 RvCatalogRevision = RlCatalogRevision r, RvFailureCode = RlFailureCode r, RvRevision = RlRevision r,
                 RvUpdatedAt = AsTime (RlUpdatedAt r),
                 RvApprovalDeadline = map_option (\<lambda>t. AsTime (Some t)) (RlApprovalDeadline r),
                 RvApproval = map_option to_release_approval (RlApproval r),
                 RvSubject = map_option to_release_subject (RlSubject r),
                 RvLock = (case RlSubject r of None \<Rightarrow> None | Some s \<Rightarrow> release_lock_of r browser s)\<rparr>
           | _ \<Rightarrow> None))"

definition GetRelease :: "release_msg option owners \<Rightarrow> principal \<Rightarrow> string \<Rightarrow> release_view option logged" where
  "GetRelease ow p operationID =
     andThen (authorize ow p operationID) (\<lambda>_.
     andThen (rpc (CallGetRelease (TenantID p) operationID) (get_release ow (TenantID p) operationID)) (\<lambda>r. (Inr (toRelease r), [])))"

section \<open>What a release read asks and shows\<close>

lemma GetRelease_first: "authorized_first ow p op (GetRelease ow p op)"
  unfolding GetRelease_def
  by (rule authorized_firstI [OF refl], intro own_andThen) (auto simp: own_call_def)

lemma toRelease_SomeE:
  assumes "toRelease ro = Some v"
  obtains r npm browser activation where "ro = Some r" "RlNpm r = Some npm" "RlBrowser r = Some browser" "RlActivation r = Some activation"
  using assms unfolding toRelease_def by (auto split: option.splits)

lemma toRelease_lock:
  assumes "toRelease (Some r) = Some v" "RvLock v = Some k"
  shows "RvState v = ''activated'' \<and> RvReleaseId v = Some (LkReleaseId k) \<and> TgManifestDigest (RvBrowser v) = Some (LkBrowserManifestDigest k)
    \<and> (\<exists>s. RvSubject v = Some s \<and> LkComponentId k = ReComponentId s \<and> LkPuckType k = RePuckType s \<and> LkPackageName k = RePackageName s
         \<and> LkPackageVersion k = ReVersion s \<and> LkHostProfileId k = ReHostAbi s)"
proof -
  from assms(1) obtain npm browser activation where t: "RlNpm r = Some npm" "RlBrowser r = Some browser" "RlActivation r = Some activation"
    by (auto elim: toRelease_SomeE)
  with assms have k: "(case RlSubject r of None \<Rightarrow> None | Some s \<Rightarrow> release_lock_of r browser s) = Some k"
    by (auto simp: toRelease_def)
  then obtain s where s: "RlSubject r = Some s" "RlState r = ''RELEASE_STATE_ACTIVATED''" "RlReleaseId r \<noteq> None" "TgManifestDigest browser \<noteq> None"
    by (auto simp: release_lock_of_def split: option.splits if_splits)
  have "enumWord ''RELEASE_STATE_ACTIVATED'' ''RELEASE_STATE_'' = ''activated''" by code_simp
  with assms(1) t k s show ?thesis
    by (auto simp: toRelease_def release_lock_of_def to_release_subject_def toReleaseTarget_def deref_def)
qed

section \<open>Properties\<close>

text \<open>
  C26. The preview, artifact, source and release reads ask Control for the operation under the
  caller's full scope before anything else, name only the caller's tenant and that operation
  afterwards, and when that first call is refused they ask nothing more and answer its error.
\<close>

theorem reads_authorize_first:
  "authorized_first ow p op (GetPreview ow p op) \<and> authorized_first ow p op (ReadPreviewArtifact sha ow p op d) \<and>
   authorized_first ow p op (ReadSource sha ow p op) \<and> authorized_first rw p op (GetRelease rw p op)"
  by (intro conjI GetPreview_first ReadPreviewArtifact_first ReadSource_first GetRelease_first)

text \<open>
  A release names a lock entry exactly when it is activated and has a subject, a release id and
  the browser target's manifest digest, and the entry pins that release id, that manifest and the
  subject's component, package, version and host ABI.
\<close>

theorem release_lock_pins_release:
  assumes "toRelease (Some r) = Some v"
  shows "(RvLock v \<noteq> None \<longleftrightarrow> RlState r = ''RELEASE_STATE_ACTIVATED'' \<and> RvReleaseId v \<noteq> None \<and> RvSubject v \<noteq> None
           \<and> TgManifestDigest (RvBrowser v) \<noteq> None) \<and>
    (\<forall>k\<in>set_option (RvLock v). RvState v = ''activated'' \<and> RvReleaseId v = Some (LkReleaseId k)
      \<and> TgManifestDigest (RvBrowser v) = Some (LkBrowserManifestDigest k)
      \<and> (\<exists>s. RvSubject v = Some s \<and> LkComponentId k = ReComponentId s \<and> LkPuckType k = RePuckType s
           \<and> LkPackageName k = RePackageName s \<and> LkPackageVersion k = ReVersion s \<and> LkHostProfileId k = ReHostAbi s))"
proof
  from assms obtain npm browser activation where t: "RlNpm r = Some npm" "RlBrowser r = Some browser" "RlActivation r = Some activation"
    by (auto elim: toRelease_SomeE)
  with assms show "RvLock v \<noteq> None \<longleftrightarrow> RlState r = ''RELEASE_STATE_ACTIVATED'' \<and> RvReleaseId v \<noteq> None \<and> RvSubject v \<noteq> None
           \<and> TgManifestDigest (RvBrowser v) \<noteq> None"
    by (cases "RlSubject r") (auto simp: toRelease_def release_lock_of_def toReleaseTarget_def split: if_splits)
next
  show "\<forall>k\<in>set_option (RvLock v). RvState v = ''activated'' \<and> RvReleaseId v = Some (LkReleaseId k)
      \<and> TgManifestDigest (RvBrowser v) = Some (LkBrowserManifestDigest k)
      \<and> (\<exists>s. RvSubject v = Some s \<and> LkComponentId k = ReComponentId s \<and> LkPuckType k = RePuckType s
           \<and> LkPackageName k = RePackageName s \<and> LkPackageVersion k = ReVersion s \<and> LkHostProfileId k = ReHostAbi s)"
    using toRelease_lock [OF assms] by (metis (no_types, lifting) elem_set)
qed

definition demo_release :: release_msg where
  "demo_release =
     (let tg = \<lparr>TgState = ''TARGET_STATE_VERIFIED'', TgReceiptId = None, TgReceiptDigest = None, TgDestination = None,
                TgManifestDigest = Some ''m'', TgFailureCode = None\<rparr>;
          sb = \<lparr>RsComponentId = ''c'', RsPuckType = ''P'', RsSourceRevision = [], RsSourceDigest = [], RsPackageName = ''n'',
                RsVersion = ''1.0.0'', RsNpm = None, RsBrowser = None, RsCss = [], RsBuildProfileId = [], RsBuildProfileDigest = [],
                RsValidatorProfileId = [], RsValidatorProfileDigest = [], RsHostAbi = ''abi'', RsHostAbiDigest = [],
                RsCertificationEvidenceDigest = [], RsSubjectDigest = [], RsNpmRegistry = [], RsBrowserOrigin = []\<rparr>
      in \<lparr>RlOperationId = ''o'', RlLineage = [], RlSourceRevision = [], RlState = ''RELEASE_STATE_ACTIVATED'', RlReleaseId = Some ''r'',
          RlNpm = Some tg, RlBrowser = Some tg, RlActivation = Some tg, RlCatalogRevision = None, RlFailureCode = None,
          RlRevision = [], RlUpdatedAt = None, RlApprovalDeadline = None, RlApproval = None, RlSubject = Some sb\<rparr>)"

theorem release_lock_pins_release_witness:
  "\<exists>v. toRelease (Some demo_release) = Some v \<and> RvLock v \<noteq> None"
proof -
  have "toRelease (Some demo_release) \<noteq> None" by (simp add: toRelease_def demo_release_def Let_def)
  then obtain v where v: "toRelease (Some demo_release) = Some v" by auto
  then have "RvReleaseId v \<noteq> None" "RvSubject v \<noteq> None" "TgManifestDigest (RvBrowser v) \<noteq> None"
    by (auto simp: toRelease_def demo_release_def Let_def toReleaseTarget_def)
  with v release_lock_pins_release [OF v] show ?thesis by (auto simp: demo_release_def Let_def)
qed

end
