(* ===== verification/Handlers.thy ===== *)
theory Handlers
  imports Http Knowledge Mcp Recovery Releases
begin

text \<open>
  The strict handlers of internal/transport/http/handlers.go and the gateways they use. A handler is
  the call it makes on a port, with the identities it passes, and the response it makes of the
  port's value; an error of the port is the handler's error. The request objects are generated from
  the public contract: \<open>api_request\<close> has one constructor per operation with the members a handler
  reads.
\<close>

section \<open>Identity\<close>

definition identity :: "gin \<Rightarrow> string \<Rightarrow> command_identity \<times> principal" where
  "identity c commandID =
     (let p = principal_of c in
      (\<lparr>CmdTenantID = TenantID p, CommandID = commandID, CmdActorID = ActorID p, RequestDigest = deref (k_digest c)\<rparr>, p))"

record strict_handlers =
  transferWindow :: int
  preparationProfile :: string

section \<open>Public projections\<close>

record public_subject =
  PuProfileId :: string
  PuSubjectDigest :: string
  PuBriefId :: "string option"
  PuSourceRevision :: "string option"
  PuSourceHandle :: "string option"
  PuSourceOperationId :: "string option"
  PuPackageVersion :: "string option"

record public_progress =
  PuStep :: string
  PuVisit :: string
  PuAttemptOrdinal :: string
  PuNode :: "string option"
  PuNodeState :: "string option"
  PuRound :: "string option"
  PuEventSeq :: string

record public_operation =
  PoOperationId :: string
  PoTenantId :: string
  PoProjectId :: "string option"
  PoActorId :: string
  PoKind :: string
  PoSubject :: public_subject
  PoLifecycle :: string
  PoPhase :: string
  PoControl :: string
  PoCleanup :: string
  PoFinance :: string
  PoRevision :: string
  PoCoveredEventSeq :: string
  PoExecutionEpoch :: string
  PoCreatedAt :: int
  PoUpdatedAt :: int
  PoDeadline :: int
  PoFailureCode :: "string option"
  PoActiveDeadline :: "int option"
  PoProgress :: "public_progress option"
  PoClarification :: "clarification option"

definition subject_to_public :: "operation_subject \<Rightarrow> public_subject" where
  "subject_to_public s =
     \<lparr>PuProfileId = SubProfileID s, PuSubjectDigest = SubSubjectDigest s, PuBriefId = optStr (SubBriefID s),
      PuSourceRevision = optStr (SubSourceRevision s), PuSourceHandle = optStr (SubSourceHandle s),
      PuSourceOperationId = optStr (SubSourceOperationID s), PuPackageVersion = optStr (SubPackageVersion s)\<rparr>"

definition progress_to_public :: "operation_progress \<Rightarrow> public_progress" where
  "progress_to_public pr =
     \<lparr>PuStep = PrStep pr, PuVisit = PrVisit pr, PuAttemptOrdinal = PrAttemptOrdinal pr,
      PuNode = (if PrNode pr \<noteq> [] then Some (PrNode pr) else None),
      PuNodeState = (if PrNodeState pr \<noteq> [] then Some (PrNodeState pr) else None),
      PuRound = (if PrRound pr \<noteq> [] then Some (PrRound pr) else None), PuEventSeq = PrEventSeq pr\<rparr>"

text \<open>The public clarification has the members of the internal one; times are read in UTC.\<close>

definition viewToPublic :: "operation_view \<Rightarrow> public_operation" where
  "viewToPublic v =
     \<lparr>PoOperationId = OvOperationID v, PoTenantId = OvTenantID v, PoProjectId = optStr (OvProjectID v), PoActorId = OvActorID v,
      PoKind = OvKind v, PoSubject = subject_to_public (OvSubject v), PoLifecycle = OvLifecycle v, PoPhase = OvPhase v,
      PoControl = OvControl v, PoCleanup = OvCleanup v, PoFinance = OvFinance v, PoRevision = OvRevision v,
      PoCoveredEventSeq = OvCoveredEventSeq v, PoExecutionEpoch = OvExecutionEpoch v, PoCreatedAt = OvCreatedAt v,
      PoUpdatedAt = OvUpdatedAt v, PoDeadline = OvDeadline v, PoFailureCode = optStr (OvFailureCode v),
      PoActiveDeadline = OvActiveDeadline v, PoProgress = map_option progress_to_public (OvProgress v),
      PoClarification = OvClarification v\<rparr>"

record public_receipt =
  PcCommandId :: string
  PcOperationId :: string
  PcKind :: string
  PcOutcome :: string
  PcOperationRevision :: string
  PcReasonCode :: "string option"
  PcAcceptedAt :: int
  PcSettledAt :: "int option"

definition receiptToPublic :: "command_receipt \<Rightarrow> public_receipt" where
  "receiptToPublic r =
     \<lparr>PcCommandId = CrCommandID r, PcOperationId = CrOperationID r, PcKind = CrKind r, PcOutcome = CrOutcome r,
      PcOperationRevision = CrOperationRevision r, PcReasonCode = optStr (CrReasonCode r), PcAcceptedAt = CrAcceptedAt r,
      PcSettledAt = CrSettledAt r\<rparr>"

record public_transfer =
  PtTransferId :: string
  PtHandle :: string
  PtClass :: string
  PtExpectedDigest :: string
  PtExpectedSize :: string
  PtState :: string
  PtDeadline :: int
  PtObjectVersion :: "string option"
  PtReasonCode :: "string option"
  PtUploadCapability :: "string option"
  PtUploadMethod :: "string option"
  PtUploadHeaders :: "(string \<times> string) list option"
  PtUploadExpiresAt :: "int option"

definition transferToPublic :: "transfer_view \<Rightarrow> public_transfer" where
  "transferToPublic v =
     \<lparr>PtTransferId = TvTransferID v, PtHandle = TvHandle v, PtClass = TvClass v, PtExpectedDigest = TvExpectedDigest v,
      PtExpectedSize = TvExpectedSize v, PtState = TvState v, PtDeadline = TvDeadline v,
      PtObjectVersion = optStr (TvObjectVersion v), PtReasonCode = optStr (TvReasonCode v),
      PtUploadCapability = (case TvUpload v of None \<Rightarrow> None | Some u \<Rightarrow> optStr (UcURL u)),
      PtUploadMethod = map_option UcMethod (TvUpload v), PtUploadHeaders = map_option UcHeaders (TvUpload v),
      PtUploadExpiresAt = map_option UcExpiresAt (TvUpload v)\<rparr>"

definition limitOf :: "int option \<Rightarrow> int" where
  "limitOf l = (case l of None \<Rightarrow> 0 | Some n \<Rightarrow> n)"

section \<open>Ports and responses\<close>

datatype read_call =
    RdRelease string
  | RdPreview string
  | RdPreviewArtifact string string
  | RdSource string

datatype port_call =
    PControl control_call
  | PRead read_call
  | PKnowledge knowledge_call
  | PMcp mcp_call
  | PRecovery recovery_call

text \<open>The command identity, for a mutating call, and the principal a port is called with.\<close>

type_synonym port_args = "command_identity option \<times> principal \<times> port_call"

record 'b response =
  rs_status :: nat
  rs_headers :: "(string \<times> string) list"
  rs_body :: 'b

type_synonym ('v, 'b) handler = "port_args \<times> ('v \<Rightarrow> 'b response)"

definition reply :: "nat \<Rightarrow> 'b \<Rightarrow> 'b response" where
  "reply st b = \<lparr>rs_status = st, rs_headers = [], rs_body = b\<rparr>"

text \<open>A handler run on its port: the error is returned as it is.\<close>

definition serve :: "(port_args \<Rightarrow> go_error + 'v) \<Rightarrow> ('v, 'b) handler \<Rightarrow> go_error + 'b response" where
  "serve port h = (case port (fst h) of Inl e \<Rightarrow> Inl e | Inr v \<Rightarrow> Inr (snd h v))"

definition mutate :: "gin \<Rightarrow> string \<Rightarrow> port_call \<Rightarrow> port_args" where
  "mutate c commandId k = (case identity c commandId of (cmd, p) \<Rightarrow> (Some cmd, p, k))"

definition look :: "gin \<Rightarrow> port_call \<Rightarrow> port_args" where
  "look c k = (None, principal_of c, k)"

section \<open>Operations, preparations and transfers\<close>

definition h_CreateOperation :: "gin \<Rightarrow> string \<Rightarrow> string \<Rightarrow> public_subject \<Rightarrow> (operation_view, public_operation) handler" where
  "h_CreateOperation c commandId kind s =
     (mutate c commandId (PControl (CtlCreateOperation kind
        \<lparr>SubProfileID = PuProfileId s, SubSubjectDigest = PuSubjectDigest s, SubBriefID = deref (PuBriefId s),
         SubSourceRevision = deref (PuSourceRevision s), SubSourceHandle = deref (PuSourceHandle s),
         SubSourceOperationID = deref (PuSourceOperationId s), SubPackageVersion = deref (PuPackageVersion s)\<rparr>)),
      \<lambda>view. reply 202 (viewToPublic view))"

definition h_GetOperation :: "gin \<Rightarrow> string \<Rightarrow> (operation_view, public_operation) handler" where
  "h_GetOperation c operationId = (look c (PControl (CtlGetOperation operationId)), \<lambda>view. reply 200 (viewToPublic view))"

definition h_SubmitCommand ::
  "gin \<Rightarrow> string \<Rightarrow> string \<Rightarrow> string \<Rightarrow> string \<Rightarrow> string option \<Rightarrow> (command_receipt, public_receipt) handler" where
  "h_SubmitCommand c operationId commandId kind expectedRevision target =
     (mutate c commandId (PControl (CtlSubmitCommand operationId kind expectedRevision (deref target))),
      \<lambda>r. reply 202 (receiptToPublic r))"

definition h_GetCommand :: "gin \<Rightarrow> string \<Rightarrow> string \<Rightarrow> (command_receipt, public_receipt) handler" where
  "h_GetCommand c operationId commandId = (look c (PControl (CtlGetCommand operationId commandId)), \<lambda>r. reply 200 (receiptToPublic r))"

record preparation_body =
  PbCommandId :: string
  PbPromptTransferId :: string
  PbPromptDigest :: string
  PbBrandReferences :: "(string \<times> string) list option"
  PbAssetReferences :: "(string \<times> string) list option"

definition intake_of :: "preparation_body \<Rightarrow> preparation_intake" where
  "intake_of b =
     \<lparr>PromptTransferID = PbPromptTransferId b, PromptDigest = PbPromptDigest b,
      BrandReferences = (case PbBrandReferences b of None \<Rightarrow> [] | Some rs \<Rightarrow> rs),
      AssetReferences = (case PbAssetReferences b of None \<Rightarrow> [] | Some rs \<Rightarrow> rs)\<rparr>"

text \<open>
  The value the subject digest is taken of. The generated structs marshal their members in
  alphabetical order; a nil pointer to a list marshals to null.
\<close>

definition reference_json :: "string \<times> string \<Rightarrow> json" where
  "reference_json r = JObj [(''revision'', JStr (snd r)), (''sourceId'', JStr (fst r))]"

definition references_json :: "(string \<times> string) list option \<Rightarrow> json" where
  "references_json rs = (case rs of None \<Rightarrow> JNull | Some l \<Rightarrow> JArr (map reference_json l))"

definition subject_json :: "preparation_body \<Rightarrow> json" where
  "subject_json b =
     JObj [(''prompt'', JObj [(''digest'', JStr (PbPromptDigest b)), (''transferId'', JStr (PbPromptTransferId b))]),
           (''brandReferences'', references_json (PbBrandReferences b)),
           (''assetReferences'', references_json (PbAssetReferences b))]"

definition h_CreatePreparation ::
  "strict_handlers \<Rightarrow> (string \<Rightarrow> string) \<Rightarrow> gin \<Rightarrow> preparation_body \<Rightarrow> go_error + (operation_view, public_operation) handler" where
  "h_CreatePreparation h sha c b =
     (case CanonicalDigest sha (subject_json b) of
        Inl m \<Rightarrow> Inl (OtherErr m)
      | Inr subject \<Rightarrow>
          Inr (mutate c (PbCommandId b) (PControl (CtlCreatePreparation (preparationProfile h) subject (intake_of b))),
               \<lambda>view. reply 202 (viewToPublic view)))"

definition h_SubmitAnswer ::
  "gin \<Rightarrow> string \<Rightarrow> string \<Rightarrow> string \<Rightarrow> string \<Rightarrow> string \<Rightarrow> string \<Rightarrow> (answer_receipt, answer_receipt) handler" where
  "h_SubmitAnswer c operationId commandId questionSetId questionSetRevision transferId digest =
     (mutate c commandId (PControl (CtlSubmitAnswer operationId questionSetId questionSetRevision transferId digest)),
      \<lambda>r. reply 202 r)"

definition h_BeginTransfer ::
  "strict_handlers \<Rightarrow> int \<Rightarrow> gin \<Rightarrow> string \<Rightarrow> string \<Rightarrow> string \<Rightarrow> string \<Rightarrow> string \<Rightarrow> string option \<Rightarrow> string option
   \<Rightarrow> (transfer_view, public_transfer) handler" where
  "h_BeginTransfer h now c commandId class mediaType expectedDigest expectedSize operationId attemptId =
     (mutate c commandId (PControl (CtlBeginTransfer
        \<lparr>TiClass = class, TiMediaType = mediaType, TiExpectedDigest = expectedDigest, TiExpectedSize = expectedSize,
         TiOperationID = deref operationId, TiAttemptID = deref attemptId, TiDeadline = Add now (transferWindow h)\<rparr>)),
      \<lambda>view. reply 201 (transferToPublic view))"

definition h_FinalizeTransfer :: "gin \<Rightarrow> string \<Rightarrow> string \<Rightarrow> string \<Rightarrow> (transfer_view, public_transfer) handler" where
  "h_FinalizeTransfer c handle commandId objectVersion =
     (mutate c commandId (PControl (CtlFinalizeTransfer handle objectVersion)), \<lambda>view. reply 200 (transferToPublic view))"

section \<open>Releases, previews, sources\<close>

definition h_GetRelease :: "gin \<Rightarrow> string \<Rightarrow> ('v, 'v) handler" where
  "h_GetRelease c operationId = (look c (PRead (RdRelease operationId)), \<lambda>v. reply 200 v)"

definition h_GetPreview :: "gin \<Rightarrow> string \<Rightarrow> ('v, 'v) handler" where
  "h_GetPreview c operationId = (look c (PRead (RdPreview operationId)), \<lambda>v. reply 200 v)"

text \<open>
  The body of a read of bytes is its content type and the bytes; the headers a generated response
  writes itself carry the names of their members.
\<close>

definition h_ReadPreviewArtifact :: "gin \<Rightarrow> string \<Rightarrow> string \<Rightarrow> (string \<times> string, string \<times> string) handler" where
  "h_ReadPreviewArtifact c operationId digest =
     (look c (PRead (RdPreviewArtifact operationId digest)),
      \<lambda>b. \<lparr>rs_status = 200, rs_headers = [(''Cache-Control'', ''no-store''), (''X-Content-Type-Options'', ''nosniff'')],
           rs_body = (if fst b = ''text/css'' then ''text/css'' else ''text/javascript'', snd b)\<rparr>)"

definition h_ReadSource :: "gin \<Rightarrow> string \<Rightarrow> (source_bytes, string \<times> string) handler" where
  "h_ReadSource c operationId =
     (look c (PRead (RdSource operationId)),
      \<lambda>src. \<lparr>rs_status = 200,
             rs_headers = [(''Cache-Control'', ''no-store''), (''AnvilKitSourceLineage'', SbLineage src), (''AnvilKitSourceDigest'', SbDigest src)]
               @ (case optStr (SbRevision src) of None \<Rightarrow> [] | Some r \<Rightarrow> [(''AnvilKitSourceRevision'', r)]),
             rs_body = (''application/x-tar'', SbBody src)\<rparr>)"

section \<open>The subject of a preparation\<close>

text \<open>
  An absent reference list and an empty one are the same intake, but null and an empty array in the
  value the subject digest is taken of: the two bodies are two subjects.
\<close>

definition two_ways :: "(string \<times> string) list option \<Rightarrow> preparation_body" where
  "two_ways refs = \<lparr>PbCommandId = ''c'', PbPromptTransferId = ''t'', PbPromptDigest = ''d'', PbBrandReferences = refs,
     PbAssetReferences = None\<rparr>"

lemma same_intake_two_subjects:
  "intake_of (two_ways None) = intake_of (two_ways (Some []))
   \<and> CanonicalDigest id (subject_json (two_ways None)) \<noteq> CanonicalDigest id (subject_json (two_ways (Some [])))"
proof
  show "CanonicalDigest id (subject_json (two_ways None)) \<noteq> CanonicalDigest id (subject_json (two_ways (Some [])))"
    by code_simp
qed (simp add: intake_of_def two_ways_def)

end
