(* ===== verification/Api.thy ===== *)
theory Api
  imports Handlers
begin

text \<open>
  The remaining handlers of internal/transport/http/handlers.go (knowledge, MCP, recovery), all
  handlers as one function of the request, the gateways without a placement, and the messages that
  reach the owners on a request's behalf.
\<close>

section \<open>Knowledge\<close>

definition h_ListSources :: "gin \<Rightarrow> string option \<Rightarrow> int option \<Rightarrow> ('v, 'v) handler" where
  "h_ListSources c cursor n = (look c (PKnowledge (KnListSources (deref cursor) (limitOf n))), \<lambda>v. reply 200 v)"

definition h_RegisterSource :: "gin \<Rightarrow> string \<Rightarrow> register_source \<Rightarrow> ('v, 'v) handler" where
  "h_RegisterSource c commandId r = (mutate c commandId (PKnowledge (KnRegisterSource r)), \<lambda>v. reply 202 v)"

definition h_GetSource :: "gin \<Rightarrow> string \<Rightarrow> ('v, 'v) handler" where
  "h_GetSource c sourceId = (look c (PKnowledge (KnGetSource sourceId)), \<lambda>v. reply 200 v)"

definition h_DeleteSource :: "gin \<Rightarrow> string \<Rightarrow> string \<Rightarrow> string \<Rightarrow> ('v, 'v) handler" where
  "h_DeleteSource c sourceId commandId expectedRevision =
     (mutate c commandId (PKnowledge (KnDeleteSource sourceId expectedRevision)), \<lambda>v. reply 200 v)"

definition h_ReplaceSourceAccess :: "gin \<Rightarrow> string \<Rightarrow> string \<Rightarrow> string \<Rightarrow> access_entry list \<Rightarrow> ('v, 'v) handler" where
  "h_ReplaceSourceAccess c sourceId commandId expectedAclRevision access =
     (mutate c commandId (PKnowledge (KnReplaceSourceAccess sourceId expectedAclRevision access)), \<lambda>v. reply 200 v)"

definition h_Search :: "gin \<Rightarrow> search_request \<Rightarrow> ('v, 'v) handler" where
  "h_Search c r = (look c (PKnowledge (KnSearch r)), \<lambda>v. reply 200 v)"

definition h_BeginSourceUpload :: "gin \<Rightarrow> string \<Rightarrow> begin_upload \<Rightarrow> ('v, 'v) handler" where
  "h_BeginSourceUpload c commandId r = (mutate c commandId (PKnowledge (KnBeginSourceUpload r)), \<lambda>v. reply 201 v)"

definition h_CreateSnapshot :: "gin \<Rightarrow> string \<Rightarrow> string list \<Rightarrow> ('v, 'v) handler" where
  "h_CreateSnapshot c commandId ids = (mutate c commandId (PKnowledge (KnCreateSnapshot ids)), \<lambda>v. reply 201 v)"

definition h_GetSnapshot :: "gin \<Rightarrow> string \<Rightarrow> ('v, 'v) handler" where
  "h_GetSnapshot c snapshotId = (look c (PKnowledge (KnGetSnapshot snapshotId)), \<lambda>v. reply 200 v)"

definition h_RecallMemories :: "gin \<Rightarrow> recall_memories \<Rightarrow> ('v, 'v) handler" where
  "h_RecallMemories c r = (look c (PKnowledge (KnRecallMemories r)), \<lambda>v. reply 200 v)"

definition h_ListMemories :: "gin \<Rightarrow> list_memories \<Rightarrow> ('v, 'v) handler" where
  "h_ListMemories c q = (look c (PKnowledge (KnListMemories q)), \<lambda>v. reply 200 v)"

definition h_ProposeMemory :: "gin \<Rightarrow> string \<Rightarrow> propose_memory \<Rightarrow> ('v, 'v) handler" where
  "h_ProposeMemory c commandId r = (mutate c commandId (PKnowledge (KnProposeMemory r)), \<lambda>v. reply 201 v)"

definition h_DecideMemory :: "gin \<Rightarrow> string \<Rightarrow> string \<Rightarrow> memory_decision \<Rightarrow> ('v, 'v) handler" where
  "h_DecideMemory c factId commandId r = (mutate c commandId (PKnowledge (KnDecideMemory factId r)), \<lambda>v. reply 200 v)"

section \<open>MCP\<close>

definition h_ListCatalog :: "gin \<Rightarrow> list_params \<Rightarrow> ('v, 'v) handler" where
  "h_ListCatalog c q = (look c (PMcp (McpListCatalog q)), \<lambda>v. reply 200 v)"

definition h_DiscoverServer :: "gin \<Rightarrow> string \<Rightarrow> discover_server \<Rightarrow> ('v, 'v) handler" where
  "h_DiscoverServer c commandId r = (mutate c commandId (PMcp (McpDiscoverServer r)), \<lambda>v. reply 201 v)"

definition h_ReviewDescriptor :: "gin \<Rightarrow> string \<Rightarrow> string \<Rightarrow> review_descriptor \<Rightarrow> ('v, 'v) handler" where
  "h_ReviewDescriptor c serverId commandId r = (mutate c commandId (PMcp (McpReviewDescriptor serverId r)), \<lambda>v. reply 200 v)"

definition h_ListGrants :: "gin \<Rightarrow> list_params \<Rightarrow> ('v, 'v) handler" where
  "h_ListGrants c q = (look c (PMcp (McpListGrants q)), \<lambda>v. reply 200 v)"

definition h_CreateGrant :: "gin \<Rightarrow> string \<Rightarrow> create_grant \<Rightarrow> ('v, 'v) handler" where
  "h_CreateGrant c commandId r = (mutate c commandId (PMcp (McpCreateGrant r)), \<lambda>v. reply 201 v)"

definition h_GetGrant :: "gin \<Rightarrow> string \<Rightarrow> ('v, 'v) handler" where
  "h_GetGrant c grantId = (look c (PMcp (McpGetGrant grantId)), \<lambda>v. reply 200 v)"

definition h_GetRevocationProgress :: "gin \<Rightarrow> string \<Rightarrow> ('v, 'v) handler" where
  "h_GetRevocationProgress c grantId = (look c (PMcp (McpGetRevocationProgress grantId)), \<lambda>v. reply 200 v)"

definition h_RevokeGrant :: "gin \<Rightarrow> string \<Rightarrow> string \<Rightarrow> string \<Rightarrow> string \<Rightarrow> ('v, 'v) handler" where
  "h_RevokeGrant c grantId commandId expectedRevision reasonCode =
     (mutate c commandId (PMcp (McpRevokeGrant grantId expectedRevision reasonCode)), \<lambda>v. reply 202 v)"

definition h_CreateToolCall :: "gin \<Rightarrow> string \<Rightarrow> create_call \<Rightarrow> ('v, 'v) handler" where
  "h_CreateToolCall c commandId r = (mutate c commandId (PMcp (McpCreateToolCall r)), \<lambda>v. reply 202 v)"

definition h_GetToolCall :: "gin \<Rightarrow> string \<Rightarrow> ('v, 'v) handler" where
  "h_GetToolCall c callId = (look c (PMcp (McpGetToolCall callId)), \<lambda>v. reply 200 v)"

definition h_ReconcileToolCall :: "gin \<Rightarrow> string \<Rightarrow> ('v, 'v) handler" where
  "h_ReconcileToolCall c callId = (look c (PMcp (McpReconcileToolCall callId)), \<lambda>v. reply 200 v)"

section \<open>Recovery\<close>

definition created :: "'v \<times> bool \<Rightarrow> 'v response" where
  "created r = (if snd r then reply 200 (fst r) else reply 201 (fst r))"

definition h_BeginRecovery :: "gin \<Rightarrow> string \<Rightarrow> begin_recovery \<Rightarrow> ('v \<times> bool, 'v) handler" where
  "h_BeginRecovery c commandId r = (mutate c commandId (PRecovery (RecBeginRecovery r)), created)"

definition h_GetRecovery :: "gin \<Rightarrow> string \<Rightarrow> ('v, 'v) handler" where
  "h_GetRecovery c runId = (look c (PRecovery (RecGetRecovery runId)), \<lambda>v. reply 200 v)"

definition h_ListRecoveryFindings :: "gin \<Rightarrow> string \<Rightarrow> list_findings \<Rightarrow> ('v, 'v) handler" where
  "h_ListRecoveryFindings c runId q = (look c (PRecovery (RecListRecoveryFindings runId q)), \<lambda>v. reply 200 v)"

definition h_DisposeObligation :: "gin \<Rightarrow> string \<Rightarrow> string \<Rightarrow> dispose_obligation \<Rightarrow> ('v \<times> bool, 'v) handler" where
  "h_DisposeObligation c runId commandId r = (mutate c commandId (PRecovery (RecDisposeObligation runId r)), created)"

section \<open>All operations\<close>

datatype api_request =
    CreateOperationReq string string public_subject
  | GetOperationReq string
  | SubmitCommandReq string string string string "string option"
  | GetCommandReq string string
  | CreatePreparationReq preparation_body
  | SubmitAnswerReq string string string string string string
  | BeginTransferReq string string string string string "string option" "string option"
  | FinalizeTransferReq string string string
  | GetReleaseReq string
  | GetPreviewReq string
  | ReadPreviewArtifactReq string string
  | ReadSourceReq string
  | ListSourcesReq "string option" "int option"
  | RegisterSourceReq string register_source
  | GetSourceReq string
  | DeleteSourceReq string string string
  | ReplaceSourceAccessReq string string string "access_entry list"
  | SearchReq search_request
  | BeginSourceUploadReq string begin_upload
  | CreateSnapshotReq string "string list"
  | GetSnapshotReq string
  | RecallMemoriesReq recall_memories
  | ListMemoriesReq list_memories
  | ProposeMemoryReq string propose_memory
  | DecideMemoryReq string string memory_decision
  | ListCatalogReq list_params
  | DiscoverServerReq string discover_server
  | ReviewDescriptorReq string string review_descriptor
  | ListGrantsReq list_params
  | CreateGrantReq string create_grant
  | GetGrantReq string
  | GetRevocationProgressReq string
  | RevokeGrantReq string string string string
  | CreateToolCallReq string create_call
  | GetToolCallReq string
  | ReconcileToolCallReq string
  | BeginRecoveryReq string begin_recovery
  | GetRecoveryReq string
  | ListRecoveryFindingsReq string list_findings
  | DisposeObligationReq string string dispose_obligation

text \<open>The port call of a request's handler, or the error it returns before it makes one.\<close>

fun handle :: "strict_handlers \<Rightarrow> (string \<Rightarrow> string) \<Rightarrow> int \<Rightarrow> gin \<Rightarrow> api_request \<Rightarrow> go_error + port_args" where
  "handle h sha now c (CreateOperationReq cid kind s) = Inr (fst (h_CreateOperation c cid kind s))"
| "handle h sha now c (GetOperationReq i) = Inr (fst (h_GetOperation c i))"
| "handle h sha now c (SubmitCommandReq i cid kind xrev target) = Inr (fst (h_SubmitCommand c i cid kind xrev target))"
| "handle h sha now c (GetCommandReq i cid) = Inr (fst (h_GetCommand c i cid))"
| "handle h sha now c (CreatePreparationReq b) = mapR fst (h_CreatePreparation h sha c b)"
| "handle h sha now c (SubmitAnswerReq i cid qs qrev t d) = Inr (fst (h_SubmitAnswer c i cid qs qrev t d))"
| "handle h sha now c (BeginTransferReq cid cl mt d n i a) = Inr (fst (h_BeginTransfer h now c cid cl mt d n i a))"
| "handle h sha now c (FinalizeTransferReq x cid v) = Inr (fst (h_FinalizeTransfer c x cid v))"
| "handle h sha now c (GetReleaseReq i) = Inr (fst (h_GetRelease c i :: (unit, unit) handler))"
| "handle h sha now c (GetPreviewReq i) = Inr (fst (h_GetPreview c i :: (unit, unit) handler))"
| "handle h sha now c (ReadPreviewArtifactReq i d) = Inr (fst (h_ReadPreviewArtifact c i d))"
| "handle h sha now c (ReadSourceReq i) = Inr (fst (h_ReadSource c i))"
| "handle h sha now c (ListSourcesReq cursor n) = Inr (fst (h_ListSources c cursor n :: (unit, unit) handler))"
| "handle h sha now c (RegisterSourceReq cid r) = Inr (fst (h_RegisterSource c cid r :: (unit, unit) handler))"
| "handle h sha now c (GetSourceReq i) = Inr (fst (h_GetSource c i :: (unit, unit) handler))"
| "handle h sha now c (DeleteSourceReq i cid xrev) = Inr (fst (h_DeleteSource c i cid xrev :: (unit, unit) handler))"
| "handle h sha now c (ReplaceSourceAccessReq i cid xrev es) = Inr (fst (h_ReplaceSourceAccess c i cid xrev es :: (unit, unit) handler))"
| "handle h sha now c (SearchReq r) = Inr (fst (h_Search c r :: (unit, unit) handler))"
| "handle h sha now c (BeginSourceUploadReq cid r) = Inr (fst (h_BeginSourceUpload c cid r :: (unit, unit) handler))"
| "handle h sha now c (CreateSnapshotReq cid ids) = Inr (fst (h_CreateSnapshot c cid ids :: (unit, unit) handler))"
| "handle h sha now c (GetSnapshotReq i) = Inr (fst (h_GetSnapshot c i :: (unit, unit) handler))"
| "handle h sha now c (RecallMemoriesReq r) = Inr (fst (h_RecallMemories c r :: (unit, unit) handler))"
| "handle h sha now c (ListMemoriesReq q) = Inr (fst (h_ListMemories c q :: (unit, unit) handler))"
| "handle h sha now c (ProposeMemoryReq cid r) = Inr (fst (h_ProposeMemory c cid r :: (unit, unit) handler))"
| "handle h sha now c (DecideMemoryReq i cid r) = Inr (fst (h_DecideMemory c i cid r :: (unit, unit) handler))"
| "handle h sha now c (ListCatalogReq q) = Inr (fst (h_ListCatalog c q :: (unit, unit) handler))"
| "handle h sha now c (DiscoverServerReq cid r) = Inr (fst (h_DiscoverServer c cid r :: (unit, unit) handler))"
| "handle h sha now c (ReviewDescriptorReq i cid r) = Inr (fst (h_ReviewDescriptor c i cid r :: (unit, unit) handler))"
| "handle h sha now c (ListGrantsReq q) = Inr (fst (h_ListGrants c q :: (unit, unit) handler))"
| "handle h sha now c (CreateGrantReq cid r) = Inr (fst (h_CreateGrant c cid r :: (unit, unit) handler))"
| "handle h sha now c (GetGrantReq i) = Inr (fst (h_GetGrant c i :: (unit, unit) handler))"
| "handle h sha now c (GetRevocationProgressReq i) = Inr (fst (h_GetRevocationProgress c i :: (unit, unit) handler))"
| "handle h sha now c (RevokeGrantReq i cid xrev reason) = Inr (fst (h_RevokeGrant c i cid xrev reason :: (unit, unit) handler))"
| "handle h sha now c (CreateToolCallReq cid r) = Inr (fst (h_CreateToolCall c cid r :: (unit, unit) handler))"
| "handle h sha now c (GetToolCallReq i) = Inr (fst (h_GetToolCall c i :: (unit, unit) handler))"
| "handle h sha now c (ReconcileToolCallReq i) = Inr (fst (h_ReconcileToolCall c i :: (unit, unit) handler))"
| "handle h sha now c (BeginRecoveryReq cid r) = Inr (fst (h_BeginRecovery c cid r :: (unit \<times> bool, unit) handler))"
| "handle h sha now c (GetRecoveryReq i) = Inr (fst (h_GetRecovery c i :: (unit, unit) handler))"
| "handle h sha now c (ListRecoveryFindingsReq i q) = Inr (fst (h_ListRecoveryFindings c i q :: (unit, unit) handler))"
| "handle h sha now c (DisposeObligationReq i cid r) = Inr (fst (h_DisposeObligation c i cid r :: (unit \<times> bool, unit) handler))"

end
