(* ===== verification/Reach.thy ===== *)
theory Reach
  imports Api
begin

text \<open>
  What reaches the owners: the messages a port call sends through the clients, the gateways without
  a placement (Gateways of internal/transport/http/server.go), and the identities every message of
  a request names. The clients' promises come from the interpretations of \<open>owner_client\<close>; the
  reads' from \<open>authorized_first\<close>.
\<close>

section \<open>Messages of a port call\<close>

datatype owner_message =
    ToControl control_request
  | ToReads owner_call
  | ToKnowledge knowledge_request
  | ToMcp mcp_request
  | ToRecovery recovery_request

text \<open>
  The deployment: the owners behind the reads, the generated enum names, the clock and the clients'
  timeout, and whether the gateways are placed.
\<close>

record deployment =
  owners_of :: "release_msg option owners"
  known_enum :: "string \<Rightarrow> bool"
  sha_of :: "string \<Rightarrow> string"
  now_of :: int
  timeout_of :: int
  knowledge_placed :: bool
  mcp_placed :: bool

fun read_log :: "deployment \<Rightarrow> principal \<Rightarrow> read_call \<Rightarrow> owner_call list" where
  "read_log w p (RdRelease op) = snd (GetRelease (owners_of w) p op)"
| "read_log w p (RdPreview op) = snd (GetPreview (owners_of w) p op)"
| "read_log w p (RdPreviewArtifact op d) = snd (ReadPreviewArtifact (sha_of w) (owners_of w) p op d)"
| "read_log w p (RdSource op) = snd (ReadSource (sha_of w) (owners_of w) p op)"

definition no_command :: command_identity where
  "no_command = \<lparr>CmdTenantID = [], CommandID = [], CmdActorID = [], RequestDigest = []\<rparr>"

text \<open>A port is called without a command identity by the reads only, which do not look at it.\<close>

definition command_of :: "command_identity option \<Rightarrow> command_identity" where
  "command_of cmd = (case cmd of None \<Rightarrow> no_command | Some k \<Rightarrow> k)"

inductive sends :: "deployment \<Rightarrow> port_args \<Rightarrow> owner_message \<Rightarrow> bool" for w where
  to_control: "sends w (cmd, p, PControl k) (ToControl (control_call_request (command_of cmd) p k))"
| to_reads: "m \<in> set (read_log w p k) \<Longrightarrow> sends w (cmd, p, PRead k) (ToReads m)"
| to_knowledge: "knowledge_placed w \<Longrightarrow>
    sends w (cmd, p, PKnowledge k) (ToKnowledge (knowledge_call_request (known_enum w) (now_of w) (timeout_of w) (command_of cmd) p k))"
| to_mcp: "mcp_placed w \<Longrightarrow> mcp_call_request (sha_of w) (known_enum w) (now_of w) (command_of cmd) p k = Inr q \<Longrightarrow>
    sends w (cmd, p, PMcp k) (ToMcp q)"
| to_recovery: "sends w (cmd, p, PRecovery k) (ToRecovery (recovery_call_request (known_enum w) (command_of cmd) p k))"

inductive_cases sendsE: "sends w (cmd, p, k) m"

fun mutating_call :: "port_call \<Rightarrow> bool" where
  "mutating_call (PControl k) = control_mutating k"
| "mutating_call (PRead k) = False"
| "mutating_call (PKnowledge k) = knowledge_mutating k"
| "mutating_call (PMcp k) = mcp_mutating k"
| "mutating_call (PRecovery k) = recovery_mutating k"

text \<open>What a message says about who asks.\<close>

fun reads_scope :: "owner_call \<Rightarrow> scope_msg option" where
  "reads_scope (CallGetOperation s op) = Some s"
| "reads_scope _ = None"

fun reads_tenant :: "owner_call \<Rightarrow> string option" where
  "reads_tenant (CallGetOperation s op) = Some (ScTenantId s)"
| "reads_tenant (CallGetPreview t op) = Some t"
| "reads_tenant (CallGetSource t op) = Some t"
| "reads_tenant (CallGetRelease t op) = Some t"
| "reads_tenant (CallReadArtifact h op t) = Some t"
| "reads_tenant (Fetch u hs) = None"

fun message_scope :: "owner_message \<Rightarrow> scope_msg option" where
  "message_scope (ToControl q) = control_scope q"
| "message_scope (ToReads q) = reads_scope q"
| "message_scope (ToKnowledge q) = knowledge_scope q"
| "message_scope (ToMcp q) = mcp_scope q"
| "message_scope (ToRecovery q) = recovery_scope q"

fun message_command :: "owner_message \<Rightarrow> command_msg option" where
  "message_command (ToControl q) = control_command q"
| "message_command (ToReads q) = None"
| "message_command (ToKnowledge q) = knowledge_command q"
| "message_command (ToMcp q) = mcp_command q"
| "message_command (ToRecovery q) = recovery_command q"

definition message_tenants :: "owner_message \<Rightarrow> string set" where
  "message_tenants m =
     ScTenantId ` set_option (message_scope m) \<union> CmTenantId ` set_option (message_command m)
     \<union> (case m of ToReads q \<Rightarrow> set_option (reads_tenant q) | _ \<Rightarrow> {})"

lemma read_log_own: "m \<in> set (read_log w p k) \<Longrightarrow> \<exists>op. own_call p op m"
proof -
  assume m: "m \<in> set (read_log w p k)"
  have own: "\<exists>op. own_call p op m" if "authorized_first ow p op x" "m \<in> set (snd x)" for ow :: "release_msg option owners" and op and x :: "'z logged"
    using that by (auto simp: authorized_first_def own_call_def list_all_iff)
  show ?thesis
    using m own [OF GetRelease_first] own [OF GetPreview_first] own [OF ReadPreviewArtifact_first] own [OF ReadSource_first]
    by (cases k) auto
qed

lemma own_call_identity:
  "own_call p op m \<Longrightarrow> reads_scope m \<in> {None, Some (scope p)} \<and> set_option (reads_tenant m) \<subseteq> {TenantID p}"
  by (cases m) (auto simp: own_call_def scope_def)

text \<open>Every message of a port call names the principal's scope, and the command exactly when the call mutates.\<close>

lemma sends_identity:
  assumes "sends w (cmd, p, k) m"
  shows "message_scope m \<in> {None, Some (scope p)} \<and> message_command m = (if mutating_call k then Some (command (command_of cmd)) else None)"
  using assms
proof cases
  case (to_control j)
  then show ?thesis using control.scoped [OF refl, of "command_of cmd" p j] control.commanded [OF refl, of "command_of cmd" p j] by auto
next
  case (to_reads q j)
  then show ?thesis using read_log_own [of q w p j] own_call_identity [of p _ q] by auto
next
  case (to_knowledge j)
  then show ?thesis using knowledge.scoped [OF refl, of _ _ _ "command_of cmd" p j] knowledge.commanded [OF refl, of _ _ _ "command_of cmd" p j] by auto
next
  case (to_mcp j q)
  then show ?thesis using mcp.scoped [OF to_mcp(4)] mcp.commanded [OF to_mcp(4)] by auto
next
  case (to_recovery j)
  then show ?thesis using recovery.scoped [OF refl, of _ "command_of cmd" p j] recovery.commanded [OF refl, of _ "command_of cmd" p j] by auto
qed

lemma sends_reads_tenant:
  assumes "sends w (cmd, p, k) (ToReads q)"
  shows "set_option (reads_tenant q) \<subseteq> {TenantID p}"
  using assms by cases (use read_log_own own_call_identity in blast)

lemma sends_tenants:
  assumes "sends w (cmd, p, k) m" "mutating_call k \<Longrightarrow> commands_as p (command_of cmd)"
  shows "message_tenants m \<subseteq> {TenantID p}"
proof -
  note i = sends_identity [OF assms(1)]
  have "ScTenantId ` set_option (message_scope m) \<subseteq> {TenantID p}" using i by (auto simp: scope_def)
  moreover have "CmTenantId ` set_option (message_command m) \<subseteq> {TenantID p}"
    using i assms(2) by (auto simp: command_def commands_as_def split: if_splits)
  moreover have "(case m of ToReads q \<Rightarrow> set_option (reads_tenant q) | _ \<Rightarrow> {}) \<subseteq> {TenantID p}"
    using assms(1) sends_reads_tenant by (cases m) auto
  ultimately show ?thesis unfolding message_tenants_def by blast
qed

section \<open>A handler passes on the identity of its context\<close>

lemma identity_def2: "identity c cid = (\<lparr>CmdTenantID = TenantID (principal_of c), CommandID = cid, CmdActorID = ActorID (principal_of c),
    RequestDigest = deref (k_digest c)\<rparr>, principal_of c)"
  by (simp add: identity_def Let_def)

definition command_from :: "gin \<Rightarrow> string \<Rightarrow> command_identity" where
  "command_from c cid = fst (identity c cid)"

lemma mutate_eq: "mutate c cid k = (Some (command_from c cid), principal_of c, k)"
  by (simp add: mutate_def identity_def2 command_from_def)

lemmas handlers_mutating = h_CreateOperation_def h_SubmitCommand_def h_CreatePreparation_def h_SubmitAnswer_def h_BeginTransfer_def
  h_FinalizeTransfer_def h_RegisterSource_def h_DeleteSource_def h_ReplaceSourceAccess_def h_BeginSourceUpload_def
  h_CreateSnapshot_def h_ProposeMemory_def h_DecideMemory_def h_DiscoverServer_def h_ReviewDescriptor_def h_CreateGrant_def
  h_RevokeGrant_def h_CreateToolCall_def h_BeginRecovery_def h_DisposeObligation_def mutate_eq

lemmas handlers_reading = h_GetOperation_def h_GetCommand_def h_GetRelease_def h_GetPreview_def h_ReadPreviewArtifact_def
  h_ReadSource_def h_ListSources_def h_GetSource_def h_Search_def h_GetSnapshot_def h_RecallMemories_def h_ListMemories_def
  h_ListCatalog_def h_ListGrants_def h_GetGrant_def h_GetRevocationProgress_def h_GetToolCall_def h_ReconcileToolCall_def
  h_GetRecovery_def h_ListRecoveryFindings_def look_def

fun command_id_of :: "api_request \<Rightarrow> string option" where
  "command_id_of (CreateOperationReq cid kind s) = Some cid"
| "command_id_of (SubmitCommandReq i cid kind xrev target) = Some cid"
| "command_id_of (CreatePreparationReq b) = Some (PbCommandId b)"
| "command_id_of (SubmitAnswerReq i cid qs qrev t d) = Some cid"
| "command_id_of (BeginTransferReq cid cl mt d n i a) = Some cid"
| "command_id_of (FinalizeTransferReq x cid v) = Some cid"
| "command_id_of (RegisterSourceReq cid r) = Some cid"
| "command_id_of (DeleteSourceReq i cid xrev) = Some cid"
| "command_id_of (ReplaceSourceAccessReq i cid xrev es) = Some cid"
| "command_id_of (BeginSourceUploadReq cid r) = Some cid"
| "command_id_of (CreateSnapshotReq cid ids) = Some cid"
| "command_id_of (ProposeMemoryReq cid r) = Some cid"
| "command_id_of (DecideMemoryReq i cid r) = Some cid"
| "command_id_of (DiscoverServerReq cid r) = Some cid"
| "command_id_of (ReviewDescriptorReq i cid r) = Some cid"
| "command_id_of (CreateGrantReq cid r) = Some cid"
| "command_id_of (RevokeGrantReq i cid xrev reason) = Some cid"
| "command_id_of (CreateToolCallReq cid r) = Some cid"
| "command_id_of (BeginRecoveryReq cid r) = Some cid"
| "command_id_of (DisposeObligationReq i cid r) = Some cid"
| "command_id_of _ = None"

lemma handle_identity:
  assumes "handle h sha now c req = Inr (cmd, p, k)"
  shows "p = principal_of c \<and> cmd = map_option (command_from c) (command_id_of req) \<and> (mutating_call k \<longleftrightarrow> command_id_of req \<noteq> None)"
  using assms
  by (cases req) (auto simp: handlers_mutating handlers_reading split: sum.splits)

section \<open>Gateways without a placement\<close>

fun knowledge_op :: "knowledge_call \<Rightarrow> gateway_op" where
  "knowledge_op (KnListSources a n) = ListSources"
| "knowledge_op (KnRegisterSource r) = RegisterSource"
| "knowledge_op (KnGetSource i) = GetSource"
| "knowledge_op (KnDeleteSource i xrev) = DeleteSource"
| "knowledge_op (KnReplaceSourceAccess i xrev es) = ReplaceSourceAccess"
| "knowledge_op (KnSearch r) = Search"
| "knowledge_op (KnBeginSourceUpload r) = BeginSourceUpload"
| "knowledge_op (KnCreateSnapshot ids) = CreateSnapshot"
| "knowledge_op (KnGetSnapshot i) = GetSnapshot"
| "knowledge_op (KnRecallMemories r) = RecallMemories"
| "knowledge_op (KnListMemories q) = ListMemories"
| "knowledge_op (KnProposeMemory r) = ProposeMemory"
| "knowledge_op (KnDecideMemory i r) = DecideMemory"

fun mcp_op :: "mcp_call \<Rightarrow> gateway_op" where
  "mcp_op (McpListCatalog q) = ListCatalog"
| "mcp_op (McpDiscoverServer r) = DiscoverServer"
| "mcp_op (McpReviewDescriptor i r) = ReviewDescriptor"
| "mcp_op (McpListGrants q) = ListGrants"
| "mcp_op (McpCreateGrant r) = CreateGrant"
| "mcp_op (McpGetGrant i) = GetGrant"
| "mcp_op (McpGetRevocationProgress i) = GetRevocationProgress"
| "mcp_op (McpRevokeGrant i xrev reason) = RevokeGrant"
| "mcp_op (McpCreateToolCall r) = CreateToolCall"
| "mcp_op (McpGetToolCall i) = GetToolCall"
| "mcp_op (McpReconcileToolCall i) = ReconcileToolCall"

definition gateways_knowledge :: "(port_args \<Rightarrow> knowledge_call \<Rightarrow> go_error + 'v) option \<Rightarrow> port_args \<Rightarrow> knowledge_call \<Rightarrow> go_error + 'v" where
  "gateways_knowledge g = (case g of None \<Rightarrow> (\<lambda>a k. unavailable_call \<lparr>Service = ''knowledge''\<rparr> (knowledge_op k)) | Some port \<Rightarrow> port)"

definition gateways_mcp :: "(port_args \<Rightarrow> mcp_call \<Rightarrow> go_error + 'v) option \<Rightarrow> port_args \<Rightarrow> mcp_call \<Rightarrow> go_error + 'v" where
  "gateways_mcp g = (case g of None \<Rightarrow> (\<lambda>a k. unavailable_call \<lparr>Service = ''mcp''\<rparr> (mcp_op k)) | Some port \<Rightarrow> port)"

text \<open>The ports of a server: Control's are always there, the gateways' may not be placed.\<close>

definition server_port ::
  "(port_args \<Rightarrow> go_error + 'v) \<Rightarrow> (port_args \<Rightarrow> knowledge_call \<Rightarrow> go_error + 'v) option
   \<Rightarrow> (port_args \<Rightarrow> mcp_call \<Rightarrow> go_error + 'v) option \<Rightarrow> port_args \<Rightarrow> go_error + 'v" where
  "server_port control_port kn mc a =
     (case snd (snd a) of
        PKnowledge k \<Rightarrow> gateways_knowledge kn a k
      | PMcp k \<Rightarrow> gateways_mcp mc a k
      | _ \<Rightarrow> control_port a)"

text \<open>The operation a strict handler runs: its response is rendered by the generated code.\<close>

definition op_of :: "('b \<Rightarrow> string) \<Rightarrow> (port_args \<Rightarrow> go_error + 'v) \<Rightarrow> ('v, 'b) handler \<Rightarrow> op_result" where
  "op_of encode_body port h = (case serve port h of Inl e \<Rightarrow> OpErr e | Inr r \<Rightarrow> OpOk (rs_status r) (encode_body (rs_body r)))"

lemma verified_caller:
  assumes adm: "operation_ctx verify scan sha limit find_route validate (new_request mth path auth body len) = Some c'"
    and h: "handle h sha now c' req = Inr (cmd, p', k)"
    and s: "sends w (cmd, p', k) m"
  shows "\<exists>p t d. auth = ''Bearer '' @ t \<and> verify t = Inr p \<and> message_scope m \<in> {None, Some (scope p)} \<and> message_tenants m \<subseteq> {TenantID p} \<and>
    message_command m = map_option (\<lambda>cid. \<lparr>CmTenantId = TenantID p, CmCommandId = cid, CmActorId = ActorID p, CmRequestDigest = d\<rparr>) (command_id_of req) \<and>
    (if body = None \<or> len = 0 then d = []
     else \<exists>raw v. body = Some (Inr raw) \<and> length raw \<le> limit \<and> strictDecode (scan raw) = Inr v \<and> CanonicalDigest sha v = Inr d)"
proof -
  have "admitted_ctx verify scan sha limit (new_request mth path auth body len) c'"
    using adm by (subst (asm) operation_ctx_gate(1)) (simp_all add: new_request_def)
  then obtain p t where t: "auth = ''Bearer '' @ t" "verify t = Inr p" and p: "k_principal c' = Some p"
    and d: "if body = None \<or> len = 0 then deref (k_digest c') = []
      else \<exists>raw v. body = Some (Inr raw) \<and> length raw \<le> limit \<and> strictDecode (scan raw) = Inr v \<and> CanonicalDigest sha v = Inr (deref (k_digest c'))"
    by (auto simp: admitted_ctx_def new_request_def)
  note i = handle_identity [OF h]
  from p i have pp: "p' = p" by (simp add: principal_of_def)
  have c: "command_from c' cid = \<lparr>CmdTenantID = TenantID p, CommandID = cid, CmdActorID = ActorID p, RequestDigest = deref (k_digest c')\<rparr>" for cid
    using p by (simp add: command_from_def identity_def2 principal_of_def)
  note sc = sends_identity [OF s]
  have "message_tenants m \<subseteq> {TenantID p}"
    using sends_tenants [OF s] i c pp by (auto simp: commands_as_def command_of_def)
  moreover have "message_command m = map_option (\<lambda>cid. \<lparr>CmTenantId = TenantID p, CmCommandId = cid, CmActorId = ActorID p,
      CmRequestDigest = deref (k_digest c')\<rparr>) (command_id_of req)"
    using sc i c by (cases "command_id_of req") (auto simp: command_of_def command_def)
  ultimately show ?thesis using t d sc pp by blast
qed

section \<open>Properties\<close>

text \<open>
  C2. Every message that reaches an owner on behalf of a request names the caller the verifier
  accepted: its scope is that principal's or absent, it names no other tenant, and it carries a
  command exactly when the request has a command identifier: that identifier, the principal's tenant
  and actor, and as digest the canonical digest of the request's own body, which is within the limit and strictly
  decoded, or none exactly when the request has no body.
\<close>

theorem owners_see_the_verified_caller:
  assumes adm: "operation_ctx verify scan sha limit find_route validate (new_request mth path auth body len) = Some c'"
    and h: "handle h sha now c' req = Inr (cmd, p', k)"
    and s: "sends w (cmd, p', k) m"
  shows "\<exists>p t d. auth = ''Bearer '' @ t \<and> verify t = Inr p \<and> message_scope m \<in> {None, Some (scope p)} \<and> message_tenants m \<subseteq> {TenantID p} \<and>
    message_command m = map_option (\<lambda>cid. \<lparr>CmTenantId = TenantID p, CmCommandId = cid, CmActorId = ActorID p, CmRequestDigest = d\<rparr>) (command_id_of req) \<and>
    (if body = None \<or> len = 0 then d = []
     else \<exists>raw v. body = Some (Inr raw) \<and> length raw \<le> limit \<and> strictDecode (scan raw) = Inr v \<and> CanonicalDigest sha v = Inr d)"
  by (rule verified_caller [OF adm h s])

definition demo_deployment :: deployment where
  "demo_deployment = \<lparr>owners_of = \<lparr>get_operation = (\<lambda>s op. Inl (NotStatus [])), get_preview = (\<lambda>t op. Inl (NotStatus [])),
      get_source = (\<lambda>t op. Inl (NotStatus [])), get_release = (\<lambda>t op. Inl (NotStatus [])),
      read_artifact = (\<lambda>x op t. Inl (NotStatus [])), usable = (\<lambda>u. True), fetch = (\<lambda>u hs. None)\<rparr>,
    known_enum = (\<lambda>_. True), sha_of = id, now_of = 0, timeout_of = 0, knowledge_placed = True, mcp_placed = True\<rparr>"

definition demo_caller :: principal where
  "demo_caller = \<lparr>TenantID = ''acme'', ProjectID = [], ActorID = ''ann'', Roles = []\<rparr>"

text \<open>A snapshot of the demo caller, whose body is one string.\<close>

theorem owners_see_the_verified_caller_witness:
  "let m = ToKnowledge (knowledge_call_request (\<lambda>_. True) 0 0
         \<lparr>CmdTenantID = ''acme'', CommandID = ''c1'', CmdActorID = ''ann'', RequestDigest = ''sha256:'' @ quote ''b''\<rparr> demo_caller (KnCreateSnapshot [''s'']))
   in message_tenants m \<subseteq> {''acme''} \<and> message_command m =
     Some \<lparr>CmTenantId = ''acme'', CmCommandId = ''c1'', CmActorId = ''ann'', CmRequestDigest = ''sha256:'' @ quote ''b''\<rparr>"
proof -
  let ?scan = "\<lambda>raw. [(0, LStr raw)]" and ?c = "new_request ''POST'' ''/x'' (''Bearer '' @ ''k'') (Some (Inr ''b'')) 1"
  define c' where "c' = ?c\<lparr>k_principal := Some demo_caller, k_digest := Some (''sha256:'' @ quote ''b'')\<rparr>"
  define m where "m = ToKnowledge (knowledge_call_request (\<lambda>_. True) 0 0 (command_from c' ''c1'') demo_caller (KnCreateSnapshot [''s'']))"
  have d: "strictDecode (?scan ''b'') = Inr (JStr ''b'')"
    by (simp add: strictDecode_iff render.simps)
  have dig: "CanonicalDigest id (JStr ''b'') = Inr (''sha256:'' @ quote ''b'')"
    by (simp add: CanonicalDigest_def marshal_def)
  have "admitted_ctx (\<lambda>_. Inr demo_caller) ?scan id 10 ?c c'"
    unfolding admitted_ctx_def
    by (rule exI [of _ demo_caller], rule exI [of _ "''k''"], intro conjI disjI2, simp_all add: new_request_def c'_def, intro exI conjI)
       (use d dig in \<open>simp_all\<close>)
  then have adm: "operation_ctx (\<lambda>_. Inr demo_caller) ?scan id 10 (\<lambda>_. Some ()) (\<lambda>_ _. None) ?c = Some c'"
    by (subst operation_ctx_gate(1)) (simp_all add: requestValidator_def, simp add: new_request_def)
  have p: "principal_of c' = demo_caller" by (simp add: principal_of_def c'_def)
  have h: "handle \<lparr>transferWindow = 0, preparationProfile = []\<rparr> id 0 c' (CreateSnapshotReq ''c1'' [''s''])
      = Inr (Some (command_from c' ''c1''), demo_caller, PKnowledge (KnCreateSnapshot [''s'']))"
    by (simp add: h_CreateSnapshot_def mutate_eq p)
  have s: "sends demo_deployment (Some (command_from c' ''c1''), demo_caller, PKnowledge (KnCreateSnapshot [''s''])) m"
    using to_knowledge [of demo_deployment "Some (command_from c' ''c1'')" demo_caller "KnCreateSnapshot [''s'']"]
    by (simp add: demo_deployment_def m_def command_of_def)
  have "command_from c' ''c1'' = \<lparr>CmdTenantID = ''acme'', CommandID = ''c1'', CmdActorID = ''ann'', RequestDigest = ''sha256:'' @ quote ''b''\<rparr>"
    by (simp add: command_from_def identity_def2 c'_def demo_caller_def principal_of_def)
  moreover have "message_tenants m \<subseteq> {''acme''} \<and> message_command m =
     Some \<lparr>CmTenantId = ''acme'', CmCommandId = ''c1'', CmActorId = ''ann'', CmRequestDigest = ''sha256:'' @ quote ''b''\<rparr>"
    using owners_see_the_verified_caller [OF adm h s] d dig by (auto simp: demo_caller_def)
  ultimately show ?thesis by (simp add: Let_def m_def)
qed

text \<open>
  Without a placement, every knowledge and MCP operation answers 503 DEPENDENCY_UNAVAILABLE, not
  retryable and without Retry-After, whatever the operation and the caller, and nothing is sent.
\<close>

theorem unplaced_gateway_answers:
  assumes "a = (cmd, p, PKnowledge kk) \<and> \<not> knowledge_placed w \<or> a = (cmd, p, PMcp mk) \<and> \<not> mcp_placed w"
  shows "(\<exists>e. op_of encode_body (server_port ctl None None) (a, f) = OpErr e \<and> status (fromControl e) = 503
       \<and> code (fromControl e) = ''DEPENDENCY_UNAVAILABLE'' \<and> \<not> retryable (fromControl e) \<and> \<not> sends_retry_after (fromControl e))
    \<and> \<not> sends w a m"
proof
  have r: "e \<in> range unavailable_err \<Longrightarrow> Code e = ''DEPENDENCY_UNAVAILABLE'' \<and> \<not> Retryable e" for e
    by (auto simp: unavailable_err_def ctl_err_def)
  from assms obtain u where o: "op_of encode_body (server_port ctl None None) (a, f) = OpErr (ControlErr (unavailable_err u))"
    by (auto simp: op_of_def serve_def server_port_def gateways_knowledge_def gateways_mcp_def unavailable_call_def)
  have e: "unavailable_err u \<in> range unavailable_err" by simp
  note f = unplaced.envelope_code [OF e] unplaced.envelope_status [OF e] unplaced.envelope_retryable [OF e] unplaced.envelope_paced [OF e] r [OF e]
  have "status (fromControl (ControlErr (unavailable_err u))) = 503"
    using f(2) f(5) by (simp add: httpStatus_503 [symmetric])
      (metis httpStatus_503 option.inject)
  with o f show "\<exists>e. op_of encode_body (server_port ctl None None) (a, f) = OpErr e \<and> status (fromControl e) = 503
       \<and> code (fromControl e) = ''DEPENDENCY_UNAVAILABLE'' \<and> \<not> retryable (fromControl e) \<and> \<not> sends_retry_after (fromControl e)"
    by auto
  show "\<not> sends w a m" using assms by (auto elim!: sendsE)
qed

theorem unplaced_gateway_answers_witness:
  "\<exists>e. op_of (\<lambda>_. []) (server_port (\<lambda>_. Inr ()) None None) ((None, demo_caller, PKnowledge (KnGetSource ''s'')), \<lambda>v. reply 200 v) = OpErr e
     \<and> status (fromControl e) = 503"
  using unplaced_gateway_answers [of "(None, demo_caller, PKnowledge (KnGetSource ''s''))" None demo_caller "KnGetSource ''s''"
      "demo_deployment\<lparr>knowledge_placed := False\<rparr>" "McpGetGrant []" "\<lambda>_. []" "\<lambda>_. Inr ()" "\<lambda>v. reply 200 v"]
  by auto

text \<open>
  C38. The public view of an operation loses nothing and has no empty optional member: two views with
  the same public form are equal, and each optional string of it is absent or not empty.
\<close>

theorem public_view_faithful:
  "(viewToPublic v = viewToPublic v' \<longleftrightarrow> v = v') \<and>
   Some [] \<notin> {PoProjectId (viewToPublic v), PoFailureCode (viewToPublic v), PuBriefId (PoSubject (viewToPublic v)),
      PuSourceRevision (PoSubject (viewToPublic v)), PuSourceHandle (PoSubject (viewToPublic v)),
      PuSourceOperationId (PoSubject (viewToPublic v)), PuPackageVersion (PoSubject (viewToPublic v))} \<and>
   (\<forall>pr\<in>set_option (PoProgress (viewToPublic v)). Some [] \<notin> {PuNode pr, PuNodeState pr, PuRound pr})"
proof -
  have o: "optStr x = optStr y \<longleftrightarrow> x = y" for x y by (metis deref_optStr)
  have n: "optStr x \<noteq> Some []" "Some [] \<noteq> optStr x" for x by (simp_all add: optStr_def)
  have s: "subject_to_public x = subject_to_public y \<longleftrightarrow> x = y" for x y
    by (cases x; cases y) (auto simp: subject_to_public_def o)
  have pr: "progress_to_public x = progress_to_public y \<longleftrightarrow> x = y" for x y
    by (cases x; cases y) (auto simp: progress_to_public_def split: if_splits)
  have m: "map_option progress_to_public x = map_option progress_to_public y \<longleftrightarrow> x = y" for x y
    by (cases x; cases y) (auto simp: pr)
  have "viewToPublic v = viewToPublic v' \<longleftrightarrow> v = v'"
    by (cases v; cases v') (simp add: viewToPublic_def o s m, blast)
  moreover have "Some [] \<notin> {PoProjectId (viewToPublic v), PoFailureCode (viewToPublic v)}"
    by (simp add: viewToPublic_def n)
  moreover have "Some [] \<notin> {PuBriefId (subject_to_public z), PuSourceRevision (subject_to_public z), PuSourceHandle (subject_to_public z),
      PuSourceOperationId (subject_to_public z), PuPackageVersion (subject_to_public z)}" for z
    by (simp add: subject_to_public_def n)
  moreover have "PoSubject (viewToPublic v) = subject_to_public (OvSubject v)" by (simp add: viewToPublic_def)
  moreover have "\<forall>pr\<in>set_option (PoProgress (viewToPublic v)). Some [] \<notin> {PuNode pr, PuNodeState pr, PuRound pr}"
    by (auto simp: viewToPublic_def progress_to_public_def split: if_splits)
  ultimately show ?thesis by simp
qed

definition demo_view :: operation_view where
  "demo_view = \<lparr>OvOperationID = ''op1'', OvTenantID = ''acme'', OvProjectID = [], OvActorID = ''ann'', OvKind = ''produce'',
     OvSubject = read_subject None, OvLifecycle = ''running'', OvPhase = ''draft'', OvControl = [], OvCleanup = [],
     OvFinance = [], OvRevision = ''1'', OvCoveredEventSeq = ''4'', OvExecutionEpoch = ''1'', OvCreatedAt = 0,
     OvUpdatedAt = 1, OvDeadline = 2, OvFailureCode = [], OvActiveDeadline = None, OvClarification = None,
     OvProgress = Some \<lparr>PrStep = ''draft'', PrVisit = ''1'', PrAttemptOrdinal = ''1'', PrNode = ''draft'', PrNodeState = [], PrRound = ''2'', PrEventSeq = ''4''\<rparr>\<rparr>"

theorem public_view_faithful_witness:
  "viewToPublic demo_view \<noteq> viewToPublic (demo_view\<lparr>OvFailureCode := ''internal''\<rparr>) \<and>
   (\<exists>pr. PoProgress (viewToPublic demo_view) = Some pr \<and> PuNodeState pr \<noteq> Some [])"
proof -
  have ne: "demo_view \<noteq> demo_view\<lparr>OvFailureCode := ''internal''\<rparr>"
  proof
    assume "demo_view = demo_view\<lparr>OvFailureCode := ''internal''\<rparr>"
    then have "OvFailureCode demo_view = ''internal''" by (metis operation_view.select_convs(18) operation_view.surjective operation_view.update_convs(18))
    then show False by (simp add: demo_view_def)
  qed
  obtain pr where pr: "PoProgress (viewToPublic demo_view) = Some pr"
    by (simp add: viewToPublic_def demo_view_def)
  from public_view_faithful [of demo_view "demo_view\<lparr>OvFailureCode := ''internal''\<rparr>"] ne pr
  show ?thesis by auto
qed

end
