(* ===== verification/Rpc.thy ===== *)
theory Rpc
  imports Http Gateway
begin

text \<open>
  The context of an owner call: internal/requestid (With, From, outgoing and the client
  interceptors), the bound of Control's unary calls (boundRPCWait) and the timeout of the knowledge
  and mcp clients (ctx), and how Dial composes them.

  A Go context is its deadline, the request identifier under the package's key and the outgoing
  gRPC metadata. Documented behaviour of the libraries: context.WithTimeout keeps an earlier
  deadline; grpc runs the interceptor of WithUnaryInterceptor before those of
  WithChainUnaryInterceptor. The strict handlers pass the gin context, which delegates
  to the request's context (ContextWithFallback).
\<close>

section \<open>Contexts\<close>

record go_context =
  cx_deadline :: "int option"
  cx_request_id :: "string option"
  cx_metadata :: "(string \<times> string) list"

definition WithTimeout :: "int \<Rightarrow> int \<Rightarrow> go_context \<Rightarrow> go_context" where
  "WithTimeout now d cx =
     cx\<lparr>cx_deadline := Some (case cx_deadline cx of None \<Rightarrow> now + d | Some t \<Rightarrow> min t (now + d))\<rparr>"

definition With :: "go_context \<Rightarrow> string \<Rightarrow> go_context" where
  "With cx i = cx\<lparr>cx_request_id := Some i\<rparr>"

definition From :: "go_context \<Rightarrow> string" where
  "From cx = deref (cx_request_id cx)"

definition MetadataKey :: string where "MetadataKey = ''x-anvilkit-request-id''"

definition outgoing :: "go_context \<Rightarrow> go_context" where
  "outgoing cx =
     (if From cx \<noteq> [] then cx\<lparr>cx_metadata := cx_metadata cx @ [(MetadataKey, From cx)]\<rparr> else cx)"

text \<open>An invoker performs a call under a context; an interceptor wraps one.\<close>

type_synonym ('q, 'r) invoker = "go_context \<Rightarrow> 'q \<Rightarrow> 'r"

definition UnaryClient :: "('q, 'r) invoker \<Rightarrow> ('q, 'r) invoker" where
  "UnaryClient invoke = (\<lambda>cx q. invoke (outgoing cx) q)"

definition StreamClient :: "('q, 'r) invoker \<Rightarrow> ('q, 'r) invoker" where
  "StreamClient streamer = (\<lambda>cx q. streamer (outgoing cx) q)"

definition boundRPCWait :: "int \<Rightarrow> ('q, 'r) invoker \<Rightarrow> ('q, 'r) invoker" where
  "boundRPCWait now invoke = (\<lambda>cx q. invoke (WithTimeout now 15000000000 cx) q)"

definition client_ctx :: "int \<Rightarrow> int \<Rightarrow> go_context \<Rightarrow> go_context" where
  "client_ctx now timeout cx = WithTimeout now timeout cx"

section \<open>The owners' connections\<close>

text \<open>A unary call and a stream of Control, and a call of the knowledge or the mcp client.\<close>

definition control_unary :: "int \<Rightarrow> ('q, 'r) invoker \<Rightarrow> ('q, 'r) invoker" where
  "control_unary now transport = boundRPCWait now (UnaryClient transport)"

definition control_stream :: "('q, 'r) invoker \<Rightarrow> ('q, 'r) invoker" where
  "control_stream transport = StreamClient transport"

definition gateway_unary :: "int \<Rightarrow> int \<Rightarrow> ('q, 'r) invoker \<Rightarrow> ('q, 'r) invoker" where
  "gateway_unary now timeout transport = (\<lambda>cx q. UnaryClient transport (client_ctx now timeout cx) q)"

text \<open>
  What a client promises of the context its transport gets: the metadata of the caller's context
  and its request identifier, once, and a deadline that is bounded and not later than the caller's.
\<close>

locale bounded_calls =
  fixes sent_under :: "int \<Rightarrow> go_context \<Rightarrow> go_context"
    and bound :: int
  assumes tagged: "cx_metadata (sent_under now cx) =
      cx_metadata cx @ (if From cx \<noteq> [] then [(MetadataKey, From cx)] else [])"
    and bounded: "cx_deadline (sent_under now cx) =
      Some (case cx_deadline cx of None \<Rightarrow> now + bound | Some t \<Rightarrow> min t (now + bound))"
begin

lemma call_ends: "\<exists>t. cx_deadline (sent_under now cx) = Some t \<and> t \<le> now + bound \<and> (\<forall>d. cx_deadline cx = Some d \<longrightarrow> t \<le> d)"
  by (auto simp: bounded split: option.split)

lemma call_tagged: "cx_request_id cx = Some i \<Longrightarrow> i \<noteq> [] \<Longrightarrow> cx_metadata cx = [] \<Longrightarrow> cx_metadata (sent_under now cx) = [(MetadataKey, i)]"
  by (simp add: tagged From_def)

end

interpretation control_calls: bounded_calls "\<lambda>now cx. control_unary now (\<lambda>cx' q. cx') cx ()" 15000000000
  by unfold_locales (simp_all add: control_unary_def boundRPCWait_def UnaryClient_def WithTimeout_def outgoing_def From_def)

interpretation gateway_calls: bounded_calls "\<lambda>now cx. gateway_unary now timeout (\<lambda>cx' q. cx') cx ()" timeout for timeout
  by unfold_locales (simp_all add: gateway_unary_def client_ctx_def UnaryClient_def WithTimeout_def outgoing_def From_def)

lemma outgoing_deadline [simp]: "cx_deadline (outgoing cx) = cx_deadline cx"
  by (simp add: outgoing_def)

section \<open>The context of a request\<close>

text \<open>The request's context at a handler: the server sets no deadline, requestID the identifier.\<close>

definition request_context :: "int option \<Rightarrow> gin \<Rightarrow> go_context" where
  "request_context dl c = With \<lparr>cx_deadline = dl, cx_request_id = None, cx_metadata = []\<rparr> (ctx_request_id c)"

lemma request_context_id:
  "ctx_request_id c = i \<Longrightarrow> cx_request_id (request_context dl c) = Some i \<and> cx_metadata (request_context dl c) = [] \<and>
     cx_deadline (request_context dl c) = dl"
  by (simp add: request_context_def With_def)

lemma newRequestID_not_Nil [simp]: "newRequestID rnd \<noteq> []"
  by (simp add: newRequestID_def)

lemma admitted_id:
  "admitted_ctx verify scan sha limit (prepared rnd (new_request m path auth body len)) c' \<Longrightarrow> ctx_request_id c' = newRequestID rnd"
  by (auto simp: admitted_ctx_def)

section \<open>Properties\<close>

text \<open>
  C23. Every call an admitted request makes to an owner can be traced and ends: the identifier the
  client finds in the response is the only request identifier of the call's metadata, for unary calls
  and streams, and a unary call has a deadline within 15 seconds (Control) or the client's timeout
  (knowledge, mcp), never later than the request's own.
\<close>

theorem owner_calls_are_traced:
  assumes "recovers recovery"
    and "admitted_ctx verify scan sha limit (prepared rnd (new_request m path auth body len)) c'"
  shows "w_headers (engine recovery metrics rnd (api_chain verify scan sha limit find_route validate (strict_handler op))
            (new_request m path auth body len)) ''X-Request-Id'' = Some (newRequestID rnd)
    \<and> (\<exists>t. control_unary now (\<lambda>cx q. (cx_metadata cx, cx_deadline cx, q)) (request_context dl c') req
           = ([(MetadataKey, newRequestID rnd)], Some t, req) \<and> t \<le> now + 15000000000 \<and> (dl \<noteq> None \<longrightarrow> t \<le> the dl))
    \<and> (\<exists>t. gateway_unary now timeout (\<lambda>cx q. (cx_metadata cx, cx_deadline cx, q)) (request_context dl c') req
           = ([(MetadataKey, newRequestID rnd)], Some t, req) \<and> t \<le> now + timeout \<and> (dl \<noteq> None \<longrightarrow> t \<le> the dl))
    \<and> control_stream (\<lambda>cx q. (cx_metadata cx, cx_deadline cx, q)) (request_context dl c') req = ([(MetadataKey, newRequestID rnd)], dl, req)"
proof -
  let ?cx = "request_context dl c'"
  have i: "cx_request_id ?cx = Some (newRequestID rnd)" "cx_metadata ?cx = []" "cx_deadline ?cx = dl"
    using request_context_id [OF admitted_id [OF assms(2)]] by blast+
  have "w_headers (engine recovery metrics rnd (api_chain verify scan sha limit find_route validate (strict_handler op))
            (new_request m path auth body len)) ''X-Request-Id'' = Some (newRequestID rnd)"
    using always_finished [OF assms(1), where verify = verify and scan = scan and sha = sha and limit = limit and find_route = find_route
        and validate = validate and rnd = rnd and m = m and path = path and auth = auth and body = body and len = len and metrics = metrics and op = op]
    by (auto simp: finished_def recorded_def)
  moreover have "control_unary now (\<lambda>cx q. (cx_metadata cx, cx_deadline cx, q)) ?cx req =
      (let cx = control_unary now (\<lambda>cx q. cx) ?cx () in (cx_metadata cx, cx_deadline cx, req))"
    "gateway_unary now timeout (\<lambda>cx q. (cx_metadata cx, cx_deadline cx, q)) ?cx req =
      (let cx = gateway_unary now timeout (\<lambda>cx q. cx) ?cx () in (cx_metadata cx, cx_deadline cx, req))"
    by (simp_all add: control_unary_def boundRPCWait_def gateway_unary_def UnaryClient_def Let_def)
  moreover have "control_stream (\<lambda>cx q. (cx_metadata cx, cx_deadline cx, q)) ?cx req = ([(MetadataKey, newRequestID rnd)], dl, req)"
    using i by (simp add: control_stream_def StreamClient_def outgoing_def From_def)
  ultimately show ?thesis
    using control_calls.call_tagged [OF i(1) _ i(2)] control_calls.call_ends [of now ?cx]
      gateway_calls.call_tagged [OF i(1) _ i(2)] gateway_calls.call_ends [of now timeout ?cx] i(3)
    by (auto simp: Let_def)
qed

theorem owner_calls_are_traced_witness:
  "\<exists>c' t. control_unary 100 (\<lambda>cx q. (cx_metadata cx, cx_deadline cx, q)) (request_context (Some 7) c') ''q''
     = ([(MetadataKey, newRequestID ''0123456789'')], Some t, ''q'') \<and> t \<le> 7"
proof -
  let ?r = "new_request ''GET'' ''/x'' ''Bearer k'' None 0"
  let ?c = "(prepared ''0123456789'' ?r)\<lparr>k_principal := Some no_principal\<rparr>"
  have "admitted_ctx (\<lambda>_. Inr no_principal) (\<lambda>_. []) id 10 (prepared ''0123456789'' ?r) ?c"
    unfolding admitted_ctx_def by (rule exI [of _ no_principal], rule exI [of _ "''k''"]) (simp add: new_request_def)
  from owner_calls_are_traced [OF gin_recovers this, of True "\<lambda>_. None :: unit option" "\<lambda>_ _. None" "\<lambda>_. OpPanic ''x''" 100 "Some 7" "''q''" 5]
  show ?thesis by auto
qed

end
