(* ===== verification/Canonical.thy ===== *)
theory Canonical
  imports Digest
begin

text \<open>
  What the canonical text of a document determines. json.Marshal (Digest.thy) forgets the order of
  the members of an object and, for a string that is not UTF-8, which byte was wrong; for the
  documents the scanner yields (valid UTF-8, numbers as JSON writes them) it forgets nothing else:
  the text can be read back, so two documents have one canonical text exactly when they are
  the same document up to the order of members. With a collision-free hash the request
  digest is then the identity of the document.
\<close>

section \<open>Reading a quoted string back\<close>

definition hex_value :: "char \<Rightarrow> nat" where
  "hex_value c = (if char_code c < 58 then char_code c - 48 else char_code c - 87)"

lemma hex_value_digit [simp]: "n < 16 \<Longrightarrow> hex_value (hex_digit n) = n"
  by (simp add: hex_value_def hex_digit_def)

text \<open>The bytes of the four digits of an escape, as far as json.Marshal writes them.\<close>

definition read_hex :: "string \<Rightarrow> string" where
  "read_hex ds =
     (let n = foldl (\<lambda>a d. 16 * a + hex_value d) 0 ds in
      if n < 128 then [char_of n] else [CHR 0xE2, CHR 0x80, char_of (n - 8232 + 168)])"

definition read_esc :: "char \<Rightarrow> string" where
  "read_esc d =
     (if d = CHR ''b'' then [CHR 0x08] else if d = CHR ''f'' then [CHR 0x0C] else if d = CHR ''n'' then [CHR 0x0A]
      else if d = CHR ''r'' then [CHR 0x0D] else if d = CHR ''t'' then [CHR 0x09] else [d])"

text \<open>The string up to the closing quotation mark, and the text behind the mark.\<close>

function unquote :: "string \<Rightarrow> (string \<times> string) option" where
  "unquote [] = None"
| "unquote (c # cs) =
     (if c = CHR 0x22 then Some ([], cs)
      else if c \<noteq> CHR 0x5C then map_option (apfst (Cons c)) (unquote cs)
      else if take 1 cs = [CHR ''u''] then map_option (apfst (append (read_hex (take 4 (drop 1 cs))))) (unquote (drop 5 cs))
      else map_option (apfst (append (read_esc (hd cs)))) (unquote (drop 1 cs)))"
  by pat_completeness auto
termination
  by (relation "measure length") auto

text \<open>Valid UTF-8: every byte starts or continues a sequence.\<close>

function utf8 :: "string \<Rightarrow> bool" where
  "utf8 [] = True"
| "utf8 (c # cs) = (rune_len (c # cs) \<noteq> 0 \<and> utf8 (drop (rune_len (c # cs) - 1) cs))"
  by pat_completeness auto
termination
  by (relation "measure length") auto

lemma unquote_hex:
  assumes "a < 16" "b < 16" "c < 16" "d < 16"
  shows "unquote (u_escape a b c d @ t) =
    map_option (apfst (append (read_hex (map hex_digit [a, b, c, d])))) (unquote t)"
  by (simp add: u_escape_def)

lemma read_hex_byte: "a < 8 \<Longrightarrow> b < 16 \<Longrightarrow> read_hex (map hex_digit [0, 0, a, b]) = [char_of (16 * a + b)]"
  by (simp add: read_hex_def)

lemma unquote_ascii:
  assumes "char_code c < 128"
  shows "unquote (esc_ascii c @ t) = map_option (apfst (Cons c)) (unquote t)"
proof -
  let ?a = "char_code c div 16" and ?b = "char_code c mod 16"
  have n: "?a < 8" "?b < 16" using assms by auto
  then have "unquote (u_escape 0 0 ?a ?b @ t) = map_option (apfst (append [char_of (16 * ?a + ?b)])) (unquote t)"
    using unquote_hex [of 0 0 ?a ?b t] read_hex_byte [of ?a ?b] by simp
  then have u: "unquote (u_escape 0 0 ?a ?b @ t) = map_option (apfst (Cons c)) (unquote t)"
    by (simp add: append_Cons [abs_def] mult.commute)
  show ?thesis
    unfolding esc_ascii_def by (auto simp: u read_esc_def append_Cons [abs_def] split: if_splits)
qed

lemma unquote_raw:
  "(\<And>c. c \<in> set us \<Longrightarrow> 128 \<le> char_code c) \<Longrightarrow> unquote (us @ t) = map_option (apfst (append us)) (unquote t)"
proof (induction us)
  case Nil
  then show ?case by (cases "unquote t") auto
next
  case (Cons c us)
  have "c \<noteq> CHR 0x22" "c \<noteq> CHR 0x5C" using Cons.prems [of c] by (auto simp: char_lits)
  moreover have "unquote (us @ t) = map_option (apfst (append us)) (unquote t)"
    by (rule Cons.IH) (use Cons.prems in auto)
  ultimately show ?case by (cases "unquote t") auto
qed

lemma unquote_esc: "utf8 s \<Longrightarrow> unquote (esc s @ CHR 0x22 # r) = Some (s, r)"
proof (induction s rule: esc.induct)
  case (2 c cs)
  let ?n = "rune_len (c # cs)"
  have n: "?n \<noteq> 0" and v: "utf8 (drop (?n - 1) cs)" using "2.prems" by simp_all
  show ?case
  proof (cases "char_code c < 128")
    case True
    with v have "utf8 cs" by (simp add: rune_len_def)
    with 2(1) True show ?thesis by (simp add: unquote_ascii)
  next
    case False
    have three: "take 3 (c # cs) = [CHR 0xE2, CHR 0x80, x] \<Longrightarrow> x \<in> {CHR 0xA8, CHR 0xA9} \<Longrightarrow>
        ?n = 3 \<and> c = CHR 0xE2 \<and> cs = CHR 0x80 # x # drop 2 cs" for x
      by (cases cs; cases "tl cs") (auto simp: rune_len_def cont_def cont_in_def char_code_def)
    have lits: "char_of 168 = CHR 0xA8" "char_of 169 = CHR 0xA9" "\<not> char_code CHR 0xE2 < 128" by (simp_all add: char_code_def char_of_def)
    consider (line) "take 3 (c # cs) = [CHR 0xE2, CHR 0x80, CHR 0xA8]"
      | (par) "take 3 (c # cs) = [CHR 0xE2, CHR 0x80, CHR 0xA9]"
      | (raw) "take 3 (c # cs) \<noteq> [CHR 0xE2, CHR 0x80, CHR 0xA8]" "take 3 (c # cs) \<noteq> [CHR 0xE2, CHR 0x80, CHR 0xA9]"
      by blast
    then show ?thesis
    proof cases
      case line
      with three [of "CHR 0xA8"] obtain zs where k: "?n = 3" "c = CHR 0xE2" "cs = CHR 0x80 # CHR 0xA8 # zs" by blast
      with v have "utf8 zs" by simp
      with 2(3) False n line k(3) have "unquote (esc zs @ CHR 0x22 # r) = Some (zs, r)" by simp
      with k show ?thesis by (simp add: unquote_hex read_hex_def lits)
    next
      case par
      with three [of "CHR 0xA9"] obtain zs where k: "?n = 3" "c = CHR 0xE2" "cs = CHR 0x80 # CHR 0xA9 # zs" by blast
      with v have "utf8 zs" by simp
      with 2(4) False n par k(3) have "unquote (esc zs @ CHR 0x22 # r) = Some (zs, r)" by simp
      with k show ?thesis by (simp add: unquote_hex read_hex_def lits)
    next
      case raw
      have "128 \<le> char_code x" if "x \<in> set (take ?n (c # cs))" for x
        using that False rune_bytes [of c _ cs] by (auto simp: in_set_conv_nth simp del: take_Suc_Cons)
      note read = unquote_raw [OF this]
      have "unquote (esc (drop (?n - 1) cs) @ CHR 0x22 # r) = Some (drop (?n - 1) cs, r)"
        using 2(5) False n raw v by blast
      then have "unquote (take ?n (c # cs) @ esc (drop (?n - 1) cs) @ CHR 0x22 # r)
          = Some (take ?n (c # cs) @ drop ?n (c # cs), r)"
        using n by (simp add: read drop_Cons')
      with False n raw show ?thesis by (auto simp del: take_Suc_Cons)
    qed
  qed
qed simp

section \<open>The text determines the lexemes\<close>

definition number_char :: "char \<Rightarrow> bool" where
  "number_char c \<longleftrightarrow> is_digit c \<or> c \<in> {CHR ''-'', CHR ''+'', CHR ''.'', CHR ''e'', CHR ''E''}"

definition is_number :: "lexeme \<Rightarrow> bool" where
  "is_number l = (case l of LNum n \<Rightarrow> True | _ \<Rightarrow> False)"

text \<open>A lexeme as the scanner gives it: a complete number, a string of valid UTF-8.\<close>

fun scanned_lexeme :: "lexeme \<Rightarrow> bool" where
  "scanned_lexeme (LNum n) = (n \<noteq> [] \<and> matches json_number n)"
| "scanned_lexeme (LStr s) = utf8 s"
| "scanned_lexeme (LBad q e) = False"
| "scanned_lexeme l = True"

lemma number_chars:
  assumes "matches json_number n"
  shows "list_all number_char n"
proof -
  have "list_all number_char (concat us)" if "set us \<subseteq> {[c] | c. is_digit c}" for us
    using that by (induction us) (auto simp: number_char_def)
  then have dig: "s \<in> lang (Star (Cls is_digit)) \<Longrightarrow> list_all number_char s" for s
    unfolding lang.simps by blast
  have "class_nonzero c \<Longrightarrow> number_char c" "is_digit c \<Longrightarrow> number_char c" for c
    by (auto simp: class_nonzero_iff number_char_def)
  moreover have "number_char CHR ''0''" by (simp add: number_char_def is_digit_def between_def char_code_def)
  ultimately show ?thesis
    using assms dig
    unfolding matches_lang json_number_def lang.simps(3,4) lang_opt mem_Collect_eq insert_iff Un_iff lang_cls_iff
    by (auto simp: number_char_def simp del: lang.simps)
qed

text \<open>The first byte of a lexeme's text tells its kind; only a number starts with a number's byte.\<close>

lemma number_lead: "scanned_lexeme l \<Longrightarrow> number_char (hd (lexeme_text l)) \<longleftrightarrow> is_number l"
proof (cases l)
  case (LNum n)
  assume "scanned_lexeme l"
  with LNum have "n \<noteq> []" "list_all number_char n" using number_chars by auto
  with LNum show ?thesis by (cases n) (auto simp: number_text_def is_number_def)
qed (auto simp: is_number_def number_char_def is_digit_def between_def char_code_def quote_def)

lemma text_not_Nil: "scanned_lexeme l \<Longrightarrow> lexeme_text l \<noteq> []"
  by (cases l) (auto simp: quote_def number_text_def)

lemma number_split:
  assumes "list_all number_char n" "list_all number_char n'" "n @ r = n' @ r'"
    "r = [] \<or> \<not> number_char (hd r)" "r' = [] \<or> \<not> number_char (hd r')"
  shows "n = n' \<and> r = r'"
proof -
  have "takeWhile number_char (n @ r) = n" if "list_all number_char n" "r = [] \<or> \<not> number_char (hd r)" for n r
    using that by (cases r) (auto simp: takeWhile_append list_all_iff)
  with assms have "n = n'" by metis
  with assms(3) show ?thesis by simp
qed

lemma same_lead:
  "scanned_lexeme l \<Longrightarrow> scanned_lexeme l' \<Longrightarrow> \<not> is_number l \<Longrightarrow> \<not> is_number l' \<Longrightarrow>
   hd (lexeme_text l) = hd (lexeme_text l') \<Longrightarrow> l = l' \<or> (\<exists>s s'. l = LStr s \<and> l' = LStr s')"
  by (cases l; cases l'; simp add: is_number_def quote_def split: if_split_asm)

lemma lexeme_split:
  assumes "scanned_lexeme l" "scanned_lexeme l'" "lexeme_text l @ r = lexeme_text l' @ r'"
    "is_number l \<Longrightarrow> r = [] \<or> \<not> number_char (hd r)" "is_number l' \<Longrightarrow> r' = [] \<or> \<not> number_char (hd r')"
  shows "l = l' \<and> r = r'"
proof -
  have h: "hd (lexeme_text l) = hd (lexeme_text l')"
    using assms(1-3) text_not_Nil by (metis hd_append2)
  show ?thesis
  proof (cases "is_number l")
    case True
    with h assms(1,2) have "is_number l'" using number_lead by metis
    with True obtain n n' where "l = LNum n" "l' = LNum n'" by (auto simp: is_number_def split: lexeme.splits)
    with assms True number_split [of n n' r r'] show ?thesis
      by (auto simp: number_text_def is_number_def number_chars)
  next
    case False
    with h assms(1,2) have "\<not> is_number l'" using number_lead by metis
    moreover have "s = s' \<and> r = r'" if st: "l = LStr s" "l' = LStr s'" for s s'
    proof -
      have "esc s @ CHR 0x22 # r = esc s' @ CHR 0x22 # r'" using assms(3) st by (simp add: quote_def)
      then have "Some (s, r) = Some (s', r')"
        using unquote_esc [of s r] unquote_esc [of s' r'] assms(1,2) st by (simp only: scanned_lexeme.simps)
      then show ?thesis by simp
    qed
    ultimately show ?thesis
      using same_lead [OF assms(1,2) False _ h] assms(3) by blast
  qed
qed

text \<open>Two numbers never stand next to each other in a rendered document.\<close>

definition apart :: "lexeme \<Rightarrow> lexeme \<Rightarrow> bool" where
  "apart l l' \<longleftrightarrow> \<not> (is_number l \<and> is_number l')"

lemma number_end:
  assumes "successively apart (l # ls)" "is_number l" "list_all scanned_lexeme ls"
  shows "concat (map lexeme_text ls) = [] \<or> \<not> number_char (hd (concat (map lexeme_text ls)))"
proof (cases ls)
  case (Cons k ks)
  with assms have "\<not> is_number k" "scanned_lexeme k" by (auto simp: apart_def)
  with Cons show ?thesis using number_lead [of k] text_not_Nil [of k] by simp
qed simp

lemma lexemes_unique:
  "list_all scanned_lexeme ls \<Longrightarrow> list_all scanned_lexeme ls' \<Longrightarrow> successively apart ls \<Longrightarrow> successively apart ls' \<Longrightarrow>
   concat (map lexeme_text ls) = concat (map lexeme_text ls') \<Longrightarrow> ls = ls'"
proof (induction ls arbitrary: ls')
  case Nil
  then show ?case using text_not_Nil by (cases ls') auto
next
  case (Cons l ls)
  show ?case
  proof (cases ls')
    case Nil
    with Cons.prems text_not_Nil [of l] show ?thesis by simp
  next
    case (Cons k ks)
    have eq: "lexeme_text l @ concat (map lexeme_text ls) = lexeme_text k @ concat (map lexeme_text ks)"
      using Cons.prems(5) Cons by simp
    have "l = k \<and> concat (map lexeme_text ls) = concat (map lexeme_text ks)"
      by (rule lexeme_split [OF _ _ eq]) (use Cons Cons.prems number_end [of l ls] number_end [of k ks] in auto)
    moreover have "successively apart ls" "successively apart ks"
      using Cons.prems(3,4) Cons by (auto simp: successively_Cons)
    ultimately show ?thesis using Cons.IH [of ks] Cons.prems Cons by auto
  qed
qed

section \<open>The lexemes determine the document\<close>

fun scanned :: "json \<Rightarrow> bool" where
  "scanned (JNum n) = (n \<noteq> [] \<and> matches json_number n)"
| "scanned (JStr s) = utf8 s"
| "scanned (JArr vs) = list_all scanned vs"
| "scanned (JObj ms) = list_all (\<lambda>(k, v). utf8 k \<and> scanned v) ms"
| "scanned v = True"

lemma apart_middle:
  "\<not> is_number k \<Longrightarrow> successively apart (xs @ k # ys) \<longleftrightarrow> successively apart xs \<and> successively apart ys"
  by (auto simp: successively_append_iff successively_Cons apart_def)

lemma apart_items:
  "(\<And>x. x \<in> set xs \<Longrightarrow> successively apart x) \<Longrightarrow> \<not> is_number z \<Longrightarrow> successively apart (items b xs @ [z])"
proof (induction xs arbitrary: b)
  case (Cons x xs)
  have c: "\<not> is_number Comma" by (simp add: is_number_def)
  have IH: "successively apart (items False xs @ [z])" using Cons by simp
  have "successively apart (x @ items False xs @ [z])"
  proof (cases xs)
    case Nil
    then show ?thesis using Cons.prems apart_middle [of z x "[]"] by simp
  next
    case (Cons y ys)
    then show ?thesis
      using IH Cons.prems(1) Cons.prems c apart_middle [of Comma "[]"] by (simp add: items_Cons apart_middle)
  qed
  then show ?case using c apart_middle [of Comma "[]"] by (simp add: items_Cons)
qed simp

lemma render_apart: "successively apart (render v)"
proof (induction v)
  case (JArr vs)
  have "successively apart (items True (map render vs) @ [RBrack])"
    by (rule apart_items) (use JArr in \<open>auto simp: is_number_def\<close>)
  then show ?case using apart_middle [of LBrack "[]"] by (simp add: render_JArr is_number_def)
next
  case (JObj ms)
  have "successively apart (member_lexemes m)" if "m \<in> set ms" for m
    using JObj that apart_middle [of Colon "[LStr (fst m)]"] by (cases m) (auto simp: member_lexemes_def is_number_def)
  then have "successively apart (items True (map member_lexemes ms) @ [RBrace])"
    by (intro apart_items) (auto simp: is_number_def)
  then show ?case using apart_middle [of LBrace "[]"] by (simp add: render_JObj is_number_def)
qed simp_all

lemma items_scanned: "list_all scanned_lexeme (items b xs) \<longleftrightarrow> (\<forall>x\<in>set xs. list_all scanned_lexeme x)"
  by (induction xs arbitrary: b) (auto simp: items_Cons)

lemma member_scanned: "list_all scanned_lexeme (member_lexemes m) \<longleftrightarrow> utf8 (fst m) \<and> list_all scanned_lexeme (render (snd m))"
  by (simp add: member_lexemes_def)

lemma render_scanned: "list_all scanned_lexeme (render v) \<longleftrightarrow> scanned v"
proof (induction v)
  case (JArr vs)
  then show ?case by (simp add: render_JArr items_scanned) (simp add: list_all_iff)
next
  case (JObj ms)
  then have "list_all scanned_lexeme (member_lexemes m) \<longleftrightarrow> (case m of (k, v) \<Rightarrow> utf8 k \<and> scanned v)" if "m \<in> set ms" for m
    using that by (cases m) (auto simp: member_scanned)
  then show ?case by (simp add: render_JObj items_scanned) (simp add: list_all_iff)
qed auto

lemma canon_scanned: "scanned (canon v) = scanned v"
proof (induction v rule: canon.induct)
  case (2 ms)
  then show ?case by (fastforce simp: list_all_iff)
qed (auto simp: list_all_iff)

lemma scanned_numbers: "scanned v \<Longrightarrow> numbers_ok v"
proof (induction v)
  case (JObj ms)
  then show ?case by (fastforce simp: list_all_iff)
qed (auto simp: list_all_iff)

lemma canon_strict: "strict_doc v \<Longrightarrow> strict_doc (canon v)"
proof (induction v rule: canon.induct)
  case (2 ms)
  let ?ms = "map (\<lambda>(k, v). (k, canon v)) ms"
  have "map fst ?ms = map fst ms" by (simp add: case_prod_beta)
  moreover have "mset (map fst (sort_key fst ?ms)) = mset (map fst ?ms)" by (simp only: mset_map mset_sort)
  ultimately have "mset (map fst (sort_key fst ?ms)) = mset (map fst ms)" by (simp only:)
  from mset_eq_imp_distinct_iff [OF this] have "distinct (map fst (sort_key fst ?ms))"
    using "2.prems" by (simp only: strict_doc.simps)
  moreover have "list_all (\<lambda>(k, v). strict_doc v) (sort_key fst ?ms)"
    using 2 by (fastforce simp: list_all_iff)
  ultimately show ?case by simp
qed (auto simp: list_all_iff)

lemma marshal_canon:
  assumes "scanned v" "scanned w" "strict_doc v" "strict_doc w" "marshal v = marshal w"
  shows "canon v = canon w"
proof -
  have "concat (map lexeme_text (render (canon v))) = concat (map lexeme_text (render (canon w)))"
    using assms scanned_numbers by (simp add: marshal_def)
  then have "render (canon v) = render (canon w)"
    using assms by (intro lexemes_unique render_apart) (simp_all add: render_scanned canon_scanned)
  with render_inj canon_strict assms(3,4) show ?thesis by blast
qed

text \<open>Documents with one canonical form differ only in the order of members.\<close>

lemma perm_map:
  "mset (map f xs) = mset (map f ys) \<Longrightarrow> \<exists>zs. mset zs = mset ys \<and> map f xs = map f zs"
proof (induction xs arbitrary: ys)
  case (Cons x xs)
  then have "f x \<in> f ` set ys" by (metis list.set_intros(1) list.set_map list.simps(9) mset_eq_setD)
  then obtain y us vs where y: "ys = us @ y # vs" "f x = f y" by (auto dest: split_list)
  with Cons.prems have "mset (map f xs) = mset (map f (us @ vs))" by simp
  from Cons.IH [OF this] obtain zs where "mset zs = mset (us @ vs)" "map f xs = map f zs" by blast
  with y have "mset (y # zs) = mset ys \<and> map f (x # xs) = map f (y # zs)" by simp
  then show ?case by blast
qed simp

fun_cases canonE: "canon w = JNull" "canon w = JBool b" "canon w = JNum n" "canon w = JStr s"

lemma canon_same_doc: "canon v = canon w \<Longrightarrow> same_doc v w"
proof (induction v arbitrary: w)
  case (JArr vs)
  from JArr.prems obtain ws where w: "w = JArr ws" "map canon vs = map canon ws" by (cases w) auto
  from w(2) JArr.IH have "list_all2 same_doc vs ws"
  proof (induction vs arbitrary: ws)
    case (Cons a vs)
    then show ?case by (cases ws) auto
  qed simp
  with w show ?case by (simp add: same_arr)
next
  case (JObj ms)
  let ?f = "\<lambda>(k, v). (k :: string, canon v)"
  from JObj.prems obtain ms'' where w: "w = JObj ms''" "sort_key fst (map ?f ms) = sort_key fst (map ?f ms'')"
    by (cases w) auto
  from w(2) have "mset (map ?f ms) = mset (map ?f ms'')" by (metis mset_sort)
  then obtain zs where z: "mset zs = mset ms''" "map ?f ms = map ?f zs" using perm_map by blast
  from z(2) JObj.IH have "list_all2 (\<lambda>m m'. fst m = fst m' \<and> same_doc (snd m) (snd m')) ms zs"
  proof (induction ms arbitrary: zs)
    case (Cons a ms)
    then show ?case by (cases zs) (fastforce split: prod.splits)+
  qed simp
  then show ?case unfolding w(1) by (rule same_obj) (rule z(1))
qed (auto dest!: sym [of _ "canon w" for w] elim: canonE)

lemma scanned_input: "map snd ls = render v \<Longrightarrow> list_all (\<lambda>(off, l). scanned_lexeme l) ls \<longleftrightarrow> scanned v"
  using render_scanned [of v] list.pred_map [of scanned_lexeme snd ls] by (simp add: comp_def case_prod_beta')

lemma digest_same_doc:
  assumes "strictDecode ls = Inr v" "strictDecode ls' = Inr w" 
    "list_all (\<lambda>(off, l). scanned_lexeme l) ls" "list_all (\<lambda>(off, l). scanned_lexeme l) ls'"
    "\<forall>s t. marshal v = Inr s \<and> marshal w = Inr t \<and> sha s = sha t \<longrightarrow> s = t"
  shows "CanonicalDigest sha v = CanonicalDigest sha w \<longleftrightarrow> same_doc v w"
proof
  have st: "strict_doc v" "strict_doc w" and sn: "scanned v" "scanned w"
    using assms(1-4) by (simp_all add: strictDecode_iff scanned_input)
  show "same_doc v w" if eq: "CanonicalDigest sha v = CanonicalDigest sha w"
  proof -
    obtain s t where m: "marshal v = Inr s" "marshal w = Inr t"
      using sn scanned_numbers by (auto simp: marshal_def)
    with eq have "sha s = sha t" by (simp add: CanonicalDigest_def)
    with m have "marshal v = Inr s \<and> marshal w = Inr t \<and> sha s = sha t" by (intro conjI)
    with assms(5) have "s = t" by (elim allE impE)
    with m have "marshal v = marshal w" by (simp only:)
    then show ?thesis by (rule canon_same_doc [OF marshal_canon [OF sn st]])
  qed
  show "CanonicalDigest sha v = CanonicalDigest sha w" if "same_doc v w"
    using that st marshal_same_doc [of v w] by (simp add: CanonicalDigest_def)
qed

section \<open>Properties\<close>

text \<open>
  C13. The request digest identifies the document: for two documents decoded from what the scanner
  yields, and a hash that does not collide on their canonical texts, the digests are equal exactly when the
  documents differ at most in the order of members. A retry in another formatting is the same command, and a
  changed body under the same command identity is another one.
\<close>

theorem digest_identifies_document:
  assumes "strictDecode ls = Inr v" "strictDecode ls' = Inr w" 
    "list_all (\<lambda>(off, l). scanned_lexeme l) ls" "list_all (\<lambda>(off, l). scanned_lexeme l) ls'"
    "\<forall>s t. marshal v = Inr s \<and> marshal w = Inr t \<and> sha s = sha t \<longrightarrow> s = t"
  shows "CanonicalDigest sha v = CanonicalDigest sha w \<longleftrightarrow> same_doc v w"
  by (rule digest_same_doc [OF assms])

theorem digest_identifies_document_witness:
  "CanonicalDigest (\<lambda>s. s) (JArr [JStr ''a'', JStr ''b'']) \<noteq> CanonicalDigest (\<lambda>s. s) (JArr [JStr ''a,b''])"
proof -
  let ?v = "JArr [JStr ''a'', JStr ''b'']" and ?w = "JArr [JStr ''a,b'']"
  have d: "strictDecode (map (Pair 0) (render ?v)) = Inr ?v" "strictDecode (map (Pair 0) (render ?w)) = Inr ?w"
    by (simp_all add: strictDecode_iff comp_def)
  have u: "list_all (\<lambda>(off, l). scanned_lexeme l) (map (Pair (0::nat)) (render ?v))"
    "list_all (\<lambda>(off, l). scanned_lexeme l) (map (Pair (0::nat)) (render ?w))" by code_simp+
  have "\<not> same_doc ?v ?w" by (auto elim: same_doc.cases)
  with digest_identifies_document [OF d u, of "\<lambda>s. s"] show ?thesis by blast
qed

end
