(* ===== verification/Config.thy ===== *)
theory Config
  imports Complex_Main Auth Workload
begin

text \<open>
  The configuration snapshot of internal/config/config.go: the sections, the defaults, the allowed
  environment overrides (applyEnv), LoadFrom and the validation (validate, validateIdentity,
  Resolved, ClientTLS.validate, OIDC.validate).

  Durations are integers of nanoseconds. The layered key-value store of koanf is a map from
  dotted keys to values; the YAML file and the decoding into the structure are parameters of
  LoadFrom, url.Parse is the parameter \<open>parse_url\<close>. An error of the validation is represented
  by the key it names.
\<close>

section \<open>The snapshot\<close>

abbreviation ms :: int where "ms \<equiv> 1000000"
abbreviation seconds :: int where "seconds \<equiv> 1000000000"
abbreviation minutes :: int where "minutes \<equiv> 60000000000"
abbreviation hours :: int where "hours \<equiv> 3600000000000"

definition MaxShutdownTimeout :: int where
  "MaxShutdownTimeout = 5 * minutes"

record http_section =
  Listen :: string
  ReadHeaderTimeout :: int
  BodyLimitBytes :: int
  ShutdownTimeout :: int

record mtls_files =
  mtls_cert :: string
  mtls_key :: string
  mtls_ca :: string
  mtls_server_name :: string

record client_identity =
  ci_mode :: string
  ci_mtls :: mtls_files

record owner_section =
  owner_address :: string
  owner_timeout :: int
  owner_identity :: client_identity

record identity_section =
  id_cert :: string
  id_key :: string
  id_ca :: string
  ReloadInterval :: int

record client_tls =
  tls_mode :: string
  tls_ca :: string
  tls_cert :: string
  tls_key :: string
  tls_server_name :: string

record oidc_section =
  oidc_issuer :: string
  oidc_audience :: string
  oidc_algorithms :: "string list"
  oidc_clock_skew :: int
  oidc_ca :: string
  oidc_timeout :: int
  oidc_claims :: claims

record auth_section =
  auth_mode :: string
  PrincipalsFile :: string
  OIDC :: oidc_section

record sse_section =
  HeartbeatInterval :: int
  FrameBuffer :: int
  SlowConsumerGrace :: int
  WriteTimeout :: int
  MaxStreams :: int
  MaxStreamsPerPrincipal :: int
  RetryBase :: int

text \<open>A float64: a comparison with NaN is false.\<close>

datatype float64 = NaN | PosInf | NegInf | Fin rat

definition float_less :: "float64 \<Rightarrow> float64 \<Rightarrow> bool" where
  "float_less a b =
     (case (a, b) of
        (Fin x, Fin y) \<Rightarrow> x < y
      | (NegInf, Fin y) \<Rightarrow> True | (NegInf, PosInf) \<Rightarrow> True
      | (Fin x, PosInf) \<Rightarrow> True
      | _ \<Rightarrow> False)"

record telemetry_section =
  OTLPEndpoint :: string
  SampleRatio :: float64
  MetricsListen :: string
  OTLPTLS :: client_tls

record config =
  dev_enabled :: bool
  Identity :: identity_section
  Telemetry :: telemetry_section
  HTTP :: http_section
  control_address :: string
  control_identity :: client_identity
  AuthCfg :: auth_section
  SSE :: sse_section
  TransferWindow :: int
  PreparationProfile :: string
  Knowledge :: owner_section
  MCP :: owner_section

section \<open>Validation\<close>

text \<open>A rule that appends its error when the condition holds.\<close>

definition rule :: "bool \<Rightarrow> string \<Rightarrow> string list" where
  "rule bad key = (if bad then [key] else [])"

lemma rule_Nil [simp]: "rule bad key = [] \<longleftrightarrow> \<not> bad"
  by (simp add: rule_def)

definition outside :: "int \<Rightarrow> int \<Rightarrow> int \<Rightarrow> bool" where
  "outside lo hi x \<longleftrightarrow> x < lo \<or> x > hi"

definition signingAlgorithms :: "string \<Rightarrow> bool" where
  "signingAlgorithms a \<longleftrightarrow>
     a \<in> {''RS256'', ''RS384'', ''RS512'', ''ES256'', ''ES384'', ''ES512'', ''PS256'', ''PS384'', ''PS512'', ''EdDSA''}"

definition oidc_validate :: "(string \<Rightarrow> url option) \<Rightarrow> bool \<Rightarrow> oidc_section \<Rightarrow> string list" where
  "oidc_validate parse_url development s =
     (if oidc_issuer s = [] then [''auth.oidc.issuer'']
      else (case parse_url (oidc_issuer s) of
              None \<Rightarrow> [''auth.oidc.issuer'']
            | Some u \<Rightarrow>
                if Host u = [] \<or> HasUser u \<or> RawQuery u \<noteq> [] \<or> Fragment u \<noteq> [] \<or> (Scheme u \<noteq> ''https'' \<and> Scheme u \<noteq> ''http'')
                then [''auth.oidc.issuer'']
                else rule (Scheme u = ''http'' \<and> \<not> development) ''auth.oidc.issuer'')) @
     rule (oidc_audience s = []) ''auth.oidc.audience'' @
     rule (oidc_algorithms s = []) ''auth.oidc.algorithms'' @
     concat (map (\<lambda>a. rule (\<not> signingAlgorithms a) ''auth.oidc.algorithms'') (oidc_algorithms s)) @
     rule (outside 0 (5 * minutes) (oidc_clock_skew s)) ''auth.oidc.clock_skew'' @
     rule (outside (1 * seconds) (1 * minutes) (oidc_timeout s)) ''auth.oidc.timeout'' @
     rule (Tenant (oidc_claims s) = [] \<or> Actor (oidc_claims s) = []) ''auth.oidc.claims''"

definition client_tls_validate :: "string \<Rightarrow> bool \<Rightarrow> client_tls \<Rightarrow> string list" where
  "client_tls_validate nm development t =
     (if tls_mode t = ''development'' then rule (\<not> development) (nm @ ''.mode'')
      else if tls_mode t = ''tls'' then rule (tls_ca t = []) (nm @ ''.ca_file'')
      else if tls_mode t = ''mtls''
      then rule (tls_ca t = [] \<or> tls_cert t = [] \<or> tls_key t = []) (nm @ ''.ca_file, cert_file and key_file'')
      else [nm @ ''.mode''])"

definition Resolved :: "config \<Rightarrow> client_identity \<Rightarrow> mtls_files" where
  "Resolved c ci =
     (let m = ci_mtls ci in
      m\<lparr>mtls_cert := (if mtls_cert m = [] then id_cert (Identity c) else mtls_cert m),
        mtls_key := (if mtls_key m = [] then id_key (Identity c) else mtls_key m),
        mtls_ca := (if mtls_ca m = [] then id_ca (Identity c) else mtls_ca m)\<rparr>)"

definition validate_client :: "config \<Rightarrow> string \<times> client_identity \<Rightarrow> string list" where
  "validate_client c nci =
     (let (nm, ci) = nci; m = Resolved c ci in
      if ci_mode ci = ''mtls''
      then rule (mtls_cert m = [] \<or> mtls_key m = [] \<or> mtls_ca m = []) (nm @ ''.identity.mtls'')
      else if ci_mode ci = ''development'' then rule (\<not> dev_enabled c) (nm @ ''.identity.mode'')
      else [nm @ ''.identity.mode''])"

text \<open>The clients of a configuration: control always, an owner when it is placed.\<close>

definition config_clients :: "config \<Rightarrow> (string \<times> client_identity) list" where
  "config_clients c =
     [(''control'', control_identity c)] @
     (if owner_address (Knowledge c) \<noteq> [] then [(''knowledge'', owner_identity (Knowledge c))] else []) @
     (if owner_address (MCP c) \<noteq> [] then [(''mcp'', owner_identity (MCP c))] else [])"

definition validateIdentity :: "config \<Rightarrow> string list" where
  "validateIdentity c =
     rule (outside (100 * ms) (1 * hours) (ReloadInterval (Identity c))) ''identity.reload_interval'' @
     concat (map (validate_client c) (config_clients c)) @
     (if OTLPEndpoint (Telemetry c) \<noteq> []
      then client_tls_validate ''telemetry.otlp_tls'' (dev_enabled c) (OTLPTLS (Telemetry c)) else [])"

definition validate_sse :: "sse_section \<Rightarrow> string list" where
  "validate_sse s =
     rule (outside (1 * seconds) (5 * minutes) (HeartbeatInterval s)) ''sse.heartbeat_interval'' @
     rule (outside 1 4096 (FrameBuffer s)) ''sse.frame_buffer'' @
     rule (outside (100 * ms) (1 * minutes) (SlowConsumerGrace s)) ''sse.slow_consumer_grace'' @
     rule (outside (100 * ms) (1 * minutes) (WriteTimeout s)) ''sse.write_timeout'' @
     rule (WriteTimeout s > SlowConsumerGrace s + HeartbeatInterval s) ''sse.write_timeout'' @
     rule (outside 1 65536 (MaxStreams s)) ''sse.max_streams'' @
     rule (outside 1 (MaxStreams s) (MaxStreamsPerPrincipal s)) ''sse.max_streams_per_principal'' @
     rule (outside (1 * seconds) (1 * minutes) (RetryBase s)) ''sse.retry_base''"

definition validate_auth :: "(string \<Rightarrow> url option) \<Rightarrow> config \<Rightarrow> string list" where
  "validate_auth parse_url c =
     (if auth_mode (AuthCfg c) = ''oidc'' then oidc_validate parse_url (dev_enabled c) (OIDC (AuthCfg c))
      else if auth_mode (AuthCfg c) = ''fixture''
      then rule (\<not> dev_enabled c) ''auth.mode'' @ rule (PrincipalsFile (AuthCfg c) = []) ''auth.principals_file''
      else [''auth.mode''])"

definition validate :: "(string \<Rightarrow> url option) \<Rightarrow> config \<Rightarrow> string list" where
  "validate parse_url c =
     rule (Listen (HTTP c) = []) ''http.listen'' @
     rule (control_address c = []) ''control.address'' @
     rule (float_less (SampleRatio (Telemetry c)) (Fin 0) \<or> float_less (Fin 1) (SampleRatio (Telemetry c))) ''telemetry.sample_ratio'' @
     rule (MetricsListen (Telemetry c) \<noteq> [] \<and> MetricsListen (Telemetry c) = Listen (HTTP c)) ''telemetry.metrics_listen'' @
     rule (outside (1 * seconds) (10 * minutes) (owner_timeout (Knowledge c))) ''knowledge.timeout'' @
     rule (outside (1 * seconds) (10 * minutes) (owner_timeout (MCP c))) ''mcp.timeout'' @
     rule (outside (1 * seconds) (1 * minutes) (ReadHeaderTimeout (HTTP c))) ''http.read_header_timeout'' @
     rule (outside 1024 16777216 (BodyLimitBytes (HTTP c))) ''http.body_limit_bytes'' @
     rule (outside (1 * seconds) MaxShutdownTimeout (ShutdownTimeout (HTTP c))) ''http.shutdown_timeout'' @
     validate_auth parse_url c @
     validate_sse (SSE c) @
     rule (PreparationProfile c = []) ''preparations.profile'' @
     rule (outside (1 * minutes) (24 * hours) (TransferWindow c)) ''artifacts.transfer_window'' @
     validateIdentity c"

section \<open>Layers\<close>

definition env_prefix :: string where "env_prefix = ''ANVILKIT_API_''"
definition EnvConfigFile :: string where "EnvConfigFile = ''ANVILKIT_API_CONFIG''"

definition envOverrides :: "(string \<times> string) list" where
  "envOverrides =
    [(''ANVILKIT_API_LISTEN'', ''http.listen''),
     (''ANVILKIT_API_CONTROL_ADDRESS'', ''control.address''),
     (''ANVILKIT_API_AUTH_MODE'', ''auth.mode''),
     (''ANVILKIT_API_PRINCIPALS_FILE'', ''auth.principals_file''),
     (''ANVILKIT_API_AUTH_OIDC_ISSUER'', ''auth.oidc.issuer''),
     (''ANVILKIT_API_AUTH_OIDC_AUDIENCE'', ''auth.oidc.audience''),
     (''ANVILKIT_API_AUTH_OIDC_CA_FILE'', ''auth.oidc.ca_file''),
     (''ANVILKIT_API_KNOWLEDGE_ADDRESS'', ''knowledge.address''),
     (''ANVILKIT_API_MCP_ADDRESS'', ''mcp.address''),
     (''ANVILKIT_API_TELEMETRY_OTLP_ENDPOINT'', ''telemetry.otlp_endpoint''),
     (''ANVILKIT_API_TELEMETRY_METRICS_LISTEN'', ''telemetry.metrics_listen''),
     (''ANVILKIT_API_IDENTITY_CERT_FILE'', ''identity.cert_file''),
     (''ANVILKIT_API_IDENTITY_KEY_FILE'', ''identity.key_file''),
     (''ANVILKIT_API_IDENTITY_CA_FILE'', ''identity.ca_file'')]"

text \<open>A layered store: \<open>'v\<close> is the type of values, \<open>text\<close> makes one of an override's text.\<close>

fun apply_env ::
  "(string \<Rightarrow> 'v) \<Rightarrow> (string \<rightharpoonup> 'v) \<Rightarrow> string list \<Rightarrow> string list \<Rightarrow> (string \<rightharpoonup> 'v) \<times> string list" where
  "apply_env text k unknown [] = (k, unknown)"
| "apply_env text k unknown (kv # rest) =
     (let name = fst (Cut kv CHR ''=''); value = fst (snd (Cut kv CHR ''='')) in
      if \<not> HasPrefix name env_prefix \<or> name = EnvConfigFile then apply_env text k unknown rest
      else (case map_of envOverrides name of
              None \<Rightarrow> apply_env text k (unknown @ [name]) rest
            | Some key \<Rightarrow> apply_env text (k(key \<mapsto> text value)) unknown rest))"

definition applyEnv ::
  "(string \<Rightarrow> 'v) \<Rightarrow> (string \<rightharpoonup> 'v) \<Rightarrow> string list \<Rightarrow> string list + (string \<rightharpoonup> 'v)" where
  "applyEnv text k environ =
     (let (k', unknown) = apply_env text k [] environ in
      if unknown \<noteq> [] then Inl (sort unknown) else Inr k')"

datatype config_err = FileErr string | UnknownVariables "string list" | DecodeErr string | Invalid "string list"

definition LoadFrom ::
  "(string \<Rightarrow> 'v) \<Rightarrow> (string \<rightharpoonup> 'v) \<Rightarrow> string + (string \<rightharpoonup> 'v) \<Rightarrow> ((string \<rightharpoonup> 'v) \<Rightarrow> string + config) \<Rightarrow>
   (string \<Rightarrow> url option) \<Rightarrow> string list \<Rightarrow> config_err + config" where
  "LoadFrom text defaults file decode parse_url environ =
     (case file of
        Inl m \<Rightarrow> Inl (FileErr m)
      | Inr f \<Rightarrow>
          (case applyEnv text (defaults ++ f) environ of
             Inl names \<Rightarrow> Inl (UnknownVariables names)
           | Inr k \<Rightarrow>
               (case decode k of
                  Inl m \<Rightarrow> Inl (DecodeErr m)
                | Inr c \<Rightarrow> if validate parse_url c = [] then Inr c else Inl (Invalid (validate parse_url c)))))"

definition config_path :: "string \<Rightarrow> string" where
  "config_path variable = (if variable = [] then ''config.yaml'' else variable)"

subsection \<open>Precedence\<close>

text \<open>The variables of an environment the service looks at, and the last value of one.\<close>

definition env_name :: "string \<Rightarrow> string" where
  "env_name kv = fst (Cut kv CHR ''='')"

definition env_value :: "string \<Rightarrow> string" where
  "env_value kv = fst (snd (Cut kv CHR ''=''))"

definition considered :: "string \<Rightarrow> bool" where
  "considered nm \<longleftrightarrow> HasPrefix nm env_prefix \<and> nm \<noteq> EnvConfigFile"

definition override_of :: "string \<Rightarrow> string list \<Rightarrow> string option" where
  "override_of key environ =
     map_option env_value (find (\<lambda>kv. considered (env_name kv) \<and> map_of envOverrides (env_name kv) = Some key) (rev environ))"

lemma apply_env_step:
  "apply_env text k unknown (kv # rest) =
     (if \<not> considered (env_name kv) then apply_env text k unknown rest
      else (case map_of envOverrides (env_name kv) of
              None \<Rightarrow> apply_env text k (unknown @ [env_name kv]) rest
            | Some key \<Rightarrow> apply_env text (k(key \<mapsto> text (env_value kv))) unknown rest))"
  unfolding apply_env.simps considered_def env_name_def env_value_def Let_def by simp

declare apply_env.simps(2) [simp del]

lemma apply_env_append:
  "apply_env text k unknown (env @ env') =
     (let (k', unknown') = apply_env text k unknown env in apply_env text k' unknown' env')"
  by (induction env arbitrary: k unknown) (auto simp: apply_env_step split: option.splits)

lemma apply_env_unknown:
  "snd (apply_env text k unknown env) =
     unknown @ filter (\<lambda>nm. considered nm \<and> map_of envOverrides nm = None) (map env_name env)"
  by (induction env arbitrary: k unknown) (auto simp: apply_env_step split: option.splits)

lemma apply_env_value:
  "fst (apply_env text k unknown env) key =
     (case override_of key env of Some v \<Rightarrow> Some (text v) | None \<Rightarrow> k key)"
proof (induction env rule: rev_induct)
  case (snoc kv env)
  then show ?case
    by (auto simp: apply_env_append apply_env_step override_of_def split: option.splits prod.splits)
qed (simp add: override_of_def)

lemma applyEnv_Inr:
  "applyEnv text k env = Inr k' \<longleftrightarrow>
     (\<forall>kv\<in>set env. considered (env_name kv) \<longrightarrow> env_name kv \<in> fst ` set envOverrides) \<and>
     k' = (\<lambda>key. case override_of key env of Some v \<Rightarrow> Some (text v) | None \<Rightarrow> k key)"
proof -
  have "snd (apply_env text k [] env) = [] \<longleftrightarrow>
      (\<forall>kv\<in>set env. considered (env_name kv) \<longrightarrow> env_name kv \<in> fst ` set envOverrides)"
    by (auto simp: apply_env_unknown filter_empty_conv map_of_eq_None_iff)
  moreover have "fst (apply_env text k [] env) = (\<lambda>key. case override_of key env of Some v \<Rightarrow> Some (text v) | None \<Rightarrow> k key)"
    using apply_env_value by blast
  ultimately show ?thesis by (auto simp: applyEnv_def split: prod.splits)
qed

section \<open>What an accepted configuration guarantees\<close>

lemma validate_sse_ok:
  "validate_sse s = [] \<longleftrightarrow>
     1 * seconds \<le> HeartbeatInterval s \<and> HeartbeatInterval s \<le> 5 * minutes \<and> 1 \<le> FrameBuffer s \<and> FrameBuffer s \<le> 4096 \<and>
     100 * ms \<le> SlowConsumerGrace s \<and> SlowConsumerGrace s \<le> 1 * minutes \<and>
     100 * ms \<le> WriteTimeout s \<and> WriteTimeout s \<le> 1 * minutes \<and>
     WriteTimeout s \<le> SlowConsumerGrace s + HeartbeatInterval s \<and>
     1 \<le> MaxStreams s \<and> MaxStreams s \<le> 65536 \<and> 1 \<le> MaxStreamsPerPrincipal s \<and> MaxStreamsPerPrincipal s \<le> MaxStreams s \<and>
     1 * seconds \<le> RetryBase s \<and> RetryBase s \<le> 1 * minutes"
  by (auto simp: validate_sse_def outside_def)

lemma validate_parts:
  assumes "validate parse_url c = []"
  shows "validate_sse (SSE c) = []" "validate_auth parse_url c = []" "validateIdentity c = []"
    and "Listen (HTTP c) \<noteq> []" "control_address c \<noteq> []" "PreparationProfile c \<noteq> []"
    and "1 * seconds \<le> ShutdownTimeout (HTTP c)" "ShutdownTimeout (HTTP c) \<le> MaxShutdownTimeout"
    and "1024 \<le> BodyLimitBytes (HTTP c)" "BodyLimitBytes (HTTP c) \<le> 16777216"
    and "1 * minutes \<le> TransferWindow c" "TransferWindow c \<le> 24 * hours"
  using assms by (simp_all add: validate_def outside_def)

lemma validate_client_ok:
  assumes "validateIdentity c = []" "(nm, ci) \<in> set (config_clients c)"
  shows "(ci_mode ci = ''development'' \<and> dev_enabled c) \<or>
    (ci_mode ci = ''mtls'' \<and> mtls_cert (Resolved c ci) \<noteq> [] \<and> mtls_key (Resolved c ci) \<noteq> [] \<and> mtls_ca (Resolved c ci) \<noteq> [])"
proof -
  have "validate_client c (nm, ci) = []"
    using assms unfolding validateIdentity_def by auto
  then show ?thesis by (auto simp: validate_client_def Let_def split: if_splits)
qed

lemma oidc_validate_ok:
  assumes "oidc_validate parse_url dev s = []"
  shows "\<exists>u. parse_url (oidc_issuer s) = Some u \<and> Host u \<noteq> [] \<and> \<not> HasUser u \<and>
      (Scheme u = ''https'' \<or> (Scheme u = ''http'' \<and> dev))"
    and "oidc_algorithms s \<noteq> [] \<and> (\<forall>a\<in>set (oidc_algorithms s). signingAlgorithms a)"
    and "oidc_issuer s \<noteq> [] \<and> oidc_audience s \<noteq> [] \<and> Tenant (oidc_claims s) \<noteq> [] \<and> Actor (oidc_claims s) \<noteq> []"
    and "0 \<le> oidc_clock_skew s \<and> oidc_clock_skew s \<le> 5 * minutes"
  using assms unfolding oidc_validate_def append_is_Nil_conv
  by (auto simp: outside_def split: if_split_asm option.split_asm)

section \<open>The baseline\<close>

text \<open>
  The configuration the defaults decode to: a key without a default has the zero value of its
  field. \<open>place\<close> sets the placements a deployment has to name.
\<close>

definition mtls_identity :: client_identity where
  "mtls_identity = \<lparr>ci_mode = ''mtls'', ci_mtls = \<lparr>mtls_cert = [], mtls_key = [], mtls_ca = [], mtls_server_name = []\<rparr>\<rparr>"

definition baseline :: config where
  "baseline =
     \<lparr>dev_enabled = False,
      Identity = \<lparr>id_cert = [], id_key = [], id_ca = [], ReloadInterval = 5 * seconds\<rparr>,
      Telemetry = \<lparr>OTLPEndpoint = [], SampleRatio = Fin 1, MetricsListen = [], OTLPTLS = \<lparr>tls_mode = ''tls'', tls_ca = [], tls_cert = [], tls_key = [], tls_server_name = []\<rparr>\<rparr>,
      HTTP = \<lparr>Listen = ''127.0.0.1:9100'', ReadHeaderTimeout = 10 * seconds, BodyLimitBytes = 262144, ShutdownTimeout = 20 * seconds\<rparr>,
      control_address = [], control_identity = mtls_identity,
      AuthCfg = \<lparr>auth_mode = ''oidc'', PrincipalsFile = [], OIDC = \<lparr>oidc_issuer = [], oidc_audience = ''anvilkit-agent-api'',
        oidc_algorithms = [''RS256'', ''ES256''], oidc_clock_skew = 30 * seconds, oidc_ca = [], oidc_timeout = 10 * seconds,
        oidc_claims = \<lparr>Tenant = ''tenant'', Project = ''project'', Actor = ''sub'', RolesPath = ''roles''\<rparr>\<rparr>\<rparr>,
      SSE = \<lparr>HeartbeatInterval = 15 * seconds, FrameBuffer = 64, SlowConsumerGrace = 5 * seconds, WriteTimeout = 10 * seconds,
        MaxStreams = 512, MaxStreamsPerPrincipal = 32, RetryBase = 3 * seconds\<rparr>,
      TransferWindow = 15 * minutes, PreparationProfile = ''preparation-v1'',
      Knowledge = \<lparr>owner_address = [], owner_timeout = 30 * seconds, owner_identity = mtls_identity\<rparr>,
      MCP = \<lparr>owner_address = [], owner_timeout = 60 * seconds, owner_identity = mtls_identity\<rparr>\<rparr>"

definition place_config :: "string \<Rightarrow> string \<Rightarrow> string \<times> string \<times> string \<Rightarrow> config \<Rightarrow> config" where
  "place_config control issuer fs c =
     c\<lparr>control_address := control, AuthCfg := (AuthCfg c)\<lparr>OIDC := (OIDC (AuthCfg c))\<lparr>oidc_issuer := issuer\<rparr>\<rparr>,
       Identity := (Identity c)\<lparr>id_cert := fst fs, id_key := fst (snd fs), id_ca := snd (snd fs)\<rparr>\<rparr>"

lemmas validate_defs = validate_def float_less_def outside_def MaxShutdownTimeout_def validate_auth_def oidc_validate_def
  signingAlgorithms_def validate_sse_def validateIdentity_def config_clients_def validate_client_def Resolved_def Let_def

lemma baseline_errors:
  "validate parse_url (place_config control issuer fs baseline) =
     rule (control = []) ''control.address'' @
     (if issuer = [] then [''auth.oidc.issuer'']
      else (case parse_url issuer of
              None \<Rightarrow> [''auth.oidc.issuer'']
            | Some u \<Rightarrow> rule (Host u = [] \<or> HasUser u \<or> RawQuery u \<noteq> [] \<or> Fragment u \<noteq> [] \<or> Scheme u \<noteq> ''https'') ''auth.oidc.issuer'')) @
     rule (fst fs = [] \<or> fst (snd fs) = [] \<or> snd (snd fs) = []) ''control.identity.mtls''"
  by (simp add: validate_defs baseline_def place_config_def mtls_identity_def rule_def split: option.split)

section \<open>Properties\<close>

text \<open>
  C33. Every value of a loaded configuration comes from the last allowed environment override of its
  key, else from the file, else from the defaults, and the environment held no other variable
  with the service's prefix than the allowed overrides and the file's own.
\<close>

theorem load_precedence:
  assumes "LoadFrom text defaults (Inr f) decode parse_url environ = Inr c"
  shows "decode (\<lambda>key. case override_of key environ of
            Some v \<Rightarrow> Some (text v)
          | None \<Rightarrow> (case f key of Some v \<Rightarrow> Some v | None \<Rightarrow> defaults key)) = Inr c
    \<and> (\<forall>kv\<in>set environ. considered (env_name kv) \<longrightarrow> env_name kv \<in> fst ` set envOverrides)
    \<and> validate parse_url c = []"
proof -
  from assms obtain k where k: "applyEnv text (defaults ++ f) environ = Inr k" "decode k = Inr c" "validate parse_url c = []"
    by (auto simp: LoadFrom_def split: sum.splits if_splits)
  moreover have "k = (\<lambda>key. case override_of key environ of Some v \<Rightarrow> Some (text v)
          | None \<Rightarrow> (case f key of Some v \<Rightarrow> Some v | None \<Rightarrow> defaults key))"
    using k(1) by (auto simp: applyEnv_Inr map_add_def)
  ultimately show ?thesis by (auto simp: applyEnv_Inr)
qed

definition demo_config :: config where
  "demo_config = place_config ''control:9000'' ''https://i'' (''c'', ''k'', ''a'') baseline"

definition demo_url :: "string \<Rightarrow> url option" where
  "demo_url s = Some \<lparr>Scheme = ''https'', HasUser = False, Opaque = [], Host = ''i'', Path = [], RawQuery = [], Fragment = []\<rparr>"

text \<open>The default values with a placed control, an issuer and an identity are a valid configuration.\<close>

lemma demo_validate: "validate demo_url demo_config = []"
  by (simp add: demo_config_def baseline_errors demo_url_def)

theorem load_precedence_witness:
  "\<exists>c. LoadFrom id Map.empty (Inr Map.empty) (\<lambda>k. if k ''http.listen'' = Some '':1'' then Inr demo_config else Inl []) demo_url [''ANVILKIT_API_LISTEN=:1''] = Inr c
     \<and> validate demo_url c = []"
proof -
  let ?d = "\<lambda>k :: string \<rightharpoonup> string. if k ''http.listen'' = Some '':1'' then Inr demo_config else Inl []"
  have "applyEnv id Map.empty [''ANVILKIT_API_LISTEN=:1''] = Inr (Map.empty(''http.listen'' \<mapsto> '':1''))"
    by (simp add: applyEnv_def apply_env_step considered_def env_name_def env_value_def env_prefix_def EnvConfigFile_def HasPrefix_def envOverrides_def)
  then have l: "LoadFrom id Map.empty (Inr Map.empty) ?d demo_url [''ANVILKIT_API_LISTEN=:1''] = Inr demo_config"
    by (simp add: LoadFrom_def demo_validate)
  from load_precedence [OF this] l show ?thesis by blast
qed

text \<open>
  C19. An accepted configuration uses a plaintext or development transport or identity only under
  the top-level guard: every client is mtls with its three files, the verifier an https issuer with
  asymmetric algorithms only, and a placed collector TLS, unless development.enabled is set.
\<close>

theorem no_plaintext_without_guard:
  assumes "validate parse_url c = []" "\<not> dev_enabled c"
  shows "(\<forall>(nm, ci)\<in>set (config_clients c). ci_mode ci = ''mtls'' \<and> mtls_cert (Resolved c ci) \<noteq> [] \<and> mtls_key (Resolved c ci) \<noteq> [] \<and> mtls_ca (Resolved c ci) \<noteq> [])
    \<and> auth_mode (AuthCfg c) = ''oidc''
    \<and> (\<exists>u. parse_url (oidc_issuer (OIDC (AuthCfg c))) = Some u \<and> Scheme u = ''https'' \<and> Host u \<noteq> [])
    \<and> (\<forall>a\<in>set (oidc_algorithms (OIDC (AuthCfg c))). signingAlgorithms a)
    \<and> (OTLPEndpoint (Telemetry c) \<noteq> [] \<longrightarrow> tls_mode (OTLPTLS (Telemetry c)) \<in> {''tls'', ''mtls''} \<and> tls_ca (OTLPTLS (Telemetry c)) \<noteq> [])"
proof -
  note parts = validate_parts [OF assms(1)]
  have auth: "auth_mode (AuthCfg c) = ''oidc''" "oidc_validate parse_url False (OIDC (AuthCfg c)) = []"
    using parts(2) assms(2) by (auto simp: validate_auth_def split: if_splits)
  have tls: "OTLPEndpoint (Telemetry c) \<noteq> [] \<longrightarrow> client_tls_validate ''telemetry.otlp_tls'' False (OTLPTLS (Telemetry c)) = []"
    using parts(3) assms(2) by (auto simp: validateIdentity_def)
  then have "OTLPEndpoint (Telemetry c) \<noteq> [] \<longrightarrow> tls_mode (OTLPTLS (Telemetry c)) \<in> {''tls'', ''mtls''} \<and> tls_ca (OTLPTLS (Telemetry c)) \<noteq> []"
    by (auto simp: client_tls_validate_def split: if_splits)
  moreover have "\<forall>(nm, ci)\<in>set (config_clients c). ci_mode ci = ''mtls'' \<and> mtls_cert (Resolved c ci) \<noteq> [] \<and> mtls_key (Resolved c ci) \<noteq> [] \<and> mtls_ca (Resolved c ci) \<noteq> []"
    using validate_client_ok [OF parts(3)] assms(2) by blast
  ultimately show ?thesis using auth oidc_validate_ok [OF auth(2)] by auto
qed

theorem no_plaintext_without_guard_witness:
  "auth_mode (AuthCfg demo_config) = ''oidc'' \<and> (\<exists>u. demo_url (oidc_issuer (OIDC (AuthCfg demo_config))) = Some u \<and> Scheme u = ''https'')"
proof -
  have "\<not> dev_enabled demo_config" by (simp add: demo_config_def place_config_def baseline_def)
  from no_plaintext_without_guard [OF demo_validate this] show ?thesis by blast
qed

text \<open>
  The defaults alone are refused, for exactly the three placements they leave open: the
  address of Control, the issuer and the process's identity files. Naming these, and nothing else,
  makes a configuration that is accepted, with the development guard off.
\<close>

theorem defaults_need_placement:
  "validate parse_url baseline = [''control.address'', ''auth.oidc.issuer'', ''control.identity.mtls''] \<and>
   (validate parse_url (place_config control issuer (cert, key, ca) baseline) = [] \<longleftrightarrow>
      control \<noteq> [] \<and> cert \<noteq> [] \<and> key \<noteq> [] \<and> ca \<noteq> [] \<and> issuer \<noteq> [] \<and>
      (\<exists>u. parse_url issuer = Some u \<and> Scheme u = ''https'' \<and> Host u \<noteq> [] \<and> \<not> HasUser u \<and> RawQuery u = [] \<and> Fragment u = [])) \<and>
   \<not> dev_enabled (place_config control issuer (cert, key, ca) baseline)"
proof -
  have "place_config [] [] ([], [], []) baseline = baseline" by (simp add: place_config_def baseline_def)
  then have "validate parse_url baseline = [''control.address'', ''auth.oidc.issuer'', ''control.identity.mtls'']"
    using baseline_errors [of parse_url "[]" "[]" "([], [], [])"] by (simp add: rule_def)
  moreover have "\<not> dev_enabled (place_config control issuer (cert, key, ca) baseline)"
    by (simp add: place_config_def baseline_def)
  moreover have "validate parse_url (place_config control issuer (cert, key, ca) baseline) = [] \<longleftrightarrow>
      control \<noteq> [] \<and> cert \<noteq> [] \<and> key \<noteq> [] \<and> ca \<noteq> [] \<and> issuer \<noteq> [] \<and>
      (\<exists>u. parse_url issuer = Some u \<and> Scheme u = ''https'' \<and> Host u \<noteq> [] \<and> \<not> HasUser u \<and> RawQuery u = [] \<and> Fragment u = [])"
    unfolding baseline_errors by (cases "parse_url issuer") auto
  ultimately show ?thesis by blast
qed

end
