(* ===== verification/Bootstrap.thy ===== *)
theory Bootstrap
  imports Config Trust "HOL-Library.Sublist"
begin

text \<open>
  The composition of the process: internal/bootstrap/identity.go (identities: one reloader for the
  process's own files, the transport credentials of every client) and the constructors of
  module.go and telemetry.go that use a transport (control client, newGateways, newTracer,
  newVerifier, ServerOptions). \<open>mk\<close> is identity.New on a file set (Trust.New with the file
  system and the clock of that moment), \<open>read_pool\<close> the pool of a CA bundle file, dialing is a
  library call that keeps the transport it is given.
\<close>

section \<open>Identities\<close>

record 'r identities =
  started :: "(files \<times> 'r) list"
  own :: "nat option"

definition no_identities :: "'r identities" where
  "no_identities = \<lparr>started = [], own = None\<rparr>"

definition own_files :: "config \<Rightarrow> files" where
  "own_files c = \<lparr>CertFile = id_cert (Identity c), KeyFile = id_key (Identity c), CAFile = id_ca (Identity c)\<rparr>"

text \<open>A reloader is its place in the list of started ones.\<close>

definition ids_reloader ::
  "(files \<Rightarrow> string + 'r) \<Rightarrow> config \<Rightarrow> files \<Rightarrow> 'r identities \<Rightarrow> (string + nat) \<times> 'r identities" where
  "ids_reloader mk c f ids =
     (if f = own_files c \<and> own ids \<noteq> None then (Inr (the (own ids)), ids)
      else (case mk f of
              Inl m \<Rightarrow> (Inl m, ids)
            | Inr r \<Rightarrow>
                let n = length (started ids); ids' = ids\<lparr>started := started ids @ [(f, r)]\<rparr>
                in (Inr n, if f = own_files c then ids'\<lparr>own := Some n\<rparr> else ids')))"

datatype transport = Insecure | ServerTLS "string list" string | Mutual nat string

definition NewClientCredentials :: "nat \<Rightarrow> string \<Rightarrow> string + transport" where
  "NewClientCredentials r serverName =
     (if serverName = [] then Inl ''identity: server_name is required for hostname verification'' else Inr (Mutual r serverName))"

text \<open>A call that returns an error prefixed with the connection's name.\<close>

definition named :: "string \<Rightarrow> string + 'a \<Rightarrow> string + 'a" where
  "named nm r = (case r of Inl m \<Rightarrow> Inl (nm @ '': '' @ m) | Inr v \<Rightarrow> Inr v)"

definition mtls_client ::
  "(files \<Rightarrow> string + 'r) \<Rightarrow> config \<Rightarrow> string \<Rightarrow> files \<Rightarrow> string \<Rightarrow> 'r identities \<Rightarrow> (string + transport) \<times> 'r identities" where
  "mtls_client mk c nm f serverName ids =
     (case ids_reloader mk c f ids of
        (Inl m, ids') \<Rightarrow> (named nm (Inl m), ids')
      | (Inr r, ids') \<Rightarrow> (named nm (NewClientCredentials r serverName), ids'))"

definition files_of :: "mtls_files \<Rightarrow> files" where
  "files_of m = \<lparr>CertFile = mtls_cert m, KeyFile = mtls_key m, CAFile = mtls_ca m\<rparr>"

definition ids_client ::
  "(files \<Rightarrow> string + 'r) \<Rightarrow> config \<Rightarrow> string \<Rightarrow> client_identity \<Rightarrow> string \<Rightarrow> 'r identities \<Rightarrow> (string + transport) \<times> 'r identities" where
  "ids_client mk c nm ci defaultServerName ids =
     (if ci_mode ci = ''development''
      then (if \<not> dev_enabled c then Inl (nm @ ''.identity: development mode without development.enabled'') else Inr Insecure, ids)
      else if ci_mode ci = ''mtls''
      then (let f = Resolved c ci; sn = (if mtls_server_name f = [] then defaultServerName else mtls_server_name f)
            in mtls_client mk c (nm @ ''.identity'') (files_of f) sn ids)
      else (Inl (nm @ ''.identity: unknown mode '' @ ci_mode ci), ids))"

definition caPool :: "(string \<Rightarrow> string + string list) \<Rightarrow> string \<Rightarrow> string + string list" where
  "caPool read_pool path =
     (case read_pool path of
        Inl m \<Rightarrow> Inl m
      | Inr certs \<Rightarrow> if certs = [] then Inl ''ca bundle holds no certificate'' else Inr certs)"

definition collectorCredentials ::
  "(files \<Rightarrow> string + 'r) \<Rightarrow> (string \<Rightarrow> string + string list) \<Rightarrow> config \<Rightarrow> string \<Rightarrow> client_tls \<Rightarrow> 'r identities
   \<Rightarrow> (string + transport) \<times> 'r identities" where
  "collectorCredentials mk read_pool c nm t ids =
     (if tls_mode t = ''development''
      then (if \<not> dev_enabled c then Inl (nm @ '': development mode without development.enabled'') else Inr Insecure, ids)
      else if tls_mode t = ''tls''
      then (named nm (mapR (\<lambda>pool. ServerTLS pool (tls_server_name t)) (caPool read_pool (tls_ca t))), ids)
      else if tls_mode t = ''mtls''
      then mtls_client mk c nm \<lparr>CertFile = tls_cert t, KeyFile = tls_key t, CAFile = tls_ca t\<rparr> (tls_server_name t) ids
      else (Inl (nm @ '': unknown mode '' @ tls_mode t), ids))"

section \<open>The clients of the process\<close>

datatype placed = Unplaced | Placed transport

text \<open>newGateways: Knowledge first, then MCP; the first refusal ends it.\<close>

definition place ::
  "(files \<Rightarrow> string + 'r) \<Rightarrow> config \<Rightarrow> string \<Rightarrow> owner_section \<Rightarrow> string \<Rightarrow> 'r identities \<Rightarrow> (string + placed) \<times> 'r identities" where
  "place mk c nm o' defaultServerName ids =
     (if owner_address o' \<noteq> []
      then (case ids_client mk c nm (owner_identity o') defaultServerName ids of (r, ids') \<Rightarrow> (mapR Placed r, ids'))
      else (Inr Unplaced, ids))"

definition newGateways ::
  "(files \<Rightarrow> string + 'r) \<Rightarrow> config \<Rightarrow> 'r identities \<Rightarrow> (string + placed \<times> placed) \<times> 'r identities" where
  "newGateways mk c ids =
     (case place mk c ''knowledge'' (Knowledge c) ''anvilkit-agent-knowledge'' ids of
        (Inl m, ids1) \<Rightarrow> (Inl m, ids1)
      | (Inr k, ids1) \<Rightarrow>
          (case place mk c ''mcp'' (MCP c) ''anvilkit-agent-mcp'' ids1 of
             (Inl m, ids2) \<Rightarrow> (Inl m, ids2)
           | (Inr g, ids2) \<Rightarrow> (Inr (k, g), ids2)))"

definition newControl :: "(files \<Rightarrow> string + 'r) \<Rightarrow> config \<Rightarrow> 'r identities \<Rightarrow> (string + transport) \<times> 'r identities" where
  "newControl mk c ids = ids_client mk c ''control'' (control_identity c) ''anvilkit-agent-control'' ids"

text \<open>newTracer: without a placed collector there is no exporter and no transport.\<close>

definition newTracer ::
  "(files \<Rightarrow> string + 'r) \<Rightarrow> (string \<Rightarrow> string + string list) \<Rightarrow> config \<Rightarrow> 'r identities \<Rightarrow> (string + placed) \<times> 'r identities" where
  "newTracer mk read_pool c ids =
     (if OTLPEndpoint (Telemetry c) = [] then (Inr Unplaced, ids)
      else (case collectorCredentials mk read_pool c ''telemetry.otlp_tls'' (OTLPTLS (Telemetry c)) ids of (r, ids') \<Rightarrow> (mapR Placed r, ids')))"

section \<open>The verifier and the server's options\<close>

datatype verifier_choice = Fixture fixture_verifier | Oidc oidc_verifier

definition newVerifier ::
  "(string \<Rightarrow> string + (string \<times> token_entry) list) \<Rightarrow> (string \<Rightarrow> string + string list) \<Rightarrow> (string \<Rightarrow> string option) \<Rightarrow> config
   \<Rightarrow> string + verifier_choice" where
  "newVerifier read_principals read_pool discovery c =
     (if auth_mode (AuthCfg c) = ''fixture'' then mapR Fixture (Load (read_principals (PrincipalsFile (AuthCfg c))))
      else
        (let s = OIDC (AuthCfg c);
             build = mapR Oidc (Auth.New discovery \<lparr>Issuer = oidc_issuer s, Audience = oidc_audience s, Algorithms = oidc_algorithms s,
                                                    ClockSkew = oidc_clock_skew s, OptClaims = oidc_claims s\<rparr>)
         in if oidc_ca s \<noteq> []
            then (case read_pool (oidc_ca s) of
                    Inl m \<Rightarrow> Inl (''auth.oidc.ca_file: '' @ m)
                  | Inr certs \<Rightarrow> if certs = [] then Inl (''auth.oidc.ca_file '' @ oidc_ca s @ '' holds no certificate'') else build)
            else build))"

record server_options =
  so_listen :: string
  so_read_header_timeout :: int
  so_body_limit :: int
  so_transfer_window :: int
  so_preparation_profile :: string
  so_stream :: sse_section

definition ServerOptions :: "config \<Rightarrow> server_options" where
  "ServerOptions c =
     \<lparr>so_listen = Listen (HTTP c), so_read_header_timeout = ReadHeaderTimeout (HTTP c), so_body_limit = BodyLimitBytes (HTTP c),
      so_transfer_window = TransferWindow c, so_preparation_profile = PreparationProfile c, so_stream = SSE c\<rparr>"

text \<open>NewServer's own defaults for options that are not set.\<close>

definition server_window :: "server_options \<Rightarrow> int" where
  "server_window o' = (if so_transfer_window o' \<le> 0 then 15 * minutes else so_transfer_window o')"

definition server_profile :: "server_options \<Rightarrow> string" where
  "server_profile o' = (if so_preparation_profile o' = [] then ''preparation-v1'' else so_preparation_profile o')"

section \<open>The process\<close>

text \<open>What the constructors open, in the order Fx needs them: the control client, the gateways, the tracer.\<close>

record process =
  p_verifier :: verifier_choice
  p_control :: transport
  p_knowledge :: placed
  p_mcp :: placed
  p_collector :: placed

definition assemble ::
  "(files \<Rightarrow> string + 'r) \<Rightarrow> (string \<Rightarrow> string + (string \<times> token_entry) list) \<Rightarrow> (string \<Rightarrow> string + string list)
   \<Rightarrow> (string \<Rightarrow> string option) \<Rightarrow> config \<Rightarrow> (string + process) \<times> 'r identities" where
  "assemble mk read_principals read_pool discovery c =
     (case newVerifier read_principals read_pool discovery c of
        Inl m \<Rightarrow> (Inl m, no_identities)
      | Inr v \<Rightarrow>
          (case newControl mk c no_identities of
             (Inl m, ids) \<Rightarrow> (Inl m, ids)
           | (Inr ctl, ids) \<Rightarrow>
               (case newGateways mk c ids of
                  (Inl m, ids1) \<Rightarrow> (Inl m, ids1)
                | (Inr (k, g), ids1) \<Rightarrow>
                    (case newTracer mk read_pool c ids1 of
                       (Inl m, ids2) \<Rightarrow> (Inl m, ids2)
                     | (Inr t, ids2) \<Rightarrow>
                         (Inr \<lparr>p_verifier = v, p_control = ctl, p_knowledge = k, p_mcp = g, p_collector = t\<rparr>, ids2)))))"

definition transports :: "process \<Rightarrow> transport set" where
  "transports p = {p_control p} \<union> {t. Placed t \<in> {p_knowledge p, p_mcp p, p_collector p}}"

section \<open>One reloader for the process's own files\<close>

definition ids_inv :: "config \<Rightarrow> 'r identities \<Rightarrow> bool" where
  "ids_inv c ids \<longleftrightarrow>
     (\<forall>i < length (started ids). fst (started ids ! i) = own_files c \<longleftrightarrow> own ids = Some i) \<and>
     (\<forall>n\<in>set_option (own ids). n < length (started ids))"

lemma ids_inv_empty [simp]: "ids_inv c no_identities"
  by (simp add: ids_inv_def no_identities_def)

lemma ids_reloader_inv: "ids_inv c ids \<Longrightarrow> ids_reloader mk c f ids = (r, ids') \<Longrightarrow> ids_inv c ids'"
  by (auto simp: ids_reloader_def ids_inv_def Let_def nth_append split: if_splits sum.splits)

lemma ids_reloader_place:
  "ids_inv c ids \<Longrightarrow> ids_reloader mk c f ids = (Inr n, ids') \<Longrightarrow> n < length (started ids') \<and> fst (started ids' ! n) = f"
  by (auto simp: ids_reloader_def ids_inv_def Let_def nth_append split: if_splits sum.splits)

lemma mtls_client_inv: "ids_inv c ids \<Longrightarrow> mtls_client mk c nm f sn ids = (r, ids') \<Longrightarrow> ids_inv c ids'"
  by (auto simp: mtls_client_def intro: ids_reloader_inv split: prod.splits sum.splits)

lemma ids_client_inv: "ids_inv c ids \<Longrightarrow> ids_client mk c nm ci d ids = (r, ids') \<Longrightarrow> ids_inv c ids'"
  by (auto simp: ids_client_def Let_def intro: mtls_client_inv split: if_splits)

lemma collector_inv: "ids_inv c ids \<Longrightarrow> collectorCredentials mk rp c nm t ids = (r, ids') \<Longrightarrow> ids_inv c ids'"
  by (auto simp: collectorCredentials_def intro: mtls_client_inv split: if_splits)

lemma place_inv: "ids_inv c ids \<Longrightarrow> place mk c nm s d ids = (r, ids') \<Longrightarrow> ids_inv c ids'"
  by (auto simp: place_def intro: ids_client_inv split: if_splits prod.splits)

lemma gateways_inv: "ids_inv c ids \<Longrightarrow> newGateways mk c ids = (r, ids') \<Longrightarrow> ids_inv c ids'"
  by (auto simp: newGateways_def intro: place_inv split: prod.splits sum.splits)

lemma tracer_inv: "ids_inv c ids \<Longrightarrow> newTracer mk rp c ids = (r, ids') \<Longrightarrow> ids_inv c ids'"
  by (auto simp: newTracer_def intro: collector_inv split: if_splits prod.splits)

lemma assemble_inv: "assemble mk rps rp disc c = (r, ids) \<Longrightarrow> ids_inv c ids"
  unfolding assemble_def newControl_def
  by (auto split: sum.splits prod.splits intro: ids_client_inv gateways_inv tracer_inv)
     (meson ids_inv_empty ids_client_inv gateways_inv tracer_inv)+

subsection \<open>A reloader that started stays, with the files it was loaded from\<close>

definition loaded :: "(files \<Rightarrow> string + 'r) \<Rightarrow> 'r identities \<Rightarrow> bool" where
  "loaded mk ids \<longleftrightarrow> (\<forall>x\<in>set (started ids). mk (fst x) = Inr (snd x))"

definition grown :: "(files \<Rightarrow> string + 'r) \<Rightarrow> 'r identities \<Rightarrow> 'r identities \<Rightarrow> bool" where
  "grown mk ids ids' \<longleftrightarrow> prefix (started ids) (started ids') \<and> (loaded mk ids \<longrightarrow> loaded mk ids')"

lemma loaded_empty [simp]: "loaded mk no_identities"
  by (simp add: loaded_def no_identities_def)

lemma grown_refl [simp]: "grown mk ids ids"
  by (simp add: grown_def)

lemma grown_trans [trans]: "grown mk a b \<Longrightarrow> grown mk b e \<Longrightarrow> grown mk a e"
  by (auto simp: grown_def intro: prefix_order.trans)

lemma ids_reloader_grown: "ids_reloader mk c f ids = (r, ids') \<Longrightarrow> grown mk ids ids'"
  by (auto simp: ids_reloader_def grown_def loaded_def Let_def split: if_splits sum.splits)

lemma mtls_client_grown: "mtls_client mk c nm f sn ids = (r, ids') \<Longrightarrow> grown mk ids ids'"
  by (auto simp: mtls_client_def intro: ids_reloader_grown split: prod.splits sum.splits)

lemma ids_client_grown: "ids_client mk c nm ci d ids = (r, ids') \<Longrightarrow> grown mk ids ids'"
  by (auto simp: ids_client_def Let_def intro: mtls_client_grown split: if_splits)

lemma collector_grown: "collectorCredentials mk rp c nm t ids = (r, ids') \<Longrightarrow> grown mk ids ids'"
  by (auto simp: collectorCredentials_def intro: mtls_client_grown split: if_splits)

lemma place_grown: "place mk c nm s d ids = (r, ids') \<Longrightarrow> grown mk ids ids'"
  by (auto simp: place_def intro: ids_client_grown split: if_splits prod.splits)

lemma tracer_grown: "newTracer mk rp c ids = (r, ids') \<Longrightarrow> grown mk ids ids'"
  by (auto simp: newTracer_def intro: collector_grown split: if_splits prod.splits)

text \<open>Place n of the started reloaders was loaded from these files, and is so in every later state.\<close>

definition polls_files :: "(files \<Rightarrow> string + 'r) \<Rightarrow> 'r identities \<Rightarrow> nat \<Rightarrow> files \<Rightarrow> bool" where
  "polls_files mk ids n f \<longleftrightarrow> n < length (started ids) \<and> (\<exists>r. started ids ! n = (f, r) \<and> mk f = Inr r)"

lemma polls_files_grown: "polls_files mk ids n f \<Longrightarrow> grown mk ids ids' \<Longrightarrow> polls_files mk ids' n f"
  by (auto simp: polls_files_def grown_def prefix_def nth_append)

lemma ids_reloader_polls:
  assumes "ids_inv c ids" "loaded mk ids" "ids_reloader mk c f ids = (Inr n, ids')"
  shows "polls_files mk ids' n f"
proof -
  have n: "n < length (started ids')" "fst (started ids' ! n) = f" using ids_reloader_place [OF assms(1,3)] by simp_all
  have "loaded mk ids'" using ids_reloader_grown [OF assms(3)] assms(2) by (simp add: grown_def)
  with n show ?thesis by (auto simp: polls_files_def loaded_def intro!: exI [of _ "snd (started ids' ! n)"] prod_eqI)
qed

lemma mtls_client_polls:
  assumes "ids_inv c ids" "loaded mk ids" "mtls_client mk c nm f sn ids = (Inr t, ids')"
  shows "\<exists>n. t = Mutual n sn \<and> polls_files mk ids' n f"
  using assms ids_reloader_polls [OF assms(1,2)]
  by (auto simp: mtls_client_def named_def NewClientCredentials_def split: if_splits prod.splits sum.splits)

lemma ids_client_polls:
  assumes "ids_inv c ids" "loaded mk ids" "ids_client mk c nm ci d ids = (Inr t, ids')" "\<not> dev_enabled c"
  shows "\<exists>n. t = Mutual n (if mtls_server_name (ci_mtls ci) = [] then d else mtls_server_name (ci_mtls ci))
    \<and> polls_files mk ids' n (files_of (Resolved c ci))"
proof -
  have "mtls_server_name (Resolved c ci) = mtls_server_name (ci_mtls ci)" by (simp add: Resolved_def Let_def)
  moreover have "\<exists>nm'. mtls_client mk c nm' (files_of (Resolved c ci))
      (if mtls_server_name (Resolved c ci) = [] then d else mtls_server_name (Resolved c ci)) ids = (Inr t, ids')"
    using assms(3,4) by (auto simp: ids_client_def Let_def split: if_splits)
  ultimately show ?thesis using mtls_client_polls [OF assms(1,2)] by auto
qed

section \<open>No plaintext\<close>

definition secure :: "transport \<Rightarrow> bool" where
  "secure t \<longleftrightarrow> (case t of Insecure \<Rightarrow> False | ServerTLS pool sn \<Rightarrow> pool \<noteq> [] | Mutual r sn \<Rightarrow> sn \<noteq> [])"

lemma mtls_client_secure: "mtls_client mk c nm f sn ids = (Inr t, ids') \<Longrightarrow> secure t"
  by (auto simp: mtls_client_def named_def NewClientCredentials_def secure_def split: prod.splits sum.splits if_splits)

lemma ids_client_secure: "ids_client mk c nm ci d ids = (Inr t, ids') \<Longrightarrow> \<not> dev_enabled c \<Longrightarrow> secure t"
  by (auto simp: ids_client_def Let_def dest: mtls_client_secure split: if_splits)

lemma collector_secure: "collectorCredentials mk rp c nm t ids = (Inr tr, ids') \<Longrightarrow> \<not> dev_enabled c \<Longrightarrow> secure tr"
  by (auto simp: collectorCredentials_def named_def caPool_def secure_def dest: mtls_client_secure split: if_splits sum.splits)

lemma place_secure: "place mk c nm s d ids = (Inr (Placed t), ids') \<Longrightarrow> \<not> dev_enabled c \<Longrightarrow> secure t"
  by (auto simp: place_def dest: ids_client_secure split: if_splits prod.splits)

lemma tracer_secure: "newTracer mk rp c ids = (Inr (Placed t), ids') \<Longrightarrow> \<not> dev_enabled c \<Longrightarrow> secure t"
  by (auto simp: newTracer_def dest: collector_secure split: if_splits prod.splits)

lemma gateways_secure:
  "newGateways mk c ids = (Inr (k, g), ids') \<Longrightarrow> \<not> dev_enabled c \<Longrightarrow> (k = Placed t \<or> g = Placed t) \<Longrightarrow> secure t"
  by (auto simp: newGateways_def dest: place_secure split: prod.splits sum.splits)

lemma assembleE:
  assumes "assemble mk rps rp disc c = (Inr p, ids)"
  obtains ids0 ids1 where "newVerifier rps rp disc c = Inr (p_verifier p)" "newControl mk c no_identities = (Inr (p_control p), ids0)"
    "newGateways mk c ids0 = (Inr (p_knowledge p, p_mcp p), ids1)" "newTracer mk rp c ids1 = (Inr (p_collector p), ids)"
  using assms unfolding assemble_def by (auto split: sum.splits prod.splits)

lemma own_once: "ids_inv c ids \<Longrightarrow> length (filter (\<lambda>x. fst x = own_files c) (started ids)) \<le> 1"
proof -
  assume inv: "ids_inv c ids"
  have "{i. i < length (started ids) \<and> fst (started ids ! i) = own_files c} \<subseteq> set_option (own ids)"
    using inv by (auto simp: ids_inv_def)
  then have "card {i. i < length (started ids) \<and> fst (started ids ! i) = own_files c} \<le> card (set_option (own ids))"
    by (rule card_mono [rotated]) (cases "own ids"; simp)
  also have "\<dots> \<le> 1" by (cases "own ids") simp_all
  finally show ?thesis by (simp add: length_filter_conv_card)
qed

lemma mutual_files:
  assumes "ids_inv c ids" "ids_client mk c nm ci d ids = (Inr t, ids')" "\<not> dev_enabled c"
  shows "\<exists>r sn. t = Mutual r sn \<and> r < length (started ids') \<and> fst (started ids' ! r) = files_of (Resolved c ci)"
  using assms ids_reloader_place [OF assms(1)]
  by (auto simp: ids_client_def mtls_client_def named_def NewClientCredentials_def Let_def split: if_splits prod.splits sum.splits)

section \<open>Properties\<close>

text \<open>
  C31. A process assembled from an accepted configuration without the development guard opens no
  plaintext transport: every owner and the collector are reached under TLS with a server name or a pool to verify against, Control
  under mutual TLS, and tokens are verified by an OIDC verifier with the configured claims, whose issuer was discovered.
\<close>

theorem process_has_no_plaintext:
  assumes "validate parse_url c = []" "\<not> dev_enabled c" "assemble mk rps rp disc c = (Inr p, ids)"
  shows "(\<forall>t\<in>transports p. secure t)
    \<and> (\<exists>r sn. p_control p = Mutual r sn \<and> sn \<noteq> [])
    \<and> p_verifier p = Oidc \<lparr>vclaims = oidc_claims (OIDC (AuthCfg c)), skew = oidc_clock_skew (OIDC (AuthCfg c))\<rparr>
    \<and> disc (oidc_issuer (OIDC (AuthCfg c))) = None"
proof -
  from assms(3) obtain ids0 ids1 where v: "newVerifier rps rp disc c = Inr (p_verifier p)"
    and ctl: "newControl mk c no_identities = (Inr (p_control p), ids0)"
    and g: "newGateways mk c ids0 = (Inr (p_knowledge p, p_mcp p), ids1)" and t: "newTracer mk rp c ids1 = (Inr (p_collector p), ids)"
    by (rule assembleE)
  have sc: "secure (p_control p)" using ids_client_secure ctl assms(2) unfolding newControl_def by blast
  moreover have "secure x" if "Placed x \<in> {p_knowledge p, p_mcp p, p_collector p}" for x
    using that gateways_secure [OF g assms(2)] tracer_secure [of mk rp c ids1 x ids] t assms(2) by auto
  ultimately have "\<forall>x\<in>transports p. secure x" by (auto simp: transports_def)
  moreover have "\<exists>r sn. p_control p = Mutual r sn \<and> sn \<noteq> []"
    using mutual_files [OF ids_inv_empty ctl [unfolded newControl_def] assms(2)] sc by (auto simp: secure_def)
  moreover have "auth_mode (AuthCfg c) = ''oidc''"
    using validate_parts(2) [OF assms(1)] assms(2) by (auto simp: validate_auth_def split: if_splits)
  ultimately show ?thesis
    using v by (auto simp: newVerifier_def Let_def Auth.New_def split: if_splits sum.splits option.splits)
qed

theorem process_has_no_plaintext_witness:
  "\<exists>p ids. assemble (\<lambda>_. Inr ()) (\<lambda>_. Inl []) (\<lambda>_. Inl []) (\<lambda>_. None) demo_config = (Inr p, ids) \<and> secure (p_control p)"
proof -
  let ?a = "assemble (\<lambda>_. Inr ()) (\<lambda>_. Inl []) (\<lambda>_. Inl []) (\<lambda>_. None) demo_config"
  have d: "\<not> dev_enabled demo_config" by (simp add: demo_config_def place_config_def baseline_def)
  obtain v where v: "newVerifier (\<lambda>_. Inl []) (\<lambda>_. Inl []) (\<lambda>_. None) demo_config = Inr v"
    by (simp add: newVerifier_def demo_config_def place_config_def baseline_def Auth.New_def)
  have "fst (newControl (\<lambda>_. Inr ()) demo_config no_identities) = Inr (Mutual 0 ''anvilkit-agent-control'')"
    by (simp add: newControl_def ids_client_def demo_config_def place_config_def baseline_def mtls_identity_def mtls_client_def ids_reloader_def Let_def
        NewClientCredentials_def named_def no_identities_def Resolved_def files_of_def own_files_def)
  then obtain ids where ctl: "newControl (\<lambda>_. Inr ()) demo_config no_identities = (Inr (Mutual 0 ''anvilkit-agent-control''), ids)"
    by (metis prod.collapse)
  have g: "newGateways (\<lambda>_. Inr ()) demo_config ids = (Inr (Unplaced, Unplaced), ids)"
    by (simp add: newGateways_def place_def demo_config_def place_config_def baseline_def)
  have t: "newTracer (\<lambda>_. Inr ()) (\<lambda>_. Inl []) demo_config ids = (Inr Unplaced, ids)"
    by (simp add: newTracer_def demo_config_def place_config_def baseline_def)
  obtain p where a: "?a = (Inr p, ids)"
    unfolding assemble_def v ctl sum.case prod.case g t by simp
  with process_has_no_plaintext [OF demo_validate d a] show ?thesis by (auto simp: transports_def)
qed

text \<open>
  The process loads its own identity once: whatever the configuration and whatever fails, at
  most one of the reloaders started for its clients polls the process's own files.
\<close>

theorem own_identity_loaded_once:
  "length (filter (\<lambda>x. fst x = own_files c) (started (snd (assemble mk rps rp disc c)))) \<le> 1"
  by (rule own_once) (metis assemble_inv prod.collapse)

end
