(* ===== verification/Process.thy ===== *)
theory Process
  imports Lifecycle Bootstrap "HOL-Library.Sublist"
begin

text \<open>
  The process as the Fx application of internal/bootstrap: the hooks that the constructors of module.go,
  identity.go and telemetry.go append, what each starts and stops, and their composition with the life of the
  API server (Lifecycle) and the pollers of the Reloaders.

  Documented behaviour of Fx: a constructor runs when its result is first needed, in the order of the
  parameters; start hooks run in the order they were appended, the first error ends the start and
  the hooks that had started are stopped; stop hooks run in reverse.
\<close>

section \<open>What the constructors append\<close>

datatype hook = IdentitiesHook | KnowledgeHook | McpHook | TracerHook | MetricsHook | ApiHook

fun hook_rank :: "hook \<Rightarrow> nat" where
  "hook_rank IdentitiesHook = 0" | "hook_rank KnowledgeHook = 1" | "hook_rank McpHook = 2"
| "hook_rank TracerHook = 3" | "hook_rank MetricsHook = 4" | "hook_rank ApiHook = 5"

lemma hook_rank_inj: "hook_rank a = hook_rank b \<Longrightarrow> a = b"
  by (cases a; cases b) simp_all

instantiation hook :: linorder
begin

definition less_eq_hook :: "hook \<Rightarrow> hook \<Rightarrow> bool" where
  "less_eq_hook a b \<longleftrightarrow> hook_rank a \<le> hook_rank b"

definition less_hook :: "hook \<Rightarrow> hook \<Rightarrow> bool" where
  "less_hook a b \<longleftrightarrow> hook_rank a < hook_rank b"

instance
  by standard (auto simp: less_eq_hook_def less_hook_def intro: hook_rank_inj)

end

definition newIdentities :: "hook list \<Rightarrow> hook list" where
  "newIdentities lc = lc @ [IdentitiesHook]"

definition knowledge_hook :: "config \<Rightarrow> hook list \<Rightarrow> hook list" where
  "knowledge_hook c lc = (if owner_address (Knowledge c) \<noteq> [] then lc @ [KnowledgeHook] else lc)"

definition mcp_hook :: "config \<Rightarrow> hook list \<Rightarrow> hook list" where
  "mcp_hook c lc = (if owner_address (MCP c) \<noteq> [] then lc @ [McpHook] else lc)"

definition tracer_hook :: "config \<Rightarrow> hook list \<Rightarrow> hook list" where
  "tracer_hook c lc = (if OTLPEndpoint (Telemetry c) = [] then lc else lc @ [TracerHook])"

definition newMetrics :: "config \<Rightarrow> hook list \<Rightarrow> hook list" where
  "newMetrics c lc = (if MetricsListen (Telemetry c) = [] then lc else lc @ [MetricsHook])"

definition run_hook :: "hook list \<Rightarrow> hook list" where
  "run_hook lc = lc @ [ApiHook]"

text \<open>
  run needs the server, which needs Control's client (and so the identities), the gateways, the tracer and the
  metrics, in this order; its own hook is appended last.
\<close>

definition hooks_of :: "config \<Rightarrow> hook list" where
  "hooks_of c = run_hook (newMetrics c (tracer_hook c (mcp_hook c (knowledge_hook c (newIdentities [])))))"

lemmas hooks_defs = hooks_of_def run_hook_def newMetrics_def tracer_hook_def mcp_hook_def knowledge_hook_def newIdentities_def

section \<open>The tracer\<close>

datatype exporter_option = WithInsecure | WithTLSCredentials transport

text \<open>The protocol name of gRPC's credentials.\<close>

definition SecurityProtocol :: "transport \<Rightarrow> string" where
  "SecurityProtocol t = (case t of Insecure \<Rightarrow> ''insecure'' | _ \<Rightarrow> ''tls'')"

definition otlpCredentials :: "transport \<Rightarrow> exporter_option" where
  "otlpCredentials t = (if SecurityProtocol t = ''insecure'' then WithInsecure else WithTLSCredentials t)"

record provider =
  pr_endpoint :: string
  pr_credentials :: exporter_option
  pr_service :: string
  pr_ratio :: float64

datatype tracer = NoopTracer | ProviderTracer provider

definition serviceName :: string where
  "serviceName = ''anvilkit-agent-api''"

text \<open>\<open>new_exporter\<close> is the error of the exporter's constructor, if any.\<close>

definition tracer_of ::
  "(string \<Rightarrow> exporter_option \<Rightarrow> string option) \<Rightarrow> config \<Rightarrow> placed \<Rightarrow> string + tracer" where
  "tracer_of new_exporter c t =
     (case t of
        Unplaced \<Rightarrow> Inr NoopTracer
      | Placed tr \<Rightarrow>
          (let e = OTLPEndpoint (Telemetry c); o' = otlpCredentials tr in
           case new_exporter e o' of
             Some m \<Rightarrow> Inl m
           | None \<Rightarrow> Inr (ProviderTracer \<lparr>pr_endpoint = e, pr_credentials = o', pr_service = serviceName, pr_ratio = SampleRatio (Telemetry c)\<rparr>)))"

lemma exporter_plaintext: "otlpCredentials t = WithInsecure \<longleftrightarrow> t = Insecure"
  by (cases t) (simp_all add: otlpCredentials_def SecurityProtocol_def)

text \<open>Without the guard spans leave under TLS, with the credentials of the collector's section.\<close>

lemma spans_leave_under_tls:
  assumes "newTracer mk rp c ids = (Inr t, ids')" "tracer_of ne c t = Inr (ProviderTracer p)" "\<not> dev_enabled c"
  shows "\<exists>tr. pr_credentials p = WithTLSCredentials tr \<and> secure tr"
proof -
  obtain tr where tr: "t = Placed tr" "pr_credentials p = otlpCredentials tr"
    using assms(2) by (auto simp: tracer_of_def Let_def split: placed.splits option.splits)
  with assms(1,3) have s: "secure tr" using tracer_secure by blast
  then have "tr \<noteq> Insecure" by (auto simp: secure_def)
  with tr s show ?thesis by (cases tr) (auto simp: otlpCredentials_def SecurityProtocol_def)
qed

section \<open>The state of the process\<close>

text \<open>
  \<open>todo\<close> are the start hooks that remain, \<open>begun\<close> the hooks that started and are not stopped, the latest first,
  \<open>failed\<close> the error that ended the start, \<open>stop_errors\<close> those of the stop hooks other than the API's, whose error is the value of Down.
\<close>

record proc =
  life :: life
  reloaders :: "pollers list"
  knowledge_conn :: bool
  mcp_conn :: bool
  provider_up :: bool
  metrics_up :: bool
  todo :: "hook list"
  begun :: "hook list"
  failed :: "string option"
  stop_errors :: "string list"

text \<open>After the constructors: n Reloaders, the connections of the placed owners, the tracer provider.\<close>

definition constructed :: "config \<Rightarrow> nat \<Rightarrow> proc" where
  "constructed c n =
     \<lparr>life = new_life, reloaders = replicate n no_pollers, knowledge_conn = (owner_address (Knowledge c) \<noteq> []),
      mcp_conn = (owner_address (MCP c) \<noteq> []), provider_up = (OTLPEndpoint (Telemetry c) \<noteq> []), metrics_up = False,
      todo = hooks_of c, begun = [], failed = None, stop_errors = []\<rparr>"

text \<open>Stop of a Reloader from its call to its return: cancel, wait for the poller.\<close>

definition Stop_wait :: "pollers \<Rightarrow> pollers" where
  "Stop_wait p = (case armed p of None \<Rightarrow> p | Some n \<Rightarrow> p\<lparr>armed := None, live := live p - {n}, told := insert n (told p)\<rparr>)"

definition start_next :: "proc \<Rightarrow> proc" where
  "start_next s = s\<lparr>todo := tl (todo s), begun := hd (todo s) # begun s\<rparr>"

definition start_fails :: "string \<Rightarrow> proc \<Rightarrow> proc" where
  "start_fails m s = s\<lparr>todo := [], failed := Some m\<rparr>"

definition stop_next :: "proc \<Rightarrow> proc" where
  "stop_next s = s\<lparr>begun := tl (begun s)\<rparr>"

text \<open>What a stop hook returned: Fx collects the errors and goes on with the next hook.\<close>

definition hook_returned :: "string option \<Rightarrow> proc \<Rightarrow> proc" where
  "hook_returned err s = (case err of None \<Rightarrow> s | Some m \<Rightarrow> s\<lparr>stop_errors := stop_errors s @ [m]\<rparr>)"

lemma hook_returned_keeps [simp]:
  "life (hook_returned e s) = life s" "reloaders (hook_returned e s) = reloaders s" "knowledge_conn (hook_returned e s) = knowledge_conn s"
  "mcp_conn (hook_returned e s) = mcp_conn s" "provider_up (hook_returned e s) = provider_up s" "metrics_up (hook_returned e s) = metrics_up s"
  "todo (hook_returned e s) = todo s" "begun (hook_returned e s) = begun s" "failed (hook_returned e s) = failed s" "hook_returned None s = s"
  by (cases e; simp add: hook_returned_def)+

text \<open>Fx runs the stop hooks after the API's own one ended, or after a failed start.\<close>

definition unwinding :: "proc \<Rightarrow> bool" where
  "unwinding s \<longleftrightarrow> failed s \<noteq> None \<or> (\<exists>v. phase (life s) = Down v)"

text \<open>\<open>addr\<close> is the listen address of the configuration; the error of a bind is the environment's.\<close>

inductive proc_step :: "config \<Rightarrow> proc \<Rightarrow> proc \<Rightarrow> bool" for c where
  \<comment> \<open>the start hooks\<close>
  start_identities: "todo s = IdentitiesHook # hs \<Longrightarrow>
    proc_step c s (start_next s\<lparr>reloaders := map Lifecycle.Start (reloaders s)\<rparr>)"
| start_nothing: "todo s = h # hs \<Longrightarrow> h \<in> {KnowledgeHook, McpHook, TracerHook} \<Longrightarrow> proc_step c s (start_next s)"
| start_metrics: "todo s = MetricsHook # hs \<Longrightarrow> proc_step c s (start_next s\<lparr>metrics_up := True\<rparr>)"
| start_metrics_fails: "todo s = MetricsHook # hs \<Longrightarrow> proc_step c s (start_fails m s)"
| start_api: "todo s = ApiHook # hs \<Longrightarrow>
    proc_step c s (start_next s\<lparr>life := start_hook (Listen (HTTP c)) None (life s)\<rparr>)"
| start_api_fails: "todo s = ApiHook # hs \<Longrightarrow>
    proc_step c s (start_fails (''listen '' @ Listen (HTTP c) @ '': '' @ m) s\<lparr>life := start_hook (Listen (HTTP c)) (Some m) (life s)\<rparr>)"
  \<comment> \<open>the running process\<close>
| lives: "todo s = [] \<Longrightarrow> life_step (life s) l \<Longrightarrow> phase (life s) \<noteq> Fresh \<Longrightarrow> proc_step c s (s\<lparr>life := l\<rparr>)"
| polls: "i < length (reloaders s) \<Longrightarrow> n \<in> live (reloaders s ! i) \<Longrightarrow>
    proc_step c s (s\<lparr>reloaders := (reloaders s)[i := (reloaders s ! i)\<lparr>polls := n # polls (reloaders s ! i)\<rparr>]\<rparr>)"
| metrics_stops: "metrics_up s \<Longrightarrow> proc_step c s (s\<lparr>metrics_up := False\<rparr>)"
  \<comment> \<open>the stop hooks; the API's ends with its life\<close>
| stop_api: "unwinding s \<Longrightarrow> begun s = ApiHook # hs \<Longrightarrow> proc_step c s (stop_next s)"
| stop_metrics: "unwinding s \<Longrightarrow> begun s = MetricsHook # hs \<Longrightarrow> proc_step c s (hook_returned err (stop_next s\<lparr>metrics_up := False\<rparr>))"
| stop_tracer: "unwinding s \<Longrightarrow> begun s = TracerHook # hs \<Longrightarrow> proc_step c s (hook_returned err (stop_next s\<lparr>provider_up := False\<rparr>))"
| stop_mcp: "unwinding s \<Longrightarrow> begun s = McpHook # hs \<Longrightarrow> proc_step c s (hook_returned err (stop_next s\<lparr>mcp_conn := False\<rparr>))"
| stop_knowledge: "unwinding s \<Longrightarrow> begun s = KnowledgeHook # hs \<Longrightarrow> proc_step c s (hook_returned err (stop_next s\<lparr>knowledge_conn := False\<rparr>))"
| stop_identities: "unwinding s \<Longrightarrow> begun s = IdentitiesHook # hs \<Longrightarrow>
    proc_step c s (stop_next s\<lparr>reloaders := map Stop_wait (reloaders s)\<rparr>)"

inductive proc_reach :: "config \<Rightarrow> nat \<Rightarrow> proc \<Rightarrow> bool" for c n where
  proc_new: "proc_reach c n (constructed c n)"
| proc_next: "proc_reach c n s \<Longrightarrow> proc_step c s t \<Longrightarrow> proc_reach c n t"

section \<open>The order of the hooks\<close>

lemma hooks_sorted: "sorted_wrt (<) (hooks_of c)"
  by (simp add: hooks_defs sorted_wrt_append less_hook_def)

lemma hooks_distinct: "distinct (hooks_of c)"
  using hooks_sorted strict_sorted_iff by blast

lemma hooks_members [simp]:
  "IdentitiesHook \<in> set (hooks_of c)" "ApiHook \<in> set (hooks_of c)"
  "KnowledgeHook \<in> set (hooks_of c) \<longleftrightarrow> owner_address (Knowledge c) \<noteq> []"
  "McpHook \<in> set (hooks_of c) \<longleftrightarrow> owner_address (MCP c) \<noteq> []"
  "TracerHook \<in> set (hooks_of c) \<longleftrightarrow> OTLPEndpoint (Telemetry c) \<noteq> []"
  by (simp_all add: hooks_defs)

text \<open>A hook's place: what is behind it comes later, what is before it earlier.\<close>

lemma hooks_split: "hooks_of c = xs @ h # ys \<Longrightarrow> (\<forall>x\<in>set xs. hook_rank x < hook_rank h) \<and> (\<forall>y\<in>set ys. hook_rank h < hook_rank y)"
  using hooks_sorted [of c] by (simp add: sorted_wrt_append less_hook_def)

lemma api_last: "hooks_of c = xs @ ApiHook # ys \<Longrightarrow> ys = []"
  using hooks_split [of c xs ApiHook ys] by (cases ys; cases "hd ys") auto

lemma begun_distinct: "suffix (begun s) (rev (hooks_of c)) \<Longrightarrow> distinct (begun s)"
  using hooks_distinct [of c] by (metis distinct_append distinct_rev suffix_def)

text \<open>The atomic Stop is a run of the poller's own steps.\<close>

lemma Stop_wait_run: "poll_inv p \<Longrightarrow> poll_step\<^sup>*\<^sup>* p (Stop_wait p)"
proof (cases "armed p")
  case (Some n)
  assume inv: "poll_inv p"
  then have n: "n \<in> live p" "n \<notin> joining p" using Some by (auto simp: poll_inv_def)
  let ?a = "p\<lparr>armed := None, joining := insert n (joining p)\<rparr>"
  let ?b = "?a\<lparr>told := insert n (told p)\<rparr>"
  let ?d = "?b\<lparr>live := live p - {n}\<rparr>"
  let ?e = "?d\<lparr>joining := insert n (joining p) - {n}\<rparr>"
  have "poll_step p ?a" using poll_step.stops [of p] Some by (simp add: Stop_take_def)
  moreover have "poll_step ?a ?b" using cancels [of n ?a] by simp
  moreover have "poll_step ?b ?d" using returns [of n ?b] n by simp
  moreover have "poll_step ?d ?e" using joined [of n ?d] by simp
  moreover have "?e = Stop_wait p" using n Some by (simp add: Stop_wait_def)
  ultimately show ?thesis by (metis converse_rtranclp_into_rtranclp rtranclp.rtrancl_refl)
qed (simp add: Stop_wait_def)


section \<open>The invariant\<close>

definition start_inv :: "config \<Rightarrow> proc \<Rightarrow> bool" where
  "start_inv c s \<longleftrightarrow>
     suffix (begun s) (rev (hooks_of c)) \<and>
     (todo s \<noteq> [] \<longrightarrow> failed s = None \<and> phase (life s) = Fresh \<and> hooks_of c = rev (begun s) @ todo s) \<and>
     (failed s \<noteq> None \<longrightarrow> todo s = [] \<and> ApiHook \<notin> set (begun s) \<and> serving (life s) = Unserved) \<and>
     (todo s = [] \<and> failed s = None \<longrightarrow> serving (life s) \<noteq> Unserved) \<and>
     (todo s = [] \<and> \<not> unwinding s \<longrightarrow> begun s = rev (hooks_of c))"

definition poller_inv :: "bool \<Rightarrow> pollers \<Rightarrow> bool" where
  "poller_inv running p \<longleftrightarrow> polled p \<and> joining p = {} \<and> (armed p \<noteq> None \<longleftrightarrow> running)"

definition resource_inv :: "proc \<Rightarrow> bool" where
  "resource_inv s \<longleftrightarrow>
     (\<forall>p\<in>set (reloaders s). poller_inv (IdentitiesHook \<in> set (begun s)) p) \<and>
     (knowledge_conn s \<longleftrightarrow> KnowledgeHook \<in> set (begun s @ todo s)) \<and>
     (mcp_conn s \<longleftrightarrow> McpHook \<in> set (begun s @ todo s)) \<and>
     (provider_up s \<longleftrightarrow> TracerHook \<in> set (begun s @ todo s)) \<and>
     (metrics_up s \<longrightarrow> MetricsHook \<in> set (begun s))"

lemma poller_starts: "poller_inv False p \<Longrightarrow> poller_inv True (Lifecycle.Start p)"
  using polled_step [of p "Lifecycle.Start p"] poll_step.starts [of p]
  by (auto simp: poller_inv_def Lifecycle.Start_def)

lemma poller_stops: "poller_inv True p \<Longrightarrow> poller_inv False (Stop_wait p)"
  using Stop_wait_run [of p] polled_inv [of p] poll_runs.run_possible [of p "Stop_wait p"]
  by (auto simp: poller_inv_def Stop_wait_def)

lemma poller_polls: "poller_inv r p \<Longrightarrow> n \<in> live p \<Longrightarrow> poller_inv r (p\<lparr>polls := n # polls p\<rparr>)"
  using polled_step [of p "p\<lparr>polls := n # polls p\<rparr>"] poll_step.reloads [of n p] by (auto simp: poller_inv_def)

text \<open>No poller runs in a Reloader that is stopped, and the armed one runs in a started one.\<close>

lemma poller_live: "poller_inv r p \<Longrightarrow> live p = set_option (armed p)"
  using polled_inv [of p] by (auto simp: poller_inv_def poll_inv_def)

lemma poller_none: "poller_inv False p \<Longrightarrow> live p = {}"
  using poller_live [of False p] by (simp add: poller_inv_def)

lemma poller_some: "poller_inv True p \<Longrightarrow> \<exists>n. live p = {n} \<and> armed p = Some n"
  using poller_live [of True p] by (auto simp: poller_inv_def)

subsection \<open>The order is kept\<close>

lemma start_next_inv:
  assumes "start_inv c s" "todo s = h # hs" "h \<noteq> ApiHook"
  shows "start_inv c (start_next s)" "hooks_of c = rev (begun s) @ h # hs"
proof -
  show h: "hooks_of c = rev (begun s) @ h # hs" using assms(1,2) by (simp add: start_inv_def)
  then have "rev (hooks_of c) = rev hs @ h # begun s" by simp
  moreover have "hs \<noteq> []" using h assms(3) by (auto simp: hooks_defs split: if_splits)
  ultimately show "start_inv c (start_next s)"
    using assms(1,2) by (auto simp: start_inv_def start_next_def unwinding_def suffix_def)
qed

lemma start_api_inv:
  assumes "start_inv c s" "todo s = ApiHook # hs" "lived (life s)"
  shows "start_inv c (start_next s\<lparr>life := start_hook addr None (life s)\<rparr>)"
proof -
  have h: "hooks_of c = rev (begun s) @ ApiHook # hs" using assms(1,2) by (simp add: start_inv_def)
  with api_last have "hs = []" by blast
  with h have "rev (hooks_of c) = ApiHook # begun s" by simp
  with assms(1,2) \<open>hs = []\<close> show ?thesis
    by (simp add: start_inv_def start_next_def unwinding_def start_hook_def)
qed

lemma unserved_fresh: "lived l \<Longrightarrow> phase l = Fresh \<Longrightarrow> serving l = Unserved"
  using life_inv_parts(6) [OF lived_inv [of l]] by simp

lemma start_fails_inv:
  assumes "start_inv c s" "todo s = h # hs" "lived (life s)" "h \<le> ApiHook"
  shows "start_inv c (start_fails m s)" "start_inv c (start_fails m s\<lparr>life := start_hook addr (Some m') (life s)\<rparr>)"
proof -
  have h: "hooks_of c = rev (begun s) @ h # hs" using assms(1,2) by (simp add: start_inv_def)
  then have "ApiHook \<notin> set (begun s)" using hooks_split [OF h] assms(4) by (auto simp: less_eq_hook_def)
  then show "start_inv c (start_fails m s)" "start_inv c (start_fails m s\<lparr>life := start_hook addr (Some m') (life s)\<rparr>)"
    using assms(1,2) unserved_fresh [OF assms(3)] by (simp_all add: start_inv_def start_fails_def unwinding_def start_hook_def suffix_def)
qed

lemma start_inv_parts:
  assumes "start_inv c s"
  shows "suffix (begun s) (rev (hooks_of c))"
    "todo s \<noteq> [] \<longrightarrow> failed s = None \<and> phase (life s) = Fresh \<and> hooks_of c = rev (begun s) @ todo s"
    "failed s \<noteq> None \<longrightarrow> todo s = [] \<and> ApiHook \<notin> set (begun s) \<and> serving (life s) = Unserved"
    "todo s = [] \<and> failed s = None \<longrightarrow> serving (life s) \<noteq> Unserved"
    "todo s = [] \<and> \<not> unwinding s \<longrightarrow> begun s = rev (hooks_of c)"
  by (insert assms, unfold start_inv_def, (elim conjE, assumption)+)

lemma unwinding_started: "start_inv c s \<Longrightarrow> unwinding s \<Longrightarrow> todo s = []"
  using start_inv_parts(2,3) [of c s] by (cases "todo s") (auto simp: unwinding_def)

lemma stop_next_inv:
  assumes "start_inv c s" "unwinding s" "begun s = h # hs"
  shows "start_inv c (stop_next s)" "h \<notin> set hs"
proof -
  note parts = start_inv_parts [OF assms(1)]
  have t: "todo s = []" by (rule unwinding_started [OF assms(1,2)])
  have u: "unwinding (stop_next s)" using assms(2) by (simp add: unwinding_def stop_next_def)
  have "suffix hs (begun s)" unfolding assms(3) by (rule suffix_ConsI) simp
  then have "suffix hs (rev (hooks_of c))" using parts(1) by (rule suffix_order.trans)
  then show "start_inv c (stop_next s)"
    unfolding start_inv_def
    by (intro conjI impI; use t u parts(3,4) assms(3) in \<open>simp add: stop_next_def\<close>; fail)
  show "h \<notin> set hs" using begun_distinct [OF parts(1)] assms(3) by simp
qed

lemma life_starts_once: "life_step l l' \<Longrightarrow> phase l \<noteq> Fresh \<Longrightarrow> serving l \<noteq> Unserved \<Longrightarrow> serving l' \<noteq> Unserved"
  by (erule life_stepE) (auto simp: Stop_def close_draining_def ask_exit_def blame_def)

lemma life_unserved: "life_step l l' \<Longrightarrow> phase l \<noteq> Fresh \<Longrightarrow> life_inv l \<Longrightarrow> serving l = Unserved \<Longrightarrow> serving l' = Unserved"
  by (erule life_stepE) (auto simp: Stop_def close_draining_def ask_exit_def blame_def life_inv_def)

lemma down_stays: "life_step l l' \<Longrightarrow> phase l = Down v \<Longrightarrow> phase l' = Down v"
  by (erule life_stepE) (auto simp: ask_exit_def blame_def)

lemma lives_inv:
  assumes "start_inv c s" "lived (life s)" "todo s = []" "life_step (life s) l" "phase (life s) \<noteq> Fresh"
  shows "start_inv c (s\<lparr>life := l\<rparr>)"
proof -
  note parts = start_inv_parts [OF assms(1)]
  have f: "failed s \<noteq> None \<Longrightarrow> serving l = Unserved"
    using life_unserved [OF assms(4,5) lived_inv [OF assms(2)]] parts(3) by blast
  have n: "failed s = None \<Longrightarrow> serving l \<noteq> Unserved"
    using life_starts_once [OF assms(4,5)] parts(4) assms(3) by blast
  have u: "\<not> unwinding (s\<lparr>life := l\<rparr>) \<Longrightarrow> \<not> unwinding s"
    using down_stays [OF assms(4)] by (auto simp: unwinding_def)
  show ?thesis
    unfolding start_inv_def
    by (intro conjI impI; use f n u assms(3) parts(1,3,5) in \<open>simp; fail\<close>)
qed

lemma start_inv_unaffected: "start_inv c (s\<lparr>reloaders := x\<rparr>) = start_inv c s" "start_inv c (s\<lparr>metrics_up := y\<rparr>) = start_inv c s"
  "start_inv c (s\<lparr>provider_up := y\<rparr>) = start_inv c s" "start_inv c (s\<lparr>mcp_conn := y\<rparr>) = start_inv c s"
  "start_inv c (s\<lparr>knowledge_conn := y\<rparr>) = start_inv c s"
  "start_inv c (hook_returned e s) = start_inv c s"
  by (simp_all add: start_inv_def unwinding_def)

lemma start_inv_step:
  assumes "proc_step c s t" "start_inv c s" "lived (life s)"
  shows "start_inv c t"
  using assms(1)
proof cases
  case (start_identities hs)
  then show ?thesis using start_next_inv(1) [OF assms(2)] by (simp only: start_inv_unaffected) simp
next
  case (start_nothing h hs)
  then show ?thesis using start_next_inv(1) [OF assms(2) start_nothing(2)] by auto
next
  case (start_metrics hs)
  then show ?thesis using start_next_inv(1) [OF assms(2)] by (simp only: start_inv_unaffected) simp
next
  case (start_metrics_fails hs m)
  then show ?thesis using start_fails_inv(1) [OF assms(2) start_metrics_fails(2) assms(3)] by (simp add: less_eq_hook_def)
next
  case (start_api hs)
  then show ?thesis using start_api_inv [OF assms(2) start_api(2) assms(3)] by simp
next
  case (start_api_fails hs m)
  then show ?thesis using start_fails_inv(2) [OF assms(2) start_api_fails(2) assms(3)] by simp
next
  case (lives l)
  then show ?thesis using lives_inv [OF assms(2,3)] by simp
qed (use stop_next_inv(1) [OF assms(2)] assms(2) in \<open>simp_all only: start_inv_unaffected\<close>)

lemma lived_step_proc: "proc_step c s t \<Longrightarrow> start_inv c s \<Longrightarrow> lived (life s) \<Longrightarrow> lived (life t)"
proof (induction rule: proc_step.induct)
  case (start_api s hs)
  then have "phase (life s) = Fresh" using start_inv_parts(2) by fastforce
  with start_api show ?case using life_step.start lived_step by (auto simp: start_next_def)
next
  case (start_api_fails s hs m)
  then have "phase (life s) = Fresh" using start_inv_parts(2) by fastforce
  with start_api_fails show ?case using life_step.start lived_step by (auto simp: start_fails_def)
next
  case (lives s l)
  then show ?case using lived_step by auto
qed (simp_all add: start_next_def start_fails_def stop_next_def)

subsection \<open>What is open, and polls\<close>

text \<open>Between the start of a hook and its stop nothing else touches what it opened.\<close>

lemma rest_of_start:
  assumes "start_inv c s" "todo s = h # hs"
  shows "h \<notin> set (begun s)" "\<forall>x\<in>set hs. hook_rank h < hook_rank x"
proof -
  have "hooks_of c = rev (begun s) @ h # hs" using start_inv_parts(2) [OF assms(1)] assms(2) by simp
  from hooks_split [OF this] show "h \<notin> set (begun s)" "\<forall>x\<in>set hs. hook_rank h < hook_rank x" by auto
qed

lemma resource_step:
  assumes "proc_step c s t" "start_inv c s" "resource_inv s"
  shows "resource_inv t"
  using assms(1)
proof cases
  case (start_identities hs)
  note r = rest_of_start [OF assms(2) start_identities(2)]
  show ?thesis using assms(3) r(1) start_identities poller_starts by (auto simp: resource_inv_def start_next_def)
next
  case (start_nothing h hs)
  with assms(3) show ?thesis by (auto simp: resource_inv_def start_next_def)
next
  case (start_metrics hs)
  with assms(3) show ?thesis by (auto simp: resource_inv_def start_next_def)
next
  case (start_metrics_fails hs m)
  with rest_of_start [OF assms(2) start_metrics_fails(2)] assms(3) show ?thesis
    by (auto simp: resource_inv_def start_fails_def)
next
  case (start_api hs)
  with assms(3) show ?thesis by (auto simp: resource_inv_def start_next_def)
next
  case (start_api_fails hs m)
  with rest_of_start [OF assms(2) start_api_fails(2)] assms(3) show ?thesis
    by (auto simp: resource_inv_def start_fails_def)
next
  case (lives l)
  with assms(3) show ?thesis by (simp add: resource_inv_def)
next
  case (polls i n)
  let ?p = "(reloaders s ! i)\<lparr>polls := n # pollers.polls (reloaders s ! i)\<rparr>"
  have "poller_inv (IdentitiesHook \<in> set (begun s)) ?p"
    using assms(3) polls(2,3) by (intro poller_polls) (simp_all add: resource_inv_def)
  with assms(3) set_update_subset_insert [of "reloaders s" i ?p] show ?thesis
    by (auto simp: resource_inv_def polls(1))
next
  case metrics_stops
  with assms(3) show ?thesis by (simp add: resource_inv_def)
next
  case (stop_identities hs)
  with stop_next_inv(2) [OF assms(2) stop_identities(2,3)] assms(3) poller_stops show ?thesis
    by (auto simp: resource_inv_def stop_next_def)
qed (use assms(3) stop_next_inv(2) [OF assms(2)] unwinding_started [OF assms(2)] in \<open>auto simp: resource_inv_def stop_next_def\<close>)

definition proc_inv :: "config \<Rightarrow> proc \<Rightarrow> bool" where
  "proc_inv c s \<longleftrightarrow> lived (life s) \<and> start_inv c s \<and> resource_inv s"

lemma proc_inv_new: "proc_inv c (constructed c n)"
  by (auto simp: proc_inv_def constructed_def start_inv_def resource_inv_def poller_inv_def unwinding_def new_life_def no_pollers_def
      lived_new[unfolded new_life_def] polled_new[unfolded no_pollers_def])
     (simp_all add: hooks_defs)

lemma proc_reach_inv: "proc_reach c n s \<Longrightarrow> proc_inv c s"
proof (induction rule: proc_reach.induct)
  case proc_new
  then show ?case by (rule proc_inv_new)
next
  case (proc_next s t)
  then show ?case
    using start_inv_step [OF proc_next.hyps(2)] lived_step_proc [OF proc_next.hyps(2)] resource_step [OF proc_next.hyps(2)]
    by (simp add: proc_inv_def)
qed

interpretation proc_runs: machine "proc_step c" "proc_reach c n" for c n
  by unfold_locales (rule proc_next)

text \<open>While the API's hook is started, every hook is: nothing was stopped before it.\<close>

definition in_service :: "proc \<Rightarrow> bool" where
  "in_service s \<longleftrightarrow> serving (life s) \<noteq> Unserved \<and> (\<forall>v. phase (life s) \<noteq> Down v)"

lemma in_service_whole:
  assumes "proc_inv c s" "in_service s"
  shows "begun s = rev (hooks_of c)" "todo s = []" "control_open (life s)"
proof -
  from assms(1) have l: "life_inv (life s)" and st: "start_inv c s"
    using lived_inv by (auto simp: proc_inv_def)
  note parts = start_inv_parts [OF st]
  have "phase (life s) \<noteq> Fresh" using life_inv_parts(6) [OF l] assms(2) by (auto simp: in_service_def)
  with parts(2) show t: "todo s = []" by blast
  have "failed s = None" using parts(3) assms(2) by (auto simp: in_service_def)
  with assms(2) have "\<not> unwinding s" by (simp add: unwinding_def in_service_def)
  with parts(5) t show "begun s = rev (hooks_of c)" by blast
  show "control_open (life s)" using life_inv_parts(5) [OF l] assms(2) by (simp add: in_service_def)
qed

lemma out_of_service_idle:
  assumes "proc_inv c s" "\<not> in_service s"
  shows "in_flight (life s) = 0 \<or> (\<exists>m. phase (life s) = Down (Some m))"
proof -
  have l: "life_inv (life s)" using assms(1) lived_inv by (simp add: proc_inv_def)
  show ?thesis
  proof (cases "serving (life s) = Unserved")
    case False
    with assms(2) obtain v where "phase (life s) = Down v" by (auto simp: in_service_def)
    then show ?thesis using life_inv_parts(4) [OF l] by (cases v) auto
  qed (use life_inv_parts(7) [OF l] in blast)
qed

subsection \<open>The stop\<close>

text \<open>Every hook that started is stopped and none starts any more.\<close>

definition halted :: "proc \<Rightarrow> bool" where
  "halted s \<longleftrightarrow> todo s = [] \<and> begun s = []"

definition stop_work :: "proc \<Rightarrow> nat" where
  "stop_work s = length (begun s) + (if failed s = None then stop_rank (phase (life s)) else 0)"

lemma unwinding_progress:
  assumes "unwinding s" "begun s \<noteq> []"
  shows "\<exists>t. proc_step c s t \<and> begun t = tl (begun s) \<and> failed t = failed s \<and> stop_errors t = stop_errors s \<and> life t = life s"
proof -
  obtain h hs where b: "begun s = h # hs" using assms(2) by (cases "begun s") auto
  show ?thesis
  proof (cases h)
    case IdentitiesHook
    then show ?thesis using stop_identities [OF assms(1), of hs c] b by (auto simp: stop_next_def intro!: exI)
  next
    case KnowledgeHook
    then show ?thesis using stop_knowledge [OF assms(1), of hs c None] b by (auto simp: stop_next_def intro!: exI)
  next
    case McpHook
    then show ?thesis using stop_mcp [OF assms(1), of hs c None] b by (auto simp: stop_next_def intro!: exI)
  next
    case TracerHook
    then show ?thesis using stop_tracer [OF assms(1), of hs c None] b by (auto simp: stop_next_def intro!: exI)
  next
    case MetricsHook
    then show ?thesis using stop_metrics [OF assms(1), of hs c None] b by (auto simp: stop_next_def intro!: exI)
  next
    case ApiHook
    then show ?thesis using stop_api [OF assms(1), of hs c] b by (auto simp: stop_next_def intro!: exI)
  qed
qed

text \<open>The process is asked to stop: by a failed start, by a signal or by its listener.\<close>

definition asked :: "proc \<Rightarrow> bool" where
  "asked s \<longleftrightarrow> failed s \<noteq> None \<or> exit_code (life s) \<noteq> None"

lemma asked_progress:
  assumes "proc_inv c s" "asked s" "\<not> halted s"
  shows "\<exists>t. proc_step c s t \<and> asked t \<and> stop_work t < stop_work s"
proof (cases "unwinding s")
  case True
  have "start_inv c s" using assms(1) by (simp add: proc_inv_def)
  with True have "begun s \<noteq> []" using assms(3) unwinding_started by (auto simp: halted_def)
  with unwinding_progress [OF True this] assms(2) show ?thesis
    by (fastforce simp: asked_def stop_work_def)
next
  case False
  then have e: "failed s = None" "exit_code (life s) \<noteq> None" "\<forall>v. phase (life s) \<noteq> Down v"
    using assms(2) by (auto simp: unwinding_def asked_def)
  have l: "life_inv (life s)" and st: "start_inv c s" using assms(1) lived_inv by (auto simp: proc_inv_def)
  from hook_enabled [OF l e(2,3)] obtain l' where l': "life_step (life s) l'" "stop_rank (phase l') < stop_rank (phase (life s))" by blast
  have ph: "phase (life s) \<noteq> Fresh" using asked_phase [OF l e(2)] by blast
  then have "todo s = []" using start_inv_parts(2) [OF st] by blast
  then have "proc_step c s (s\<lparr>life := l'\<rparr>)" using proc_step.lives l'(1) ph by blast
  moreover have "exit_code l' = exit_code (life s)" using rank_step [OF l'(1) l e(2)] by blast
  ultimately show ?thesis using l'(2) e by (intro exI [of _ "s\<lparr>life := l'\<rparr>"]) (simp add: asked_def stop_work_def)
qed

lemma asked_halts:
  assumes "proc_reach c n s" "asked s"
  shows "\<exists>t. (proc_step c)\<^sup>*\<^sup>* s t \<and> halted t"
  by (rule proc_runs.descends [where P = asked and work = stop_work, OF assms])
     (use asked_progress proc_reach_inv in blast)

lemma reloaders_kept: "proc_reach c n s \<Longrightarrow> length (reloaders s) = n"
proof (induction rule: proc_reach.induct)
  case (proc_next s t)
  from proc_next(2,3) show ?case
    by (cases rule: proc_step.cases) (auto simp: start_next_def start_fails_def stop_next_def)
qed (simp add: constructed_def)

section \<open>The bounds of the stop\<close>

text \<open>
  Fx gives the stop hooks one context; a hook that sets its own bound has the earlier of the two
  deadlines. Times are nanoseconds.
\<close>

definition stop_timeout :: int where
  "stop_timeout = MaxShutdownTimeout + 30 * seconds"

definition within_context :: "int \<Rightarrow> int \<Rightarrow> int \<Rightarrow> int" where
  "within_context now parent own_bound = min parent (now + own_bound)"

definition drain_deadline :: "config \<Rightarrow> int \<Rightarrow> int" where
  "drain_deadline c asked_at = within_context asked_at (asked_at + stop_timeout) (ShutdownTimeout (HTTP c))"

definition flush_deadline :: "int \<Rightarrow> int \<Rightarrow> int" where
  "flush_deadline asked_at now = within_context now (asked_at + stop_timeout) (5 * seconds)"

text \<open>
  With an accepted configuration the drain has the whole time it is configured for, and whenever it ends
  at least thirty seconds are left: a flush of the spans that begins in the first 25 of them has its five seconds.
\<close>

lemma stop_bound_above_drain:
  assumes "validate parse_url c = []" "drained_at \<le> drain_deadline c asked_at"
  shows "drain_deadline c asked_at = asked_at + ShutdownTimeout (HTTP c)"
    "drained_at + 30 * seconds \<le> asked_at + stop_timeout"
    "now \<le> drained_at + 25 * seconds \<Longrightarrow> flush_deadline asked_at now = now + 5 * seconds"
  using validate_parts [OF assms(1)] assms(2)
  by (simp_all add: drain_deadline_def flush_deadline_def within_context_def stop_timeout_def)

section \<open>Concrete runs\<close>

text \<open>One Reloader, no owner but Control, and a metrics listener that can be bound or not.\<close>

definition metrics_config :: config where
  "metrics_config = demo_config\<lparr>Telemetry := (Telemetry demo_config)\<lparr>MetricsListen := ''127.0.0.1:9101''\<rparr>\<rparr>"

lemma metrics_hooks: "hooks_of metrics_config = [IdentitiesHook, MetricsHook, ApiHook]"
  by (simp add: hooks_defs metrics_config_def demo_config_def place_config_def baseline_def)

lemma demo_starting:
  "\<exists>s. proc_reach metrics_config 1 s \<and> todo s = [MetricsHook, ApiHook] \<and> life s = new_life \<and> failed s = None"
proof -
  let ?s = "constructed metrics_config 1"
  have "todo ?s = IdentitiesHook # [MetricsHook, ApiHook]" by (simp add: constructed_def metrics_hooks)
  from proc_next [OF proc_new start_identities [OF this]] show ?thesis
    by - (rule exI, rule conjI, assumption, simp add: start_next_def constructed_def metrics_hooks)
qed

lemma demo_serving: "\<exists>s. proc_reach metrics_config 1 s \<and> in_service s"
proof -
  obtain s where s: "proc_reach metrics_config 1 s" "todo s = [MetricsHook, ApiHook]" "life s = new_life" using demo_starting by blast
  let ?t = "start_next s\<lparr>metrics_up := True\<rparr>"
  have t: "proc_reach metrics_config 1 ?t" using proc_next [OF s(1) start_metrics [OF s(2)]] .
  have "todo ?t = [ApiHook]" using s(2) by (simp add: start_next_def)
  from proc_next [OF t start_api [OF this]] show ?thesis
    by - (rule exI, rule conjI, assumption, simp add: s(3) in_service_def start_next_def start_hook_def new_life_def)
qed

lemma demo_failed: "\<exists>s. proc_reach metrics_config 1 s \<and> asked s \<and> failed s = Some ''in use''"
proof -
  obtain s where s: "proc_reach metrics_config 1 s" "todo s = [MetricsHook, ApiHook]" using demo_starting by blast
  from proc_next [OF s(1) start_metrics_fails [OF s(2)]] have "proc_reach metrics_config 1 (start_fails ''in use'' s)" .
  then show ?thesis by (intro exI [of _ "start_fails ''in use'' s"]) (simp add: asked_def start_fails_def)
qed

section \<open>Properties\<close>

text \<open>
  C7. A process that serves is whole: while its API accepts requests or drains, every Reloader has its one
  poller, the connection of every placed owner and the exporter are open, and so is Control's;
  they are given up only when no request is in flight or the drain's bound passed. A listener that
  cannot be bound, for metrics or for the API, ends in a process that never served a request.
\<close>

theorem serving_process_is_whole:
  assumes "proc_reach c n s"
  shows "(in_service s \<longrightarrow>
      length (reloaders s) = n \<and> (\<forall>p\<in>set (reloaders s). \<exists>m. live p = {m}) \<and> control_open (life s) \<and>
      (knowledge_conn s \<longleftrightarrow> owner_address (Knowledge c) \<noteq> []) \<and> (mcp_conn s \<longleftrightarrow> owner_address (MCP c) \<noteq> []) \<and>
      (provider_up s \<longleftrightarrow> OTLPEndpoint (Telemetry c) \<noteq> []))
    \<and> (\<not> in_service s \<longrightarrow> in_flight (life s) = 0 \<or> (\<exists>m. phase (life s) = Down (Some m)))
    \<and> (failed s \<noteq> None \<longrightarrow> serving (life s) = Unserved \<and> in_flight (life s) = 0)"
proof (intro conjI impI)
  note inv = proc_reach_inv [OF assms]
  from inv have r: "resource_inv s" and st: "start_inv c s" and l: "life_inv (life s)"
    using lived_inv by (auto simp: proc_inv_def)
  {
    assume sv: "in_service s"
    note w = in_service_whole [OF inv sv]
    show "control_open (life s)" by (rule w(3))
    show "length (reloaders s) = n" by (rule reloaders_kept [OF assms])
    show "\<forall>p\<in>set (reloaders s). \<exists>m. live p = {m}"
      using r w(1) poller_some by (simp add: resource_inv_def) blast
    show "knowledge_conn s \<longleftrightarrow> owner_address (Knowledge c) \<noteq> []" "mcp_conn s \<longleftrightarrow> owner_address (MCP c) \<noteq> []"
      "provider_up s \<longleftrightarrow> OTLPEndpoint (Telemetry c) \<noteq> []"
      using r w(1,2) by (simp_all add: resource_inv_def)
  }
  show "in_flight (life s) = 0 \<or> (\<exists>m. phase (life s) = Down (Some m))" if "\<not> in_service s"
    by (rule out_of_service_idle [OF inv that])
  assume "failed s \<noteq> None"
  then show sv: "serving (life s) = Unserved" using start_inv_parts(3) [OF st] by blast
  then show "in_flight (life s) = 0" using life_inv_parts(7) [OF l] by blast
qed

theorem serving_process_is_whole_witness:
  "\<exists>s. proc_reach metrics_config 1 s \<and> in_service s \<and> (\<exists>p m. reloaders s = [p] \<and> live p = {m})"
proof -
  obtain s where s: "proc_reach metrics_config 1 s" "in_service s" using demo_serving by blast
  from serving_process_is_whole [OF s(1)] s(2) have "length (reloaders s) = 1" "\<forall>p\<in>set (reloaders s). \<exists>m. live p = {m}" by blast+
  then obtain p where "reloaders s = [p]" "\<exists>m. live p = {m}" by (auto simp: length_Suc_conv)
  with s show ?thesis by blast
qed

text \<open>
  C8. A process that is asked to stop, or whose start failed, comes to an end from every state, and leaves nothing behind:
  no Reloader polls, the metrics listener, the exporter and the owners' connections are closed, and
  Control's is too unless the start failed.
\<close>

theorem stopped_process_leaves_nothing:
  assumes "proc_reach c n s"
  shows "(asked s \<longrightarrow> (\<exists>t. (proc_step c)\<^sup>*\<^sup>* s t \<and> halted t))
    \<and> (halted s \<longrightarrow> (\<forall>p\<in>set (reloaders s). live p = {}) \<and> \<not> metrics_up s \<and> \<not> provider_up s \<and> \<not> mcp_conn s
         \<and> \<not> knowledge_conn s \<and> \<not> in_service s \<and> (failed s = None \<longrightarrow> \<not> control_open (life s)))"
proof (intro conjI impI)
  note inv = proc_reach_inv [OF assms]
  from inv have r: "resource_inv s" and st: "start_inv c s" and l: "life_inv (life s)"
    using lived_inv by (auto simp: proc_inv_def)
  show "\<exists>t. (proc_step c)\<^sup>*\<^sup>* s t \<and> halted t" if "asked s" by (rule asked_halts [OF assms that])
  assume h: "halted s"
  then show "\<forall>p\<in>set (reloaders s). live p = {}" "\<not> metrics_up s" "\<not> provider_up s" "\<not> mcp_conn s" "\<not> knowledge_conn s"
    using r poller_none by (auto simp: resource_inv_def halted_def)
  show sv: "\<not> in_service s"
    using in_service_whole(1) [OF inv] h by (auto simp: halted_def hooks_defs split: if_splits)
  show "\<not> control_open (life s)" if "failed s = None"
    using sv start_inv_parts(4) [OF st] that h life_inv_parts(5) [OF l] by (auto simp: in_service_def halted_def)
qed

theorem stopped_process_leaves_nothing_witness:
  "\<exists>s t. proc_reach metrics_config 1 s \<and> failed s = Some ''in use'' \<and> (proc_step metrics_config)\<^sup>*\<^sup>* s t \<and> halted t \<and> \<not> metrics_up t"
proof -
  obtain s where s: "proc_reach metrics_config 1 s" "asked s" "failed s = Some ''in use''" using demo_failed by blast
  with stopped_process_leaves_nothing [OF s(1)] obtain t where t: "(proc_step metrics_config)\<^sup>*\<^sup>* s t" "halted t" by blast
  with stopped_process_leaves_nothing [OF proc_runs.run_possible [OF s(1) t(1)]] s show ?thesis by blast
qed

end
