(* ===== verification/Wiring.thy ===== *)
theory Wiring
  imports Process
begin

text \<open>
  The Fx module of internal/bootstrap/module.go and the program of cmd/anvilkit-agent-api/main.go: which
  constructor needs what, in which order Fx runs them, what they build, and the code with which the process exits.

  Documented behaviour of Fx: constructors are lazy and run at most once; to call a function, the values of its
  parameters are built in their order, each after its own parameters; a cycle or a missing
  provider is an error; the logger of WithLogger is built before the invoked functions run. The first error of a constructor
  ends New, and Run exits with 1 without running a hook. Run exits with 1 when the start or the stop failed,
  and with the code of the shutdown otherwise (0 for a signal).
\<close>

section \<open>The graph of constructors\<close>

datatype dep =
    Lifecycle_dep | Shutdowner_dep
  | Config_dep | Logger_dep | Verifier_dep | Identities_dep | ControlClient_dep | Control_dep | Gateways_dep
  | Tracer_dep | Metrics_dep | Readiness_dep | Server_dep

type_synonym graph = "(dep \<times> dep list) list"

text \<open>fx.Provide: the result of every constructor with its parameters.\<close>

definition provides :: graph where
  "provides =
     [(Config_dep, []),
      (Logger_dep, []),
      (Verifier_dep, [Config_dep, Logger_dep]),
      (Identities_dep, [Lifecycle_dep, Config_dep, Logger_dep]),
      (ControlClient_dep, [Config_dep, Identities_dep]),
      (Control_dep, [ControlClient_dep]),
      (Gateways_dep, [Lifecycle_dep, Config_dep, Identities_dep, Logger_dep]),
      (Tracer_dep, [Lifecycle_dep, Config_dep, Identities_dep]),
      (Metrics_dep, [Lifecycle_dep, Config_dep, Logger_dep]),
      (Readiness_dep, [ControlClient_dep]),
      (Server_dep, [Config_dep, Verifier_dep, Control_dep, Gateways_dep, Tracer_dep, Metrics_dep, Readiness_dep, Logger_dep])]"

text \<open>The parameters of the function given to WithLogger, and of run.\<close>

definition logger_params :: "dep list" where
  "logger_params = [Logger_dep]"

definition run_params :: "dep list" where
  "run_params = [Lifecycle_dep, Shutdowner_dep, Config_dep, Server_dep, ControlClient_dep, Readiness_dep, Logger_dep]"

text \<open>What Fx itself provides.\<close>

definition fx_own :: "dep list" where
  "fx_own = [Lifecycle_dep, Shutdowner_dep]"

datatype wiring_err = Cycle dep | Missing dep

text \<open>A constructor is on the path at most once, so the constructors off the path get fewer.\<close>

lemma off_path_shrinks:
  assumes "map_of g t = Some ps" "t \<notin> set path"
  shows "card (fst ` set g - set (t # path)) < card (fst ` set g - set path)"
proof -
  have "t \<in> fst ` set g" using map_of_SomeD [OF assms(1)] by force
  then show ?thesis using assms(2) by (intro psubset_card_mono) auto
qed

text \<open>The resolution of parameters: \<open>path\<close> are the constructors whose parameters are being built, \<open>built\<close> what is built.\<close>

function resolve_deps :: "graph \<Rightarrow> dep list \<Rightarrow> dep list \<Rightarrow> dep list \<Rightarrow> wiring_err + dep list" where
  "resolve_deps g path [] built = Inr built"
| "resolve_deps g path (t # ts) built =
     (if t \<in> set built then resolve_deps g path ts built
      else if t \<in> set path then Inl (Cycle t)
      else (case map_of g t of
              None \<Rightarrow> Inl (Missing t)
            | Some ps \<Rightarrow>
                (case resolve_deps g (t # path) ps built of
                   Inl e \<Rightarrow> Inl e
                 | Inr built' \<Rightarrow> resolve_deps g path ts (built' @ [t]))))"
  by pat_completeness auto

termination
  by (relation "measures [\<lambda>(g, path, ts, built). card (fst ` set g - set path), \<lambda>(g, path, ts, built). length ts]")
     (auto dest: off_path_shrinks)

text \<open>An order in which every constructor runs once and after its parameters.\<close>

definition params_of :: "graph \<Rightarrow> dep \<Rightarrow> dep list" where
  "params_of g t = (case map_of g t of None \<Rightarrow> [] | Some ps \<Rightarrow> ps)"

definition in_order :: "graph \<Rightarrow> dep list \<Rightarrow> bool" where
  "in_order g order \<longleftrightarrow> distinct order \<and> (\<forall>xs t ys. order = xs @ t # ys \<longrightarrow> set (params_of g t) \<subseteq> set xs)"

lemma in_order_snoc:
  assumes "in_order g order" "t \<notin> set order" "set (params_of g t) \<subseteq> set order"
  shows "in_order g (order @ [t])"
proof -
  have "set (params_of g u) \<subseteq> set xs" if "order @ [t] = xs @ u # ys" for xs u ys
  proof (cases ys rule: rev_cases)
    case Nil
    with that assms(3) show ?thesis by simp
  next
    case (snoc zs z)
    with that have "order = xs @ u # zs" by simp
    with assms(1) show ?thesis unfolding in_order_def by blast
  qed
  with assms(1,2) show ?thesis by (simp add: in_order_def)
qed

text \<open>Whatever the graph, a resolution that succeeds is such an order; nothing on the path is built meanwhile.\<close>

lemma resolve_deps_in_order:
  assumes "resolve_deps g path ts built = Inr order" "in_order g built"
  shows "in_order g order \<and> set ts \<subseteq> set order \<and> set built \<subseteq> set order \<and> set order \<inter> set path \<subseteq> set built"
  using assms
proof (induction g path ts built arbitrary: order rule: resolve_deps.induct)
  case (2 g path t ts built)
  show ?case
  proof (cases "t \<in> set built")
    case True
    with 2 show ?thesis by fastforce
  next
    case t: False
    with 2(4) have p: "t \<notin> set path" by (auto split: if_splits)
    from 2(4) t p obtain ps mid where ps: "map_of g t = Some ps" "resolve_deps g (t # path) ps built = Inr mid"
      and rest: "resolve_deps g path ts (mid @ [t]) = Inr order"
      by (auto split: option.splits sum.splits)
    from "2.IH"(2) [OF t p ps 2(5)] have m: "in_order g mid" "set ps \<subseteq> set mid" "set built \<subseteq> set mid"
      "set mid \<inter> set (t # path) \<subseteq> set built" by blast+
    then have "t \<notin> set mid" using t by auto
    with m ps have o1: "in_order g (mid @ [t])" by (intro in_order_snoc) (auto simp: params_of_def)
    from "2.IH"(3) [OF t p ps rest o1] have o2: "in_order g order" "set ts \<subseteq> set order" "set (mid @ [t]) \<subseteq> set order"
      "set order \<inter> set path \<subseteq> set (mid @ [t])" by blast+
    then have "set order \<inter> set path \<subseteq> set mid \<inter> set (t # path)" using p by auto
    with o2 m(3,4) show ?thesis by auto
  qed
qed auto

text \<open>The order in which this module's constructors run.\<close>

definition construction :: "wiring_err + dep list" where
  "construction = bindR (resolve_deps provides [] logger_params fx_own) (resolve_deps provides [] run_params)"

lemma construction_order: "construction = Inr (fx_own @
    [Logger_dep, Config_dep, Verifier_dep, Identities_dep, ControlClient_dep, Control_dep, Gateways_dep, Tracer_dep,
     Metrics_dep, Readiness_dep, Server_dep])"
  by code_simp

section \<open>What the constructors build\<close>

text \<open>
  The results outside the program: of config.Load, of identity.New, of the files and the issuer's discovery that newVerifier
  and the collector's section read, of dialing an address, of the OTLP exporter, and of NewServer (the contract document and its router).
\<close>

record 'r world =
  w_load :: "config_err + config"
  w_identity :: "files \<Rightarrow> string + 'r"
  w_principals :: "string \<Rightarrow> string + (string \<times> token_entry) list"
  w_pool :: "string \<Rightarrow> string + string list"
  w_discovery :: "string \<Rightarrow> string option"
  w_dial :: "string \<Rightarrow> string option"
  w_exporter :: "string \<Rightarrow> exporter_option \<Rightarrow> string option"
  w_server :: "string option"

record 'r app =
  ap_config :: "config option"
  ap_verifier :: "verifier_choice option"
  ap_ids :: "'r identities"
  ap_hooks :: "hook list"
  ap_client :: "transport option"
  ap_gateways :: "(placed \<times> placed) option"
  ap_tracer :: "tracer option"
  ap_server :: "server_options option"

definition empty_app :: "'r app" where
  "empty_app = \<lparr>ap_config = None, ap_verifier = None, ap_ids = no_identities, ap_hooks = [], ap_client = None,
     ap_gateways = None, ap_tracer = None, ap_server = None\<rparr>"

datatype new_err = WiringErr wiring_err | LoadErr config_err | ConstructorErr string | Unbuilt

definition failing :: "string + 'a \<Rightarrow> new_err + 'a" where
  "failing r = (case r of Inl m \<Rightarrow> Inl (ConstructorErr m) | Inr v \<Rightarrow> Inr v)"

definition dialed :: "'r world \<Rightarrow> string \<Rightarrow> new_err + unit" where
  "dialed w addr = (case w_dial w addr of Some m \<Rightarrow> Inl (ConstructorErr m) | None \<Rightarrow> Inr ())"

definition config_of :: "'r app \<Rightarrow> new_err + config" where
  "config_of a = (case ap_config a of None \<Rightarrow> Inl Unbuilt | Some c \<Rightarrow> Inr c)"

text \<open>One owner of newGateways: its transport, its connection, its stop hook.\<close>

definition open_owner ::
  "'r world \<Rightarrow> config \<Rightarrow> string \<Rightarrow> owner_section \<Rightarrow> string \<Rightarrow> (hook list \<Rightarrow> hook list) \<Rightarrow> 'r identities \<Rightarrow> hook list \<Rightarrow>
   new_err + placed \<times> 'r identities \<times> hook list" where
  "open_owner w c nm sect defaultServerName append_hook ids lc =
     (case place (w_identity w) c nm sect defaultServerName ids of
        (Inl m, ids') \<Rightarrow> Inl (ConstructorErr m)
      | (Inr Unplaced, ids') \<Rightarrow> Inr (Unplaced, ids', lc)
      | (Inr (Placed t), ids') \<Rightarrow> bindR (dialed w (owner_address sect)) (\<lambda>_. Inr (Placed t, ids', append_hook lc)))"

definition construct :: "'r world \<Rightarrow> dep \<Rightarrow> 'r app \<Rightarrow> new_err + 'r app" where
  "construct w t a =
     (case t of
        Config_dep \<Rightarrow> (case w_load w of Inl e \<Rightarrow> Inl (LoadErr e) | Inr c \<Rightarrow> Inr (a\<lparr>ap_config := Some c\<rparr>))
      | Verifier_dep \<Rightarrow> bindR (config_of a) (\<lambda>c.
          bindR (failing (newVerifier (w_principals w) (w_pool w) (w_discovery w) c)) (\<lambda>v. Inr (a\<lparr>ap_verifier := Some v\<rparr>)))
      | Identities_dep \<Rightarrow> Inr (a\<lparr>ap_ids := no_identities, ap_hooks := newIdentities (ap_hooks a)\<rparr>)
      | ControlClient_dep \<Rightarrow> bindR (config_of a) (\<lambda>c.
          case newControl (w_identity w) c (ap_ids a) of (r, ids) \<Rightarrow>
            bindR (failing r) (\<lambda>tr. bindR (dialed w (control_address c)) (\<lambda>_. Inr (a\<lparr>ap_ids := ids, ap_client := Some tr\<rparr>))))
      | Gateways_dep \<Rightarrow> bindR (config_of a) (\<lambda>c.
          bindR (open_owner w c ''knowledge'' (Knowledge c) ''anvilkit-agent-knowledge'' (knowledge_hook c) (ap_ids a) (ap_hooks a)) (\<lambda>(k, ids, lc).
          bindR (open_owner w c ''mcp'' (MCP c) ''anvilkit-agent-mcp'' (mcp_hook c) ids lc) (\<lambda>(g, ids', lc').
            Inr (a\<lparr>ap_ids := ids', ap_hooks := lc', ap_gateways := Some (k, g)\<rparr>))))
      | Tracer_dep \<Rightarrow> bindR (config_of a) (\<lambda>c.
          case newTracer (w_identity w) (w_pool w) c (ap_ids a) of (r, ids) \<Rightarrow>
            bindR (failing r) (\<lambda>tr. bindR (failing (tracer_of (w_exporter w) c tr)) (\<lambda>tc.
              Inr (a\<lparr>ap_ids := ids, ap_hooks := tracer_hook c (ap_hooks a), ap_tracer := Some tc\<rparr>))))
      | Metrics_dep \<Rightarrow> bindR (config_of a) (\<lambda>c. Inr (a\<lparr>ap_hooks := newMetrics c (ap_hooks a)\<rparr>))
      | Server_dep \<Rightarrow> bindR (config_of a) (\<lambda>c.
          case w_server w of Some m \<Rightarrow> Inl (ConstructorErr m) | None \<Rightarrow> Inr (a\<lparr>ap_server := Some (ServerOptions c)\<rparr>))
      | _ \<Rightarrow> Inr a)"

fun construct_all :: "'r world \<Rightarrow> dep list \<Rightarrow> 'r app \<Rightarrow> new_err + 'r app" where
  "construct_all w [] a = Inr a"
| "construct_all w (t # ts) a = bindR (construct w t a) (construct_all w ts)"

text \<open>fx.New(Module()): the constructors in the order of the graph, then run, which appends the API's hook.\<close>

definition new_app :: "'r world \<Rightarrow> new_err + 'r app" where
  "new_app w =
     (case construction of
        Inl e \<Rightarrow> Inl (WiringErr e)
      | Inr order \<Rightarrow> bindR (construct_all w order empty_app) (\<lambda>a. Inr (a\<lparr>ap_hooks := run_hook (ap_hooks a)\<rparr>)))"

subsection \<open>The assembled process\<close>

lemma failing_Inr [simp]: "failing r = Inr v \<longleftrightarrow> r = Inr v"
  by (cases r) (simp_all add: failing_def)

lemma dialed_Inr [simp]: "dialed w addr = Inr u \<longleftrightarrow> w_dial w addr = None"
  by (cases "w_dial w addr") (simp_all add: dialed_def)

lemma config_of_Inr [simp]: "config_of a = Inr c \<longleftrightarrow> ap_config a = Some c"
  by (cases "ap_config a") (simp_all add: config_of_def)

lemma place_placed: "place mk c nm sect d ids = (Inr p, ids') \<Longrightarrow> p = Unplaced \<longleftrightarrow> owner_address sect = []"
  by (auto simp: place_def split: if_splits prod.splits)

definition owner_dialed :: "'r world \<Rightarrow> owner_section \<Rightarrow> bool" where
  "owner_dialed w sect \<longleftrightarrow> owner_address sect = [] \<or> w_dial w (owner_address sect) = None"

lemma open_owner_Inr:
  assumes "owner_address sect = [] \<Longrightarrow> append_hook lc = lc"
  shows "open_owner w c nm sect d append_hook ids lc = Inr (p, ids', lc') \<longleftrightarrow>
    place (w_identity w) c nm sect d ids = (Inr p, ids') \<and> owner_dialed w sect \<and> lc' = append_hook lc"
  using place_placed [of "w_identity w" c nm sect d ids p ids'] assms
  by (auto simp: open_owner_def owner_dialed_def split: prod.splits sum.splits placed.splits dest: place_placed)

lemma newGateways_Inr: "newGateways mk c ids = (Inr (k, g), ids2) \<longleftrightarrow>
    (\<exists>ids1. place mk c ''knowledge'' (Knowledge c) ''anvilkit-agent-knowledge'' ids = (Inr k, ids1) \<and>
      place mk c ''mcp'' (MCP c) ''anvilkit-agent-mcp'' ids1 = (Inr g, ids2))"
  by (auto simp: newGateways_def split: prod.splits sum.splits)

lemma construct_steps:
  "construct w Config_dep a = Inr b \<longleftrightarrow> (\<exists>c. w_load w = Inr c \<and> b = a\<lparr>ap_config := Some c\<rparr>)"
  "construct w Verifier_dep a = Inr b \<longleftrightarrow> (\<exists>c v. ap_config a = Some c \<and>
     newVerifier (w_principals w) (w_pool w) (w_discovery w) c = Inr v \<and> b = a\<lparr>ap_verifier := Some v\<rparr>)"
  "construct w Identities_dep a = Inr b \<longleftrightarrow> b = a\<lparr>ap_ids := no_identities, ap_hooks := newIdentities (ap_hooks a)\<rparr>"
  "construct w ControlClient_dep a = Inr b \<longleftrightarrow> (\<exists>c tr ids. ap_config a = Some c \<and>
     newControl (w_identity w) c (ap_ids a) = (Inr tr, ids) \<and> w_dial w (control_address c) = None \<and> b = a\<lparr>ap_ids := ids, ap_client := Some tr\<rparr>)"
  "construct w Gateways_dep a = Inr b \<longleftrightarrow> (\<exists>c k g ids. ap_config a = Some c \<and>
     newGateways (w_identity w) c (ap_ids a) = (Inr (k, g), ids) \<and> owner_dialed w (Knowledge c) \<and> owner_dialed w (MCP c) \<and>
     b = a\<lparr>ap_ids := ids, ap_hooks := mcp_hook c (knowledge_hook c (ap_hooks a)), ap_gateways := Some (k, g)\<rparr>)"
  "construct w Tracer_dep a = Inr b \<longleftrightarrow> (\<exists>c tr tc ids. ap_config a = Some c \<and> newTracer (w_identity w) (w_pool w) c (ap_ids a) = (Inr tr, ids) \<and>
     tracer_of (w_exporter w) c tr = Inr tc \<and> b = a\<lparr>ap_ids := ids, ap_hooks := tracer_hook c (ap_hooks a), ap_tracer := Some tc\<rparr>)"
  "construct w Metrics_dep a = Inr b \<longleftrightarrow> (\<exists>c. ap_config a = Some c \<and> b = a\<lparr>ap_hooks := newMetrics c (ap_hooks a)\<rparr>)"
  "construct w Server_dep a = Inr b \<longleftrightarrow> (\<exists>c. ap_config a = Some c \<and> w_server w = None \<and> b = a\<lparr>ap_server := Some (ServerOptions c)\<rparr>)"
  "t \<in> {Lifecycle_dep, Shutdowner_dep, Logger_dep, Control_dep, Readiness_dep} \<Longrightarrow> construct w t a = Inr a"
proof -
  have k: "owner_address (Knowledge c) = [] \<Longrightarrow> knowledge_hook c lc = lc" "owner_address (MCP c) = [] \<Longrightarrow> mcp_hook c lc = lc" for c lc
    by (simp_all add: knowledge_hook_def mcp_hook_def)
  show "construct w Gateways_dep a = Inr b \<longleftrightarrow> (\<exists>c k g ids. ap_config a = Some c \<and>
     newGateways (w_identity w) c (ap_ids a) = (Inr (k, g), ids) \<and> owner_dialed w (Knowledge c) \<and> owner_dialed w (MCP c) \<and>
     b = a\<lparr>ap_ids := ids, ap_hooks := mcp_hook c (knowledge_hook c (ap_hooks a)), ap_gateways := Some (k, g)\<rparr>)"
    by (auto simp: construct_def open_owner_Inr [OF k(1)] open_owner_Inr [OF k(2)] newGateways_Inr)
  show "construct w ControlClient_dep a = Inr b \<longleftrightarrow> (\<exists>c tr ids. ap_config a = Some c \<and>
     newControl (w_identity w) c (ap_ids a) = (Inr tr, ids) \<and> w_dial w (control_address c) = None \<and> b = a\<lparr>ap_ids := ids, ap_client := Some tr\<rparr>)"
    by (auto simp: construct_def case_prod_beta prod_eq_iff)
  show "construct w Tracer_dep a = Inr b \<longleftrightarrow> (\<exists>c tr tc ids. ap_config a = Some c \<and> newTracer (w_identity w) (w_pool w) c (ap_ids a) = (Inr tr, ids) \<and>
     tracer_of (w_exporter w) c tr = Inr tc \<and> b = a\<lparr>ap_ids := ids, ap_hooks := tracer_hook c (ap_hooks a), ap_tracer := Some tc\<rparr>)"
    by (auto simp: construct_def case_prod_beta prod_eq_iff)
qed (auto simp: construct_def split: sum.splits option.splits)

definition opened :: "'r world \<Rightarrow> config \<Rightarrow> bool" where
  "opened w c \<longleftrightarrow> w_dial w (control_address c) = None \<and> owner_dialed w (Knowledge c) \<and> owner_dialed w (MCP c) \<and> w_server w = None"

lemma new_app_Inr: "new_app w = Inr a \<longleftrightarrow>
    (\<exists>c v tr ids0 k g ids1 t tc ids. w_load w = Inr c \<and> newVerifier (w_principals w) (w_pool w) (w_discovery w) c = Inr v \<and>
      newControl (w_identity w) c no_identities = (Inr tr, ids0) \<and> newGateways (w_identity w) c ids0 = (Inr (k, g), ids1) \<and>
      newTracer (w_identity w) (w_pool w) c ids1 = (Inr t, ids) \<and> tracer_of (w_exporter w) c t = Inr tc \<and> opened w c \<and>
      a = \<lparr>ap_config = Some c, ap_verifier = Some v, ap_ids = ids, ap_hooks = hooks_of c,
        ap_client = Some tr, ap_gateways = Some (k, g), ap_tracer = Some tc, ap_server = Some (ServerOptions c)\<rparr>)"
proof
  assume "new_app w = Inr a"
  then show "\<exists>c v tr ids0 k g ids1 t tc ids. w_load w = Inr c \<and> newVerifier (w_principals w) (w_pool w) (w_discovery w) c = Inr v \<and>
      newControl (w_identity w) c no_identities = (Inr tr, ids0) \<and> newGateways (w_identity w) c ids0 = (Inr (k, g), ids1) \<and>
      newTracer (w_identity w) (w_pool w) c ids1 = (Inr t, ids) \<and> tracer_of (w_exporter w) c t = Inr tc \<and> opened w c \<and>
      a = \<lparr>ap_config = Some c, ap_verifier = Some v, ap_ids = ids, ap_hooks = hooks_of c,
        ap_client = Some tr, ap_gateways = Some (k, g), ap_tracer = Some tc, ap_server = Some (ServerOptions c)\<rparr>"
    by (auto simp: new_app_def construction_order fx_own_def construct_steps empty_app_def opened_def hooks_of_def)
qed (auto simp: new_app_def construction_order fx_own_def construct_steps empty_app_def opened_def hooks_of_def)

subsection \<open>What the connections authenticate with\<close>

text \<open>What is given, or the value used instead.\<close>

definition given :: "string \<Rightarrow> string \<Rightarrow> string" where
  "given own_value otherwise = (if own_value = [] then otherwise else own_value)"

text \<open>The files of a client: each its own where its section names it, the process's otherwise.\<close>

definition identity_files :: "config \<Rightarrow> mtls_files \<Rightarrow> files" where
  "identity_files c m = \<lparr>CertFile = given (mtls_cert m) (id_cert (Identity c)), KeyFile = given (mtls_key m) (id_key (Identity c)),
     CAFile = given (mtls_ca m) (id_ca (Identity c))\<rparr>"

text \<open>A transport under the identity of these files, which a started reloader was loaded from and polls, to a server of that name.\<close>

definition authenticates :: "'r world \<Rightarrow> 'r app \<Rightarrow> files \<Rightarrow> string \<Rightarrow> transport \<Rightarrow> bool" where
  "authenticates w a f server t \<longleftrightarrow> (\<exists>n. t = Mutual n server \<and> polls_files (w_identity w) (ap_ids a) n f)"

lemma identity_files: "files_of (Resolved c ci) = identity_files c (ci_mtls ci)"
  by (simp add: files_of_def Resolved_def Let_def identity_files_def given_def)

lemma client_authenticates:
  assumes "ids_inv c ids" "loaded (w_identity w) ids" "ids_client (w_identity w) c nm ci d ids = (Inr t, ids')" "\<not> dev_enabled c"
    and "grown (w_identity w) ids' (ap_ids a)"
  shows "authenticates w a (identity_files c (ci_mtls ci)) (given (mtls_server_name (ci_mtls ci)) d) t"
  using ids_client_polls [OF assms(1-4)] polls_files_grown [OF _ assms(5)]
  by (auto simp: authenticates_def identity_files given_def)

text \<open>An owner that is not placed has no transport.\<close>

definition owner_authenticates :: "'r world \<Rightarrow> 'r app \<Rightarrow> config \<Rightarrow> owner_section \<Rightarrow> string \<Rightarrow> placed \<Rightarrow> bool" where
  "owner_authenticates w a c sect server p \<longleftrightarrow>
     (case p of
        Unplaced \<Rightarrow> owner_address sect = []
      | Placed t \<Rightarrow> owner_address sect \<noteq> [] \<and> authenticates w a (identity_files c (ci_mtls (owner_identity sect)))
          (given (mtls_server_name (ci_mtls (owner_identity sect))) server) t)"

lemma place_authenticates:
  assumes "ids_inv c ids" "loaded (w_identity w) ids" "place (w_identity w) c nm sect d ids = (Inr p, ids')" "\<not> dev_enabled c"
    and "grown (w_identity w) ids' (ap_ids a)"
  shows "owner_authenticates w a c sect d p"
proof (cases "owner_address sect = []")
  case True
  with assms(3) show ?thesis by (auto simp: place_def owner_authenticates_def)
next
  case False
  with assms(3) obtain t where "p = Placed t" "ids_client (w_identity w) c nm (owner_identity sect) d ids = (Inr t, ids')"
    by (auto simp: place_def split: prod.splits)
  with False client_authenticates [OF assms(1,2) _ assms(4,5)] show ?thesis by (simp add: owner_authenticates_def)
qed

text \<open>The exporter of a placed collector: TLS against its bundle, or mutual TLS under its own files.\<close>

definition collector_authenticates :: "'r world \<Rightarrow> 'r app \<Rightarrow> config \<Rightarrow> tracer \<Rightarrow> bool" where
  "collector_authenticates w a c tc \<longleftrightarrow>
     (let o' = OTLPTLS (Telemetry c) in
      case tc of
        NoopTracer \<Rightarrow> OTLPEndpoint (Telemetry c) = []
      | ProviderTracer p \<Rightarrow> OTLPEndpoint (Telemetry c) \<noteq> [] \<and> pr_endpoint p = OTLPEndpoint (Telemetry c) \<and>
          (case pr_credentials p of WithInsecure \<Rightarrow> False | WithTLSCredentials t \<Rightarrow>
             (if tls_mode o' = ''tls'' then \<exists>pool. pool \<noteq> [] \<and> w_pool w (tls_ca o') = Inr pool \<and> t = ServerTLS pool (tls_server_name o')
              else authenticates w a \<lparr>CertFile = tls_cert o', KeyFile = tls_key o', CAFile = tls_ca o'\<rparr> (tls_server_name o') t)))"

lemma collector_transport:
  assumes "ids_inv c ids" "loaded (w_identity w) ids" "collectorCredentials (w_identity w) (w_pool w) c nm o' ids = (Inr t, ids')"
    "\<not> dev_enabled c"
  shows "if tls_mode o' = ''tls'' then \<exists>pool. pool \<noteq> [] \<and> w_pool w (tls_ca o') = Inr pool \<and> t = ServerTLS pool (tls_server_name o')
    else \<exists>n. t = Mutual n (tls_server_name o') \<and> polls_files (w_identity w) ids' n \<lparr>CertFile = tls_cert o', KeyFile = tls_key o', CAFile = tls_ca o'\<rparr>"
  using assms(3,4) mtls_client_polls [OF assms(1,2)]
  by (auto simp: collectorCredentials_def named_def caPool_def split: if_splits sum.splits)

lemma tracer_authenticates:
  assumes "ids_inv c ids" "loaded (w_identity w) ids" "newTracer (w_identity w) (w_pool w) c ids = (Inr p, ap_ids a)" "\<not> dev_enabled c"
    and "tracer_of ne c p = Inr tc"
  shows "collector_authenticates w a c tc"
proof (cases "OTLPEndpoint (Telemetry c) = []")
  case True
  with assms(3,5) show ?thesis by (auto simp: newTracer_def tracer_of_def collector_authenticates_def)
next
  case False
  with assms(3) obtain t where t: "p = Placed t"
    "collectorCredentials (w_identity w) (w_pool w) c ''telemetry.otlp_tls'' (OTLPTLS (Telemetry c)) ids = (Inr t, ap_ids a)"
    by (auto simp: newTracer_def split: prod.splits)
  note tr = collector_transport [OF assms(1,2) t(2) assms(4)]
  then have "otlpCredentials t = WithTLSCredentials t" using exporter_plaintext [of t] by (auto simp: otlpCredentials_def split: if_splits)
  then show ?thesis using False assms(5) t(1) tr
    by (auto simp: tracer_of_def collector_authenticates_def authenticates_def Let_def split: option.splits)
qed

section \<open>The program\<close>

text \<open>
  fx.New(Module()).Run(): 1 when New failed, when a start hook failed or when a stop hook returned an error (the API's, of which Down tells, or
  another), the code of the shutdown otherwise. An exit comes with the state in which the process halted, if there was one.
\<close>

definition run_code :: "proc \<Rightarrow> nat" where
  "run_code s =
     (if failed s \<noteq> None then 1
      else if stop_errors s \<noteq> [] then 1
      else (case phase (life s) of Down (Some _) \<Rightarrow> 1 | _ \<Rightarrow> (case exit_code (life s) of None \<Rightarrow> 0 | Some n \<Rightarrow> n)))"

inductive main_exits :: "'r world \<Rightarrow> proc option \<Rightarrow> nat \<Rightarrow> bool" for w where
  new_fails: "new_app w = Inl e \<Longrightarrow> main_exits w None 1"
| run_ends: "new_app w = Inr a \<Longrightarrow> ap_config a = Some c \<Longrightarrow> proc_reach c (length (started (ap_ids a))) s \<Longrightarrow> halted s \<Longrightarrow>
    main_exits w (Some s) (run_code s)"

inductive_simps main_exits_unbuilt: "main_exits w None k"
inductive_simps main_exits_built: "main_exits w (Some s) k"

text \<open>The process that starts has the hooks its constructors appended.\<close>

lemma new_app_starts: "new_app w = Inr a \<Longrightarrow> ap_config a = Some c \<Longrightarrow> todo (constructed c n) = ap_hooks a"
  by (auto simp: new_app_Inr constructed_def)

text \<open>A halted process whose start did not fail went through its whole stop.\<close>

lemma halted_down:
  assumes "proc_inv c s" "halted s" "failed s = None"
  obtains v where "phase (life s) = Down v" "exit_code (life s) \<noteq> None" "v = None \<longrightarrow> in_flight (life s) = 0"
proof -
  have l: "life_inv (life s)" and st: "start_inv c s" using assms(1) lived_inv by (auto simp: proc_inv_def)
  have "begun s \<noteq> rev (hooks_of c)" using assms(2) by (simp add: halted_def hooks_defs)
  then have "unwinding s" using start_inv_parts(5) [OF st] assms(2) by (auto simp: halted_def)
  with assms(3) obtain v where v: "phase (life s) = Down v" by (auto simp: unwinding_def)
  moreover have "exit_code (life s) \<noteq> None" using l v by (simp add: life_inv_def)
  moreover have "v = None \<longrightarrow> in_flight (life s) = 0" using life_inv_parts(4) [OF l] v by simp
  ultimately show ?thesis by (rule that)
qed

text \<open>The code of a halted process: 0 after a clean stop on a signal, 1 otherwise.\<close>

definition clean_end :: "proc \<Rightarrow> bool" where
  "clean_end s \<longleftrightarrow> failed s = None \<and> stop_errors s = [] \<and> phase (life s) = Down None \<and> in_flight (life s) = 0 \<and> cause (life s) = Some Signalled"

lemma run_code_tells:
  assumes "proc_reach c n s" "halted s"
  shows "run_code s = (if clean_end s then 0 else 1)"
proof (cases "failed s")
  case None
  note inv = proc_reach_inv [OF assms(1)]
  from halted_down [OF inv assms(2) None] obtain v where v: "phase (life s) = Down v" "exit_code (life s) \<noteq> None"
    "v = None \<longrightarrow> in_flight (life s) = 0" .
  have "exit_code (life s) = map_option cause_code (cause (life s))" using inv lived_cause by (simp add: proc_inv_def)
  with v(2) obtain x where x: "cause (life s) = Some x" "exit_code (life s) = Some (cause_code x)" by auto
  have z: "cause_code x = 0 \<longleftrightarrow> x = Signalled" "cause_code x = 0 \<or> cause_code x = 1" by (cases x; simp)+
  show ?thesis
    using None v(1,3) x z by (cases v) (auto simp: run_code_def clean_end_def)
qed (simp add: run_code_def clean_end_def)

subsection \<open>A run that ends well\<close>

lemma start_unfailed:
  assumes "proc_reach c n s" "todo s = h # hs" "h \<noteq> ApiHook"
  shows "\<exists>t. proc_reach c n t \<and> todo t = hs \<and> stop_errors t = stop_errors s"
proof -
  consider "h = IdentitiesHook" | "h \<in> {KnowledgeHook, McpHook, TracerHook}" | "h = MetricsHook"
    using assms(3) by (cases h) auto
  then have "\<exists>t. proc_step c s t \<and> todo t = hs \<and> stop_errors t = stop_errors s"
  proof cases
    case 1
    with start_identities [of s hs c] assms(2) show ?thesis by (auto simp: start_next_def intro!: exI)
  next
    case 2
    then have "proc_step c s (start_next s)" by (rule start_nothing [OF assms(2)])
    then show ?thesis using assms(2) by (auto simp: start_next_def)
  next
    case 3
    with start_metrics [of s hs c] assms(2) show ?thesis by (auto simp: start_next_def intro!: exI)
  qed
  with assms(1) proc_next show ?thesis by blast
qed

lemma start_possible:
  assumes "proc_reach c n s" "todo s \<noteq> []" "stop_errors s = []"
  shows "\<exists>t. proc_reach c n t \<and> todo t = [] \<and> failed t = None \<and> stop_errors t = [] \<and> phase (life t) = Up \<and> in_flight (life t) = 0
    \<and> exit_code (life t) = None"
  using assms
proof (induction "todo s" arbitrary: s)
  case (Cons h hs)
  have inv: "start_inv c s" "life_inv (life s)" using proc_reach_inv [OF Cons.prems(1)] lived_inv by (auto simp: proc_inv_def)
  have st: "failed s = None" "phase (life s) = Fresh" "hooks_of c = rev (begun s) @ h # hs"
    using start_inv_parts(2) [OF inv(1)] Cons.prems(2) Cons.hyps(2) by simp_all
  show ?case
  proof (cases hs rule: rev_cases)
    case Nil
    then have h: "todo s = ApiHook # []" using st(3) Cons.hyps(2) by (simp add: hooks_of_def run_hook_def)
    have "exit_code (life s) = None" "in_flight (life s) = 0" using life_inv_parts(6,7) [OF inv(2)] st(2) by simp_all
    moreover have "proc_reach c n (start_next s\<lparr>life := start_hook (Listen (HTTP c)) None (life s)\<rparr>)"
      by (rule proc_next [OF Cons.prems(1) start_api [OF h]])
    ultimately show ?thesis using st(1) h Cons.prems(3)
      by (intro exI [of _ "start_next s\<lparr>life := start_hook (Listen (HTTP c)) None (life s)\<rparr>"]) (simp add: start_next_def start_hook_def)
  next
    case (snoc gs g)
    then have "h \<noteq> ApiHook" using st(3) api_last [of c "rev (begun s)" hs] by auto
    with start_unfailed [OF Cons.prems(1) Cons.hyps(2) [symmetric]] obtain t where t: "proc_reach c n t" "todo t = hs" "stop_errors t = stop_errors s" by blast
    have "todo t \<noteq> []" using t(2) snoc by simp
    then show ?thesis by (rule Cons.hyps(1) [OF t(2) [symmetric] t(1)]) (use t(3) Cons.prems(3) in simp)
  qed
qed simp

text \<open>A life under way goes on within the process.\<close>

lemma life_goes_on:
  assumes "life_step\<^sup>*\<^sup>* (life s) l" "proc_reach c n s" "todo s = []" "phase (life s) \<noteq> Fresh"
  shows "proc_reach c n (s\<lparr>life := l\<rparr>) \<and> phase l \<noteq> Fresh"
  using assms(1)
proof (induction rule: rtranclp_induct)
  case (step l l')
  have "phase l' \<noteq> Fresh" using step(2,3)
    by (cases rule: life_step.cases) (auto simp: start_hook_def ask_exit_def blame_def Stop_def close_draining_def split: option.splits)
  moreover have "proc_step c (s\<lparr>life := l\<rparr>) (s\<lparr>life := l\<rparr>\<lparr>life := l'\<rparr>)" using step assms(3) by (intro lives) simp_all
  ultimately show ?case using step(3) proc_next by fastforce
qed (use assms(2,4) in simp)

lemma clean_stop:
  assumes "phase l = Up" "in_flight l = 0" "exit_code l = None" "cause l = None"
  shows "\<exists>d. life_step\<^sup>*\<^sup>* l d \<and> phase d = Down None \<and> in_flight d = 0 \<and> cause d = Some Signalled"
proof -
  let ?a = "l\<lparr>cause := Some Signalled, exit_code := Some 0\<rparr>"
  let ?b = "?a\<lparr>phase := Withdrawn, ready := stop (ready ?a)\<rparr>"
  let ?c = "(Stop ?b)\<lparr>phase := Draining\<rparr>"
  let ?d = "?c\<lparr>phase := Drained None\<rparr>"
  let ?e = "?d\<lparr>phase := Down None, control_open := False\<rparr>"
  have s: "in_flight ?c = 0" "cause ?c = Some Signalled" using assms(2) by (simp_all add: Stop_def close_draining_def)
  have "life_step l ?a" using signal [of l] assms by (simp add: ask_exit_def blame_def)
  then have a: "life_step\<^sup>*\<^sup>* l ?a" by (rule r_into_rtranclp)
  have "life_step ?a ?b" using withdraw [of ?a] assms by simp
  with a have b: "life_step\<^sup>*\<^sup>* l ?b" by (rule rtranclp.rtrancl_into_rtrancl)
  have "life_step ?b ?c" using drain [of ?b] by simp
  with b have c: "life_step\<^sup>*\<^sup>* l ?c" by (rule rtranclp.rtrancl_into_rtrancl)
  have "life_step ?c ?d" using drained [of ?c] s by simp
  with c have d: "life_step\<^sup>*\<^sup>* l ?d" by (rule rtranclp.rtrancl_into_rtrancl)
  have "life_step ?d ?e" using close_control [of ?d None] by simp
  with d have "life_step\<^sup>*\<^sup>* l ?e" by (rule rtranclp.rtrancl_into_rtrancl)
  then show ?thesis using s by (intro exI [of _ ?e]) simp
qed

lemma unwinds:
  assumes "proc_reach c n s" "unwinding s"
  shows "\<exists>t. (proc_step c)\<^sup>*\<^sup>* s t \<and> halted t \<and> failed t = failed s \<and> stop_errors t = stop_errors s \<and> life t = life s"
proof (rule proc_runs.descends [where P = "\<lambda>t. unwinding t \<and> failed t = failed s \<and> stop_errors t = stop_errors s \<and> life t = life s" and work = "\<lambda>t. length (begun t)"])
  fix t assume t: "proc_reach c n t" "unwinding t \<and> failed t = failed s \<and> stop_errors t = stop_errors s \<and> life t = life s"
    and more: "\<not> (halted t \<and> failed t = failed s \<and> stop_errors t = stop_errors s \<and> life t = life s)"
  have "start_inv c t" using proc_reach_inv [OF t(1)] by (simp add: proc_inv_def)
  then have b: "begun t \<noteq> []" using t(2) more unwinding_started by (auto simp: halted_def)
  then have "length (tl (begun t)) < length (begun t)" by (cases "begun t") auto
  from unwinding_progress [of t c] t(2) b obtain u where u: "proc_step c t u" "begun u = tl (begun t)" "failed u = failed t" "stop_errors u = stop_errors t" "life u = life t"
    by blast
  have "unwinding u" using t(2) u(3,5) unfolding unwinding_def by metis
  with u t(2) \<open>length (tl (begun t)) < length (begun t)\<close>
  show "\<exists>u. proc_step c t u \<and> (unwinding u \<and> failed u = failed s \<and> stop_errors u = stop_errors s \<and> life u = life s) \<and> length (begun u) < length (begun t)"
    by (intro exI [of _ u]) simp
qed (use assms in simp_all)

lemma clean_run: "\<exists>s. proc_reach c n s \<and> halted s \<and> clean_end s"
proof -
  have "todo (constructed c n) \<noteq> []" "stop_errors (constructed c n) = []" by (simp_all add: constructed_def hooks_of_def run_hook_def)
  from start_possible [OF proc_new this] obtain s where s: "proc_reach c n s" "todo s = []" "failed s = None" "stop_errors s = []"
    "phase (life s) = Up" "in_flight (life s) = 0" "exit_code (life s) = None" by blast
  have "lived (life s)" using proc_reach_inv [OF s(1)] by (simp add: proc_inv_def)
  then have "cause (life s) = None" using lived_cause s(7) by simp
  from clean_stop [OF s(5-7) this] obtain d where d: "life_step\<^sup>*\<^sup>* (life s) d" "phase d = Down None" "in_flight d = 0" "cause d = Some Signalled" by blast
  let ?t = "s\<lparr>life := d\<rparr>"
  have t: "proc_reach c n ?t" using life_goes_on [OF d(1) s(1,2)] s(5) by simp
  have "unwinding ?t" using d(2) by (simp add: unwinding_def)
  from unwinds [OF t this] obtain u where u: "(proc_step c)\<^sup>*\<^sup>* ?t u" "halted u" "failed u = failed ?t" "stop_errors u = stop_errors ?t"
    "life u = life ?t" by blast
  have "clean_end u" using u(3-5) d s(3,4) by (simp add: clean_end_def)
  with proc_runs.run_possible [OF t u(1)] u(2) show ?thesis by blast
qed

section \<open>Properties\<close>

lemma construction_in_order: "construction = Inr order \<Longrightarrow> in_order provides order \<and> set (logger_params @ run_params) \<subseteq> set order"
proof -
  assume "construction = Inr order"
  then obtain mid where mid: "resolve_deps provides [] logger_params fx_own = Inr mid" "resolve_deps provides [] run_params mid = Inr order"
    by (auto simp: construction_def)
  have "in_order provides fx_own"
    by (auto simp: in_order_def fx_own_def params_of_def provides_def Cons_eq_append_conv)
  from resolve_deps_in_order [OF mid(1) this] resolve_deps_in_order [OF mid(2)] show ?thesis by auto
qed

lemma built_exits: "main_exits w (Some s) k \<longleftrightarrow>
    (\<exists>a c. new_app w = Inr a \<and> ap_config a = Some c \<and> proc_reach c (length (started (ap_ids a))) s \<and> halted s) \<and>
    k = (if clean_end s then 0 else 1)"
  unfolding main_exits_built by (auto dest: run_code_tells)

lemma clean_exit: "new_app w = Inr a \<Longrightarrow> \<exists>s. main_exits w (Some s) 0"
proof -
  assume new: "new_app w = Inr a"
  then obtain c where c: "ap_config a = Some c" by (auto simp: new_app_Inr)
  obtain s where "proc_reach c (length (started (ap_ids a))) s" "halted s" "clean_end s" using clean_run by blast
  with built_exits [of w s 0] new c show ?thesis by auto
qed

text \<open>
  C29. The exit code tells how the process ended. A process that cannot be constructed, a refused
  configuration included, exits with 1. One that was constructed exits with 0 exactly when it started, a signal, and not its failed listener,
  was the first to ask it to stop, its drain ended with no request in flight and no stop hook returned an error, and with 1 otherwise;
  every process that is constructed can end with 0.
\<close>

theorem exit_code_tells:
  "(main_exits w None k \<longleftrightarrow> k = 1 \<and> (\<exists>e. new_app w = Inl e)) \<and>
   (main_exits w (Some s) k \<longleftrightarrow>
      (\<exists>a c. new_app w = Inr a \<and> ap_config a = Some c \<and> proc_reach c (length (started (ap_ids a))) s \<and> halted s) \<and>
      k = (if failed s = None \<and> stop_errors s = [] \<and> phase (life s) = Down None \<and> in_flight (life s) = 0 \<and> cause (life s) = Some Signalled
           then 0 else 1)) \<and>
   ((\<exists>t. main_exits w (Some t) 0) \<longleftrightarrow> (\<exists>a. new_app w = Inr a))"
proof (intro conjI)
  show "main_exits w None k \<longleftrightarrow> k = 1 \<and> (\<exists>e. new_app w = Inl e)" by (auto simp: main_exits_unbuilt)
  show "(\<exists>t. main_exits w (Some t) 0) \<longleftrightarrow> (\<exists>a. new_app w = Inr a)" using clean_exit built_exits by blast
qed (rule built_exits [unfolded clean_end_def])

text \<open>
  C30. Every connection of a process that was built from an accepted configuration without the guard uses the identity its own section
  configures: Control's, Knowledge's and MCP's client each present the certificate that a started reloader
  loaded from that client's files (its own where it names them, the process's otherwise) and verify the server under that client's name,
  or the owner's own default; the exporter's likewise, or TLS against the collector's bundle. The server
  has the configured bounds, which are the validated ones, so that none of its own defaults applies; and the hooks are appended in the
  order in which a start or stop has to pass them.
\<close>

theorem connections_use_their_identity:
  assumes "new_app w = Inr a" "ap_config a = Some c" "validate parse_url c = []" "\<not> dev_enabled c"
  shows "(\<exists>t. ap_client a = Some t \<and> authenticates w a (identity_files c (ci_mtls (control_identity c)))
           (given (mtls_server_name (ci_mtls (control_identity c))) ''anvilkit-agent-control'') t)
    \<and> (\<exists>k g. ap_gateways a = Some (k, g) \<and> owner_authenticates w a c (Knowledge c) ''anvilkit-agent-knowledge'' k
         \<and> owner_authenticates w a c (MCP c) ''anvilkit-agent-mcp'' g)
    \<and> (\<exists>tc. ap_tracer a = Some tc \<and> collector_authenticates w a c tc)
    \<and> (\<exists>o'. ap_server a = Some o' \<and> so_listen o' = Listen (HTTP c) \<and> so_read_header_timeout o' = ReadHeaderTimeout (HTTP c)
         \<and> so_body_limit o' = BodyLimitBytes (HTTP c) \<and> so_body_limit o' \<in> {1024..16777216}
         \<and> server_window o' = TransferWindow c \<and> server_profile o' = PreparationProfile c
         \<and> so_stream o' = SSE c \<and> 1 \<le> FrameBuffer (so_stream o') \<and> 1 \<le> MaxStreamsPerPrincipal (so_stream o')
         \<and> MaxStreamsPerPrincipal (so_stream o') \<le> MaxStreams (so_stream o'))
    \<and> ap_hooks a = [IdentitiesHook] @ (if owner_address (Knowledge c) = [] then [] else [KnowledgeHook])
         @ (if owner_address (MCP c) = [] then [] else [McpHook]) @ (if OTLPEndpoint (Telemetry c) = [] then [] else [TracerHook])
         @ (if MetricsListen (Telemetry c) = [] then [] else [MetricsHook]) @ [ApiHook]"
proof -
  from assms(1,2) obtain tr ids0 k g ids1 p tc where b: "newControl (w_identity w) c no_identities = (Inr tr, ids0)"
      "newGateways (w_identity w) c ids0 = (Inr (k, g), ids1)" "newTracer (w_identity w) (w_pool w) c ids1 = (Inr p, ap_ids a)"
      "tracer_of (w_exporter w) c p = Inr tc"
    and ap: "ap_client a = Some tr" "ap_gateways a = Some (k, g)" "ap_tracer a = Some tc" "ap_server a = Some (ServerOptions c)" "ap_hooks a = hooks_of c"
    by (auto simp: new_app_Inr)
  from b(2) obtain idk where pl: "place (w_identity w) c ''knowledge'' (Knowledge c) ''anvilkit-agent-knowledge'' ids0 = (Inr k, idk)"
    "place (w_identity w) c ''mcp'' (MCP c) ''anvilkit-agent-mcp'' idk = (Inr g, ids1)" by (auto simp: newGateways_Inr)
  note ctl = b(1) [unfolded newControl_def]
  note i0 = ids_client_inv [OF ids_inv_empty ctl] and ik = place_inv [OF ids_client_inv [OF ids_inv_empty ctl] pl(1)]
  note gr = ids_client_grown [OF ctl] place_grown [OF pl(1)] place_grown [OF pl(2)] tracer_grown [OF b(3)]
  have l: "loaded (w_identity w) ids0" "loaded (w_identity w) idk" "loaded (w_identity w) ids1"
    using gr by (simp_all add: grown_def)
  have "authenticates w a (identity_files c (ci_mtls (control_identity c)))
      (given (mtls_server_name (ci_mtls (control_identity c))) ''anvilkit-agent-control'') tr"
    by (rule client_authenticates [OF ids_inv_empty loaded_empty ctl assms(4)]) (use gr grown_trans in blast)
  moreover have "owner_authenticates w a c (Knowledge c) ''anvilkit-agent-knowledge'' k"
    by (rule place_authenticates [OF i0 l(1) pl(1) assms(4)]) (use gr grown_trans in blast)
  moreover have "owner_authenticates w a c (MCP c) ''anvilkit-agent-mcp'' g"
    by (rule place_authenticates [OF ik l(2) pl(2) assms(4) gr(4)])
  moreover have "collector_authenticates w a c tc"
    by (rule tracer_authenticates [OF place_inv [OF ik pl(2)] l(3) b(3) assms(4) b(4)])
  moreover have "server_window (ServerOptions c) = TransferWindow c" "server_profile (ServerOptions c) = PreparationProfile c"
    "so_body_limit (ServerOptions c) \<in> {1024..16777216}"
    using validate_parts [OF assms(3)] by (simp_all add: server_window_def server_profile_def ServerOptions_def)
  moreover have "1 \<le> FrameBuffer (SSE c)" "1 \<le> MaxStreamsPerPrincipal (SSE c)" "MaxStreamsPerPrincipal (SSE c) \<le> MaxStreams (SSE c)"
    using validate_parts(1) [OF assms(3)] by (simp_all add: validate_sse_def outside_def)
  ultimately show ?thesis unfolding ap by (simp add: ServerOptions_def hooks_defs)
qed

definition demo_world :: "unit world" where
  "demo_world = \<lparr>w_load = Inr demo_config, w_identity = (\<lambda>_. Inr ()), w_principals = (\<lambda>_. Inl []), w_pool = (\<lambda>_. Inl []),
     w_discovery = (\<lambda>_. None), w_dial = (\<lambda>_. None), w_exporter = (\<lambda>_ _. None), w_server = None\<rparr>"

lemma demo_app: "\<exists>a. new_app demo_world = Inr a \<and> ap_config a = Some demo_config"
proof -
  have v: "newVerifier (\<lambda>_. Inl []) (\<lambda>_. Inl []) (\<lambda>_. None) demo_config
      = Inr (Oidc \<lparr>vclaims = oidc_claims (OIDC (AuthCfg demo_config)), skew = oidc_clock_skew (OIDC (AuthCfg demo_config))\<rparr>)"
    by (simp add: newVerifier_def demo_config_def place_config_def baseline_def Auth.New_def)
  have "fst (newControl (\<lambda>_. Inr ()) demo_config no_identities) = Inr (Mutual 0 ''anvilkit-agent-control'')"
    by (simp add: newControl_def ids_client_def demo_config_def place_config_def baseline_def mtls_identity_def mtls_client_def ids_reloader_def Let_def
        NewClientCredentials_def named_def no_identities_def Resolved_def files_of_def own_files_def)
  then obtain ids where ctl: "newControl (\<lambda>_. Inr ()) demo_config no_identities = (Inr (Mutual 0 ''anvilkit-agent-control''), ids)"
    by (metis prod.collapse)
  have g: "newGateways (\<lambda>_. Inr ()) demo_config ids = (Inr (Unplaced, Unplaced), ids)"
    by (simp add: newGateways_def place_def demo_config_def place_config_def baseline_def)
  have t: "newTracer (\<lambda>_. Inr ()) (\<lambda>_. Inl []) demo_config ids = (Inr Unplaced, ids)"
    by (simp add: newTracer_def demo_config_def place_config_def baseline_def)
  have o: "opened demo_world demo_config"
    by (simp add: opened_def owner_dialed_def demo_world_def)
  obtain a where "new_app demo_world = Inr a \<and> ap_config a = Some demo_config \<and> ap_ids a = ids"
    using v ctl g t o by (simp add: new_app_Inr) (simp add: demo_world_def tracer_of_def)
  then show ?thesis by blast
qed

theorem connections_use_their_identity_witness:
  "\<exists>a n. new_app demo_world = Inr a \<and> ap_client a = Some (Mutual n ''anvilkit-agent-control'')
    \<and> polls_files (w_identity demo_world) (ap_ids a) n \<lparr>CertFile = ''c'', KeyFile = ''k'', CAFile = ''a''\<rparr>"
proof -
  obtain a where a: "new_app demo_world = Inr a" "ap_config a = Some demo_config" using demo_app by blast
  have d: "\<not> dev_enabled demo_config" by (simp add: demo_config_def place_config_def baseline_def)
  have "identity_files demo_config (ci_mtls (control_identity demo_config)) = \<lparr>CertFile = ''c'', KeyFile = ''k'', CAFile = ''a''\<rparr>"
    "given (mtls_server_name (ci_mtls (control_identity demo_config))) ''anvilkit-agent-control'' = ''anvilkit-agent-control''"
    by (simp_all add: identity_files_def given_def demo_config_def place_config_def baseline_def mtls_identity_def)
  with connections_use_their_identity [OF a demo_validate d] a show ?thesis by (auto simp: authenticates_def)
qed

end
