(* ===== verification/Credentials.thy ===== *)
theory Credentials
  imports Trust
begin

text \<open>
  The credentials of internal/transport/identity/credentials.go on a rotating Reloader: the TLS
  configurations of serverCreds, clientCreds and ClientTLSConfig, the tracked connection that leaves
  its tracker when closed, and the idle pool of HTTPTransport. With Material.Equal and
  the number of retired roots a reload reports.

  crypto/tls is given its configuration here; what a handshake makes of it (chains to the
  roots, the name of the server) is the library's.
\<close>

section \<open>Configurations\<close>

record tls_config =
  Certificate :: cert
  TrustedPool :: "cert list"
  VerifyName :: "string option"
  MinVersion :: nat
  RequireClientCert :: bool
  SessionTicketsDisabled :: bool

text \<open>
  \<open>TrustedPool\<close> is ClientCAs of a server and RootCAs of a client; \<open>VerifyName\<close> the ServerName a
  client verifies. TLS 1.3 is 0x0304.
\<close>

definition VersionTLS13 :: nat where "VersionTLS13 = 772"

definition server_config :: "reloader \<Rightarrow> tls_config" where
  "server_config r =
     \<lparr>Certificate = Leaf (current r), TrustedPool = Pool (current r), VerifyName = None, MinVersion = VersionTLS13,
      RequireClientCert = True, SessionTicketsDisabled = True\<rparr>"

definition client_config :: "string \<Rightarrow> reloader \<Rightarrow> tls_config" where
  "client_config serverName r =
     \<lparr>Certificate = Leaf (current r), TrustedPool = Pool (current r), VerifyName = Some serverName, MinVersion = VersionTLS13,
      RequireClientCert = False, SessionTicketsDisabled = False\<rparr>"

text \<open>ClientTLSConfig: the pool of the call, the certificate of the handshake (\<open>later\<close>).\<close>

definition ClientTLSConfig :: "string \<Rightarrow> reloader \<Rightarrow> reloader \<Rightarrow> tls_config" where
  "ClientTLSConfig serverName r later =
     \<lparr>Certificate = Leaf (current later), TrustedPool = Pool (current r), VerifyName = Some serverName, MinVersion = VersionTLS13,
      RequireClientCert = False, SessionTicketsDisabled = False\<rparr>"

text \<open>Both kinds of credentials keep their name whatever a dialer asks for, and refuse the other side's handshake.\<close>

datatype creds = ServerCreds | ClientCreds string

definition OverrideServerName :: "string \<Rightarrow> creds \<Rightarrow> creds" where
  "OverrideServerName authority c = c"

definition Clone :: "creds \<Rightarrow> creds" where
  "Clone c = (case c of ServerCreds \<Rightarrow> ServerCreds | ClientCreds n \<Rightarrow> ClientCreds n)"

definition Info :: "creds \<Rightarrow> string \<times> string \<times> string" where
  "Info c = (''tls'', ''1.3'', (case c of ServerCreds \<Rightarrow> [] | ClientCreds n \<Rightarrow> n))"

definition handshake_config :: "bool \<Rightarrow> creds \<Rightarrow> reloader \<Rightarrow> string + tls_config" where
  "handshake_config serve c r =
     (case (c, serve) of
        (ServerCreds, True) \<Rightarrow> Inr (server_config r)
      | (ServerCreds, False) \<Rightarrow> Inl ''identity: server credentials cannot dial''
      | (ClientCreds n, False) \<Rightarrow> Inr (client_config n r)
      | (ClientCreds n, True) \<Rightarrow> Inl ''identity: client credentials cannot serve'')"

section \<open>Rotation\<close>

text \<open>
  A configuration that rotates presents and trusts what the Reloader holds at the moment of the
  handshake.
\<close>

locale rotating =
  fixes config :: "reloader \<Rightarrow> tls_config"
  assumes presents: "Certificate (config r) = Leaf (current r)"
    and trusts: "TrustedPool (config r) = Pool (current r)"
    and modern: "MinVersion (config r) = VersionTLS13"
begin

text \<open>After a history of reloads the trusted pool is not empty and holds CA certificates only.\<close>

lemma trusts_authorities:
  assumes "New x sha fs f now = Inr r0"
  shows "TrustedPool (config (foldl (\<lambda>r (fs, fs', now). fst (Reload x sha fs fs' now r)) r0 history)) \<noteq> []
    \<and> (\<forall>c\<in>set (TrustedPool (config (foldl (\<lambda>r (fs, fs', now). fst (Reload x sha fs fs' now r)) r0 history))). IsCA c)"
proof -
  have "material_ok sha (current (foldl (\<lambda>r (fs, fs', now). fst (Reload x sha fs fs' now r)) r0 h))" for h
    using New_ok [OF assms] Reload_keeps by (induction h rule: rev_induct) auto
  from this [of history] show ?thesis
    by (auto simp: trusts material_ok_def roots_ok_def fun_eq_iff)
qed

text \<open>A handshake after a publication uses the published material, after a rejection the one before.\<close>

lemma rotates:
  "snd (Reload x sha fs fs' now r) = Some (p, m) \<Longrightarrow>
   Certificate (config (fst (Reload x sha fs fs' now r))) = Leaf m \<and> TrustedPool (config (fst (Reload x sha fs fs' now r))) = Pool m"
  using Reload_current [of x sha fs fs' now r p m] by (simp add: presents trusts)

lemma stays:
  "snd (Reload x sha fs fs' now r) = None \<Longrightarrow>
   Certificate (config (fst (Reload x sha fs fs' now r))) = Certificate (config r) \<and>
   TrustedPool (config (fst (Reload x sha fs fs' now r))) = TrustedPool (config r)"
  using Reload_rejected [of x sha fs fs' now r] by (simp add: presents trusts)

end

interpretation server_tls: rotating server_config
  by unfold_locales (simp_all add: server_config_def)

interpretation client_tls: rotating "client_config serverName" for serverName
  by unfold_locales (simp_all add: client_config_def)

interpretation http_tls: rotating "\<lambda>r. ClientTLSConfig serverName r r" for serverName
  by unfold_locales (simp_all add: ClientTLSConfig_def)

section \<open>Tracked connections\<close>

record tracked_conn =
  tc_root :: string
  tc_conn :: nat
  tc_once :: bool

definition Close :: "tracked_conn \<Rightarrow> tracker \<Rightarrow> tracked_conn \<times> tracker" where
  "Close c t = (if tc_once c then (c, t) else (c\<lparr>tc_once := True\<rparr>, track_remove (tc_root c) (tc_conn c) t))"

lemma Close_untracks:
  "\<not> tc_once c \<Longrightarrow> tracked (snd (Close c t)) = tracked t - {(tc_root c, tc_conn c)}"
  by (simp add: Close_def)

text \<open>A second Close changes nothing, even when another connection was tracked in between.\<close>

lemma Close_again: "Close (fst (Close c t)) t' = (fst (Close c t), t')"
  by (simp add: Close_def)

section \<open>Material and its retirement\<close>

definition Equal :: "material option \<Rightarrow> material option \<Rightarrow> bool" where
  "Equal m o' = (case (m, o') of (Some a, Some b) \<Rightarrow> MDigest a = MDigest b | _ \<Rightarrow> False)"

definition retired_count :: "material \<Rightarrow> material \<Rightarrow> nat" where
  "retired_count previous cur = card (retired_fps previous cur)"

text \<open>HTTPTransport's callback: the idle connections, by the root that verified them, are closed when a root retired.\<close>

definition on_change :: "material \<Rightarrow> material \<Rightarrow> (nat \<times> string) set \<Rightarrow> (nat \<times> string) set" where
  "on_change previous cur idle = (if retired_fps previous cur \<noteq> {} then {} else idle)"

lemma on_change_trusted:
  "snd ` idle \<subseteq> dom (Roots previous) \<Longrightarrow> snd ` on_change previous cur idle \<subseteq> dom (Roots cur)"
  by (auto simp: on_change_def retired_fps_def)

lemma published_differs:
  "snd (Reload x sha fs fs now r) = Some (p, m) \<Longrightarrow> \<not> Equal (Some p) (Some m)"
  by (auto simp: Reload_published Equal_def dest!: load_material_digest)

section \<open>The HTTP client's connections\<close>

text \<open>
  DialTLSContext: \<open>dial\<close> opens the raw connection, \<open>handshake\<close> is the error of the TLS handshake under a configuration.
  The second component are the raw connections it closed.
\<close>

definition DialTLSContext ::
  "(string \<Rightarrow> string + nat) \<Rightarrow> (tls_config \<Rightarrow> nat \<Rightarrow> string option) \<Rightarrow> string \<Rightarrow> reloader \<Rightarrow> string \<Rightarrow> (string + nat) \<times> nat list" where
  "DialTLSContext dial handshake serverName r addr =
     (case dial addr of
        Inl m \<Rightarrow> (Inl m, [])
      | Inr raw \<Rightarrow> (case handshake (ClientTLSConfig serverName r r) raw of Some m \<Rightarrow> (Inl m, [raw]) | None \<Rightarrow> (Inr raw, [])))"

text \<open>A dialed connection is either returned, after its handshake, or closed.\<close>

lemma dialed_once:
  "dial addr = Inr raw \<Longrightarrow>
   (fst (DialTLSContext dial handshake sn r addr) = Inr raw \<longleftrightarrow> raw \<notin> set (snd (DialTLSContext dial handshake sn r addr))) \<and>
   (fst (DialTLSContext dial handshake sn r addr) = Inr raw \<longleftrightarrow> handshake (client_config sn r) raw = None)"
  by (auto simp: DialTLSContext_def ClientTLSConfig_def client_config_def split: option.splits)

text \<open>
  The pool of the transport over time: connections by number, with the root their handshake verified.
  A request dials or takes an idle connection, and gives it back; a publication runs the callback.
\<close>

record http_pool =
  trust :: material
  idle_conns :: "(nat \<times> string) set"
  busy_conns :: "(nat \<times> string) set"

inductive pool_step :: "http_pool \<Rightarrow> http_pool \<Rightarrow> bool" where
  dials: "fp \<in> dom (Roots (trust s)) \<Longrightarrow> pool_step s (s\<lparr>busy_conns := insert (n, fp) (busy_conns s)\<rparr>)"
| reuses: "c \<in> idle_conns s \<Longrightarrow> pool_step s (s\<lparr>idle_conns := idle_conns s - {c}, busy_conns := insert c (busy_conns s)\<rparr>)"
| gives_back: "c \<in> busy_conns s \<Longrightarrow> pool_step s (s\<lparr>busy_conns := busy_conns s - {c}, idle_conns := insert c (idle_conns s)\<rparr>)"
| drops: "pool_step s (s\<lparr>busy_conns := busy_conns s - {c}, idle_conns := idle_conns s - {c}\<rparr>)"
| publishes: "pool_step s (s\<lparr>trust := m, idle_conns := on_change (trust s) m (idle_conns s)\<rparr>)"

definition idle_trusted :: "http_pool \<Rightarrow> bool" where
  "idle_trusted s \<longleftrightarrow> snd ` idle_conns s \<subseteq> dom (Roots (trust s))"

text \<open>Only a connection that is given back can bring a retired root into the idle pool.\<close>

lemma idle_trusted_step:
  assumes "pool_step s t" "idle_trusted s" "snd ` busy_conns s \<subseteq> dom (Roots (trust s))"
  shows "idle_trusted t"
  using assms(1)
proof cases
  case (publishes m)
  with assms(2) on_change_trusted [of "idle_conns s" "trust s" m] show ?thesis by (simp add: idle_trusted_def)
qed (use assms(2,3) in \<open>auto simp: idle_trusted_def\<close>)

text \<open>
  That happens: a request that is under way when its root is retired gives its connection back
  afterwards, and the next request takes it without a handshake. The comment of HTTPTransport
  promises a handshake under the current trust for it.
\<close>

theorem busy_connection_outlives_retirement:
  assumes "fp \<in> dom (Roots m)" "fp \<notin> dom (Roots m')"
  shows "\<exists>s t. pool_step\<^sup>*\<^sup>* \<lparr>trust = m, idle_conns = {}, busy_conns = {}\<rparr> s \<and> trust s = m' \<and> idle_conns s = {(n, fp)}
    \<and> \<not> idle_trusted s \<and> pool_step s t \<and> (n, fp) \<in> busy_conns t"
proof -
  let ?s0 = "\<lparr>trust = m, idle_conns = {}, busy_conns = {}\<rparr>"
  let ?s1 = "?s0\<lparr>busy_conns := {(n, fp)}\<rparr>"
  let ?s2 = "?s1\<lparr>trust := m', idle_conns := {}\<rparr>"
  let ?s3 = "?s2\<lparr>busy_conns := {}, idle_conns := {(n, fp)}\<rparr>"
  have "pool_step ?s0 ?s1" using dials [of fp ?s0 n] assms(1) by simp
  moreover have "pool_step ?s1 ?s2" using publishes [of ?s1 m'] by (simp add: on_change_def split: if_splits)
  moreover have "pool_step ?s2 ?s3" using gives_back [of "(n, fp)" ?s2] by simp
  ultimately have "pool_step\<^sup>*\<^sup>* ?s0 ?s3" by (meson converse_rtranclp_into_rtranclp rtranclp.rtrancl_refl)
  moreover have "pool_step ?s3 (?s3\<lparr>idle_conns := {}, busy_conns := {(n, fp)}\<rparr>)" using reuses [of "(n, fp)" ?s3] by simp
  moreover have "\<not> idle_trusted ?s3" using assms(2) by (simp add: idle_trusted_def)
  ultimately show ?thesis
    by (intro exI [of _ ?s3] exI [of _ "?s3\<lparr>idle_conns := {}, busy_conns := {(n, fp)}\<rparr>"]) simp
qed

theorem busy_connection_outlives_retirement_witness:
  "\<exists>m m' s. pool_step\<^sup>*\<^sup>* \<lparr>trust = m, idle_conns = {}, busy_conns = {}\<rparr> s \<and> trust s = m' \<and> \<not> idle_trusted s"
proof -
  let ?ca = "\<lparr>Raw = ''a'', NotBefore = 0, NotAfter = 100, IsCA = True, URIs = []\<rparr>"
  let ?m = "\<lparr>Leaf = ?ca, Pool = [?ca], Roots = Map.empty(''a'' \<mapsto> ?ca), MDigest = ''1''\<rparr>"
  let ?m' = "\<lparr>Leaf = ?ca, Pool = [?ca], Roots = Map.empty(''b'' \<mapsto> ?ca), MDigest = ''2''\<rparr>"
  have "''a'' \<in> dom (Roots ?m)" "''a'' \<notin> dom (Roots ?m')" by simp_all
  from busy_connection_outlives_retirement [OF this, of 0] show ?thesis by blast
qed

section \<open>Properties\<close>

text \<open>
  Every handshake, of the server, of a gRPC client and of the HTTP client, presents the leaf and
  verifies against the pool of the newest accepted material: after any history of reloads the
  pool is not empty and holds CA certificates only, a published reload is used by the very next
  handshake, a rejected one changes nothing; a client verifies the configured name, which no
  dialer overrides, and an idle HTTP connection survives a reload only under a root that is
  still trusted.
\<close>

theorem handshakes_follow_rotation:
  assumes "Trust.New x sha fs0 f now0 = Inr r0"
    and "r = foldl (\<lambda>r (fs, fs', now). fst (Reload x sha fs fs' now r)) r0 history"
    and "Reload x sha fs fs' now r = (r', change)"
    and "cfg \<in> {server_config, client_config sn, \<lambda>r. ClientTLSConfig sn r r}"
  shows "TrustedPool (cfg r) \<noteq> [] \<and> (\<forall>c\<in>set (TrustedPool (cfg r)). IsCA c) \<and> MinVersion (cfg r) = VersionTLS13
    \<and> (case change of
         None \<Rightarrow> TrustedPool (cfg r') = TrustedPool (cfg r) \<and> Certificate (cfg r') = Certificate (cfg r)
       | Some (p, m) \<Rightarrow> TrustedPool (cfg r') = Pool m \<and> Certificate (cfg r') = Leaf m \<and>
           (snd ` idle \<subseteq> dom (Roots p) \<longrightarrow> snd ` on_change p m idle \<subseteq> dom (Roots m)))
    \<and> handshake_config False (OverrideServerName authority (Clone (ClientCreds sn))) r = Inr (client_config sn r)
    \<and> VerifyName (client_config sn r) = Some sn"
proof -
  have rot: "rotating cfg"
    using assms(4) server_tls.rotating_axioms client_tls.rotating_axioms http_tls.rotating_axioms by blast
  have change: "case change of
         None \<Rightarrow> TrustedPool (cfg r') = TrustedPool (cfg r) \<and> Certificate (cfg r') = Certificate (cfg r)
       | Some (p, m) \<Rightarrow> TrustedPool (cfg r') = Pool m \<and> Certificate (cfg r') = Leaf m \<and>
           (snd ` idle \<subseteq> dom (Roots p) \<longrightarrow> snd ` on_change p m idle \<subseteq> dom (Roots m))"
    using rotating.rotates [OF rot, of x sha fs fs' now r] rotating.stays [OF rot, of x sha fs fs' now r]
      on_change_trusted [of idle] assms(3)
    by (auto split: option.splits)
  show ?thesis
    using change rotating.trusts_authorities [OF rot assms(1), of history] rotating.modern [OF rot] assms(2)
    by (auto simp: handshake_config_def OverrideServerName_def Clone_def client_config_def)
qed

theorem handshakes_follow_rotation_witness:
  "\<exists>r0. Trust.New demo_pki id (demo_fs ''ca1'') \<lparr>CertFile = ''crt'', KeyFile = ''key'', CAFile = ''ca''\<rparr> 5 = Inr r0
     \<and> TrustedPool (server_config r0) \<noteq> []"
proof -
  let ?f = "\<lparr>CertFile = ''crt'', KeyFile = ''key'', CAFile = ''ca''\<rparr>"
  obtain m1 where "load_material demo_pki id (demo_fs ''ca1'') ?f 5 = Inr m1"
    using demo_load [of "''ca1''"] by simp
  then have n: "Trust.New demo_pki id (demo_fs ''ca1'') ?f 5 = Inr \<lparr>rfiles = ?f, current = m1, failures = 0\<rparr>"
    by (simp add: New_def)
  obtain r' ch where "Reload demo_pki id (demo_fs ''ca2'') (demo_fs ''ca2'') 5 \<lparr>rfiles = ?f, current = m1, failures = 0\<rparr> = (r', ch)"
    by fastforce
  from handshakes_follow_rotation [OF n _ this, of "[]" server_config "''s''"] n show ?thesis by auto
qed

end
