(* ===== verification/Peers.thy ===== *)
theory Peers
  imports Credentials
begin

text \<open>
  The server credentials as they run: NewServerCredentials, its handshakes, the connections they return and the
  callback of a reload (internal/transport/identity/credentials.go) on the Reloader of reloader.go, with the functions
  of the theories Trust and Credentials in every step. The machine refines \<open>trust_step\<close>, so that what holds of its runs holds of
  the code's state; and the calls that the Authorizer (authz.go) lets through are traced to the peer's certificate.
\<close>

section \<open>The machine\<close>

record served =
  sv_info :: auth_info
  sv_chain :: "cert list"
  sv_since :: nat

text \<open>
  The Reloader and the number of its publications, the material whose callback is due, the handshakes
  under way with the configuration they took and the publication it was taken at, the tracker, the connections that were
  returned, and those of them that are closed.
\<close>

record server_creds =
  sc_reloader :: reloader
  sc_published :: nat
  sc_due :: "material option"
  sc_shaking :: "nat \<rightharpoonup> tls_config \<times> nat"
  sc_tracker :: tracker
  sc_conns :: "nat \<rightharpoonup> served"
  sc_closed :: "nat set"

definition NewServerCredentials :: "reloader \<Rightarrow> server_creds" where
  "NewServerCredentials r = \<lparr>sc_reloader = r, sc_published = 0, sc_due = None, sc_shaking = Map.empty,
     sc_tracker = Map.empty, sc_conns = Map.empty, sc_closed = {}\<rparr>"

text \<open>The connection that ServerHandshake returned.\<close>

definition handle_of :: "(string \<Rightarrow> string) \<Rightarrow> nat \<Rightarrow> served \<Rightarrow> tracked_conn" where
  "handle_of sha c sv = \<lparr>tc_root = sha (Raw (last (sv_chain sv))), tc_conn = c, tc_once = False\<rparr>"

text \<open>
  \<open>verify\<close>: the verified chains with which crypto/tls ends a handshake under a configuration. A reload
  runs its callback before the next one, as the poller makes one at a time.
\<close>

inductive creds_step ::
  "pki \<Rightarrow> (string \<Rightarrow> string) \<Rightarrow> (tls_config \<Rightarrow> cert list list \<Rightarrow> bool) \<Rightarrow> server_creds \<Rightarrow> server_creds \<Rightarrow> bool"
  for x sha verify where
  accepts: "sc_shaking s c = None \<Longrightarrow> sc_conns s c = None \<Longrightarrow>
    creds_step x sha verify s (s\<lparr>sc_shaking := (sc_shaking s)(c \<mapsto> (server_config (sc_reloader s), sc_published s))\<rparr>)"
| serves: "sc_shaking s c = Some (cfg, v) \<Longrightarrow> verify cfg chs \<Longrightarrow>
    ServerHandshake sha c (Inr chs) (sc_tracker s) = (Inr info, t) \<Longrightarrow>
    creds_step x sha verify s (s\<lparr>sc_shaking := (sc_shaking s)(c := None), sc_tracker := t,
      sc_conns := (sc_conns s)(c \<mapsto> \<lparr>sv_info = info, sv_chain = hd chs, sv_since = v\<rparr>)\<rparr>)"
| refuses: "sc_shaking s c = Some (cfg, v) \<Longrightarrow> ServerHandshake sha c tls (sc_tracker s) = (Inl e, t) \<Longrightarrow>
    creds_step x sha verify s (s\<lparr>sc_shaking := (sc_shaking s)(c := None), sc_tracker := t\<rparr>)"
| closes: "sc_conns s c = Some sv \<Longrightarrow> c \<notin> sc_closed s \<Longrightarrow>
    creds_step x sha verify s (s\<lparr>sc_tracker := snd (Close (handle_of sha c sv) (sc_tracker s)), sc_closed := insert c (sc_closed s)\<rparr>)"
| reloads: "sc_due s = None \<Longrightarrow> Reload x sha fs fs' now (sc_reloader s) = (r, change) \<Longrightarrow>
    creds_step x sha verify s (s\<lparr>sc_reloader := r, sc_due := map_option snd change,
      sc_published := sc_published s + (if change = None then 0 else 1)\<rparr>)"
| calls_back: "sc_due s = Some m \<Longrightarrow> closeRetired m (sc_tracker s) = (t, dead) \<Longrightarrow>
    creds_step x sha verify s (s\<lparr>sc_due := None, sc_tracker := t, sc_closed := sc_closed s \<union> dead\<rparr>)"

inductive creds_reach ::
  "pki \<Rightarrow> (string \<Rightarrow> string) \<Rightarrow> (tls_config \<Rightarrow> cert list list \<Rightarrow> bool) \<Rightarrow> reloader \<Rightarrow> server_creds \<Rightarrow> bool"
  for x sha verify r where
  creds_new: "creds_reach x sha verify r (NewServerCredentials r)"
| creds_next: "creds_reach x sha verify r s \<Longrightarrow> creds_step x sha verify s t \<Longrightarrow> creds_reach x sha verify r t"

interpretation creds_runs: machine "creds_step x sha verify" "creds_reach x sha verify r" for x sha verify r
  by unfold_locales (rule creds_next)

text \<open>
  What crypto/tls documents of a configuration that requires and verifies a client certificate: a verified
  chain is not empty and ends in a certificate of the pool.
\<close>

definition verifies_to_pool :: "(tls_config \<Rightarrow> cert list list \<Rightarrow> bool) \<Rightarrow> bool" where
  "verifies_to_pool verify \<longleftrightarrow> (\<forall>cfg ch more. RequireClientCert cfg \<longrightarrow> verify cfg (ch # more) \<longrightarrow> ch \<noteq> [] \<longrightarrow> last ch \<in> set (TrustedPool cfg))"

section \<open>The invariant\<close>

text \<open>The tracker holds exactly the connections that are open, under the root of their chain.\<close>

definition tracker_exact :: "(string \<Rightarrow> string) \<Rightarrow> server_creds \<Rightarrow> bool" where
  "tracker_exact sha s \<longleftrightarrow> (\<forall>fp. sc_tracker s fp \<noteq> Some {}) \<and>
     (\<forall>fp c. (fp, c) \<in> tracked (sc_tracker s) \<longleftrightarrow>
        (\<exists>sv. sc_conns s c = Some sv \<and> c \<notin> sc_closed s \<and> fp = sha (Raw (last (sv_chain sv)))))"

text \<open>The state of a connection: its authentication information is the identity of the leaf of its chain.\<close>

definition leaf_identity :: "served \<Rightarrow> bool" where
  "leaf_identity sv \<longleftrightarrow> sv_chain sv \<noteq> [] \<and> sv_info sv = PeerAuth (PeerPrincipal (Some (URIs (hd (sv_chain sv)))))"

definition creds_inv :: "(string \<Rightarrow> string) \<Rightarrow> server_creds \<Rightarrow> bool" where
  "creds_inv sha s \<longleftrightarrow> material_ok sha (current (sc_reloader s)) \<and> sc_due s \<in> {None, Some (current (sc_reloader s))} \<and>
     tracker_exact sha s \<and>
     (\<forall>c cfg v. sc_shaking s c = Some (cfg, v) \<longrightarrow> RequireClientCert cfg \<and> sc_conns s c = None \<and> c \<notin> sc_closed s) \<and>
     (\<forall>c. sc_conns s c = None \<longrightarrow> c \<notin> sc_closed s) \<and>
     (\<forall>c sv. sc_conns s c = Some sv \<longrightarrow> leaf_identity sv)"

lemma ServerHandshake_Inr:
  "ServerHandshake sha c (Inr chs) t = (Inr info, t') \<longleftrightarrow> chs \<noteq> [] \<and> hd chs \<noteq> [] \<and>
     info = PeerAuth (PeerPrincipal (Some (URIs (hd (hd chs))))) \<and> t' = track_add (sha (Raw (last (hd chs)))) c t"
  by (auto simp: ServerHandshake_def split: list.splits)

lemma ServerHandshake_Inl: "ServerHandshake sha c tls t = (Inl e, t') \<Longrightarrow> t' = t"
  by (auto simp: ServerHandshake_def split: sum.splits list.splits)

lemma tracker_changes:
  "(\<forall>fp. t fp \<noteq> Some {}) \<Longrightarrow> track_add fp c t fp' \<noteq> Some {}"
  "(\<forall>fp. t fp \<noteq> Some {}) \<Longrightarrow> track_remove fp c t fp' \<noteq> Some {}"
  "(\<forall>fp. t fp \<noteq> Some {}) \<Longrightarrow> fst (closeRetired m t) fp' \<noteq> Some {}"
  by (auto simp: track_add_def track_remove_def closeRetired_def split: option.splits)

lemma Close_handle: "snd (Close (handle_of sha c sv) t) = track_remove (sha (Raw (last (sv_chain sv)))) c t"
  by (simp add: Close_def handle_of_def)

lemma tracker_exact_serves:
  assumes "tracker_exact sha s" "sc_conns s c = None" "c \<notin> sc_closed s"
  shows "tracker_exact sha (s\<lparr>sc_shaking := sh, sc_tracker := track_add (sha (Raw (last (sv_chain sv)))) c (sc_tracker s),
    sc_conns := (sc_conns s)(c \<mapsto> sv)\<rparr>)"
  using assms tracker_changes(1) by (auto simp: tracker_exact_def)

lemma tracker_exact_closes:
  assumes "tracker_exact sha s" "sc_conns s c = Some sv"
  shows "tracker_exact sha (s\<lparr>sc_tracker := track_remove (sha (Raw (last (sv_chain sv)))) c (sc_tracker s), sc_closed := insert c (sc_closed s)\<rparr>)"
  using assms tracker_changes(2) by (auto simp: tracker_exact_def)

lemma tracker_exact_retires:
  assumes "tracker_exact sha s"
  shows "tracker_exact sha (s\<lparr>sc_due := None, sc_tracker := fst (closeRetired m (sc_tracker s)),
    sc_closed := sc_closed s \<union> snd (closeRetired m (sc_tracker s))\<rparr>)"
  using assms tracker_changes(3) by (auto simp: tracker_exact_def image_iff)

lemma creds_inv_step:
  assumes "creds_step x sha verify s t" "creds_inv sha s"
  shows "creds_inv sha t"
  using assms(1)
proof cases
  case (accepts c)
  then show ?thesis using assms(2) by (auto simp: creds_inv_def tracker_exact_def server_config_def)
next
  case (serves c cfg v chs info t')
  let ?sv = "\<lparr>sv_info = info, sv_chain = hd chs, sv_since = v\<rparr>"
  from serves(4) have h: "leaf_identity ?sv" "t' = track_add (sha (Raw (last (sv_chain ?sv)))) c (sc_tracker s)"
    by (simp_all add: ServerHandshake_Inr leaf_identity_def)
  have "sc_conns s c = None" "c \<notin> sc_closed s" using serves(2) assms(2) by (auto simp: creds_inv_def)
  with assms(2) h tracker_exact_serves [where sha = sha and s = s and c = c and sv = ?sv] show ?thesis
    unfolding serves(1) by (auto simp: creds_inv_def)
next
  case (refuses c cfg v tls e t')
  then show ?thesis using assms(2) ServerHandshake_Inl [OF refuses(3)] by (auto simp: creds_inv_def tracker_exact_def)
next
  case (closes c sv)
  then show ?thesis using assms(2) tracker_exact_closes [of sha s c sv] by (auto simp: creds_inv_def Close_handle)
next
  case (reloads fs fs' now r change)
  have "material_ok sha (current r)"
    using Reload_keeps [of sha "sc_reloader s" x fs fs' now] assms(2) reloads(3) by (simp add: creds_inv_def)
  moreover have "change = Some (p, m) \<Longrightarrow> m = current r" for p m
    using Reload_current [of x sha fs fs' now "sc_reloader s" p m] reloads(3) by simp
  ultimately show ?thesis using assms(2) unfolding reloads(1) by (cases change) (auto simp: creds_inv_def tracker_exact_def)
next
  case (calls_back m t' dead)
  have d: "c \<notin> dead" if "sc_conns s c = None" for c
    using that calls_back(3) assms(2) tracked_closeRetired(2) [of m "sc_tracker s"]
    by (auto simp: creds_inv_def tracker_exact_def)
  have "tracker_exact sha (s\<lparr>sc_due := None, sc_tracker := t', sc_closed := sc_closed s \<union> dead\<rparr>)"
    using tracker_exact_retires [of sha s m] calls_back(3) assms(2) by (simp add: creds_inv_def)
  then show ?thesis using assms(2) d unfolding calls_back(1) creds_inv_def by auto
qed

lemma creds_inv_reach:
  assumes "creds_reach x sha verify r s" "material_ok sha (current r)"
  shows "creds_inv sha s"
  using assms
proof (induction rule: creds_reach.induct)
  case creds_new
  then show ?case by (simp add: creds_inv_def NewServerCredentials_def tracker_exact_def tracked_def)
qed (rule creds_inv_step)

section \<open>Refinement of the trust machine\<close>

text \<open>A state as the trust machine sees it: roots by their fingerprints.\<close>

definition trust_view :: "(string \<Rightarrow> string) \<Rightarrow> server_creds \<Rightarrow> trust" where
  "trust_view sha s = \<lparr>roots_now = dom (Roots (current (sc_reloader s))), version = sc_published s,
     callback_due = (sc_due s \<noteq> None),
     shaking = (\<lambda>c. map_option (\<lambda>(cfg, v). ((\<lambda>r. sha (Raw r)) ` set (TrustedPool cfg), v)) (sc_shaking s c)),
     conns = sc_tracker s, began = (\<lambda>c. case sc_conns s c of None \<Rightarrow> 0 | Some sv \<Rightarrow> sv_since sv)\<rparr>"

lemma pool_roots: "material_ok sha m \<Longrightarrow> (\<lambda>r. sha (Raw r)) ` set (Pool m) = dom (Roots m)"
  by (auto simp: material_ok_def roots_ok_def)

text \<open>An accepted connection begins its handshake under the roots in force; a served one ends it under a root of its configuration.\<close>

lemma accepts_simulates:
  assumes "creds_inv sha s" "sc_shaking s c = None" "sc_conns s c = None"
    "t = s\<lparr>sc_shaking := (sc_shaking s)(c \<mapsto> (server_config (sc_reloader s), sc_published s))\<rparr>"
  shows "trust_step (trust_view sha s) (trust_view sha t)"
proof -
  let ?u = "trust_view sha s\<lparr>shaking := (shaking (trust_view sha s))(c \<mapsto> (roots_now (trust_view sha s), version (trust_view sha s)))\<rparr>"
  have "(fp, c) \<notin> tracked (sc_tracker s)" for fp
    using assms(1,3) by (auto simp: creds_inv_def tracker_exact_def)
  then have "trust_step (trust_view sha s) ?u"
    using assms(2) by (intro begin_handshake) (simp_all add: trust_view_def)
  moreover have "trust_view sha t = ?u"
    using assms(1) pool_roots by (auto simp: assms(4) trust_view_def fun_eq_iff server_config_def creds_inv_def)
  ultimately show ?thesis by simp
qed

lemma serves_simulates:
  assumes "creds_inv sha s" "verifies_to_pool verify" "sc_shaking s c = Some (cfg, v)" "verify cfg chs"
    "ServerHandshake sha c (Inr chs) (sc_tracker s) = (Inr info, t')"
    "t = s\<lparr>sc_shaking := (sc_shaking s)(c := None), sc_tracker := t',
      sc_conns := (sc_conns s)(c \<mapsto> \<lparr>sv_info = info, sv_chain = hd chs, sv_since = v\<rparr>)\<rparr>"
  shows "trust_step (trust_view sha s) (trust_view sha t)"
proof -
  let ?fp = "sha (Raw (last (hd chs)))"
  let ?u = "trust_view sha s\<lparr>shaking := (shaking (trust_view sha s))(c := None),
      conns := track_add ?fp c (conns (trust_view sha s)), began := (began (trust_view sha s))(c := v)\<rparr>"
  from assms(5) have h: "chs \<noteq> []" "hd chs \<noteq> []" "t' = track_add ?fp c (sc_tracker s)" by (simp_all add: ServerHandshake_Inr)
  have "RequireClientCert cfg" using assms(1,3) unfolding creds_inv_def by blast
  then have "last (hd chs) \<in> set (TrustedPool cfg)"
    using assms(2,4) h(1,2) unfolding verifies_to_pool_def by (metis list.collapse)
  then have "trust_step (trust_view sha s) ?u"
    using assms(3) by (intro end_handshake) (auto simp: trust_view_def)
  moreover have "trust_view sha t = ?u"
    by (auto simp: assms(6) h(3) trust_view_def fun_eq_iff)
  ultimately show ?thesis by simp
qed

lemma creds_simulates:
  assumes "creds_step x sha verify s t" "creds_inv sha s" "verifies_to_pool verify"
  shows "trust_view sha t = trust_view sha s \<or> trust_step (trust_view sha s) (trust_view sha t)"
  using assms(1)
proof cases
  case (accepts c)
  from accepts_simulates [OF assms(2) accepts(2,3,1)] show ?thesis ..
next
  case (serves c cfg v chs info t')
  from serves_simulates [OF assms(2,3) serves(2,3,4,1)] show ?thesis ..
next
  case (refuses c cfg v tls e t')
  have "trust_step (trust_view sha s) (trust_view sha s\<lparr>shaking := (shaking (trust_view sha s))(c := None)\<rparr>)"
    using refuses(2) by (intro fail_handshake) (auto simp: trust_view_def)
  moreover have "trust_view sha t = trust_view sha s\<lparr>shaking := (shaking (trust_view sha s))(c := None)\<rparr>"
    using ServerHandshake_Inl [OF refuses(3)] by (auto simp: refuses(1) trust_view_def fun_eq_iff)
  ultimately show ?thesis by simp
next
  case (closes c sv)
  have "(sha (Raw (last (sv_chain sv))), c) \<in> tracked (conns (trust_view sha s))"
    using assms(2) closes(2,3) by (auto simp: creds_inv_def tracker_exact_def trust_view_def)
  from close_conn [OF this] show ?thesis by (simp add: closes(1) trust_view_def Close_handle)
next
  case (reloads fs fs' now r change)
  show ?thesis
  proof (cases change)
    case None
    then show ?thesis using Reload_rejected [of x sha fs fs' now "sc_reloader s"] reloads by (simp add: trust_view_def)
  next
    case (Some pm)
    have "trust_step (trust_view sha s) (trust_view sha s\<lparr>roots_now := dom (Roots (current r)),
        version := version (trust_view sha s) + 1, callback_due := True\<rparr>)"
      using reloads(2) by (intro publish) (simp add: trust_view_def)
    then show ?thesis using Some by (simp add: reloads(1) trust_view_def)
  qed
next
  case (calls_back m t' dead)
  then have "m = current (sc_reloader s)" using assms(2) by (auto simp: creds_inv_def)
  then have "trust_step (trust_view sha s) (trust_view sha s\<lparr>callback_due := False, conns := fst (closeRetired m (conns (trust_view sha s)))\<rparr>)"
    using calls_back(2) by (intro callback) (auto simp: trust_view_def dom_def)
  then show ?thesis using calls_back(3) by (simp add: calls_back(1) trust_view_def)
qed

lemma creds_refines:
  assumes "creds_reach x sha verify r s" "material_ok sha (current r)" "verifies_to_pool verify"
  shows "trust_reach (dom (Roots (current r))) (trust_view sha s)"
  using assms
proof (induction rule: creds_reach.induct)
  case creds_new
  have "trust_view sha (NewServerCredentials r) = trust_init (dom (Roots (current r)))"
    by (simp add: trust_view_def NewServerCredentials_def trust_init_def)
  then show ?case by (simp add: trust_start)
next
  case (creds_next s t)
  then show ?case using creds_simulates [OF creds_next.hyps(2) creds_inv_reach [OF creds_next.hyps(1)]]
    by (metis trust_next)
qed

section \<open>Properties\<close>

text \<open>
  C21. The server credentials refine the trust machine, and a served peer is who its call is authorized as:
  whatever handshakes, closings, reloads and callbacks interleave, an open connection whose handshake began since the last
  published material has the root of its verified chain in the material in force, and a call that the
  Authorizer lets through on a connection is by the one workload identity of the leaf of its chain, which the policy allows.
\<close>

theorem served_peers_are_trusted:
  assumes "verifies_to_pool verify" "Trust.New x sha fs f now0 = Inr r0" "creds_reach x sha verify r0 s" "sc_conns s c = Some sv"
  shows "trust_reach (dom (Roots (current r0))) (trust_view sha s)
    \<and> (c \<notin> sc_closed s \<and> sv_since sv = sc_published s \<longrightarrow>
         TrustsRoot sha (Some (current (sc_reloader s))) (Some (last (sv_chain sv))))
    \<and> (Authorize a (sv_info sv) meth = None \<longrightarrow>
         (\<exists>p. URIs (hd (sv_chain sv)) = [spiffe_url p] \<and> valid_principal p \<and> Caller (sv_info sv) = Some p \<and> Allowed a meth p))"
proof -
  have m: "material_ok sha (current r0)" using New_ok [OF assms(2)] by simp
  have inv: "creds_inv sha s" by (rule creds_inv_reach [OF assms(3) m])
  have r: "trust_reach (dom (Roots (current r0))) (trust_view sha s)" by (rule creds_refines [OF assms(3) m assms(1)])
  have "TrustsRoot sha (Some (current (sc_reloader s))) (Some (last (sv_chain sv)))"
    if "c \<notin> sc_closed s" "sv_since sv = sc_published s"
  proof -
    have "(sha (Raw (last (sv_chain sv))), c) \<in> tracked (conns (trust_view sha s))"
      using inv assms(4) that(1) by (auto simp: creds_inv_def tracker_exact_def trust_view_def)
    from trusted_unless_spanning [OF r this] that(2) assms(4)
    show ?thesis by (auto simp: trust_view_def TrustsRoot_def)
  qed
  moreover have "\<exists>p. URIs (hd (sv_chain sv)) = [spiffe_url p] \<and> valid_principal p \<and> Caller (sv_info sv) = Some p \<and> Allowed a meth p"
    if "Authorize a (sv_info sv) meth = None"
  proof -
    from that obtain p where p: "Caller (sv_info sv) = Some p" "Allowed a meth p" by (auto simp: Authorize_None)
    then have "PeerPrincipal (Some (URIs (hd (sv_chain sv)))) = Inr p"
      using inv assms(4) by (auto simp: creds_inv_def leaf_identity_def Caller_def split: sum.splits)
    then obtain u where "URIs (hd (sv_chain sv)) = [u]" "ParseSPIFFE (Some u) = Inr p"
      by (auto simp: PeerPrincipal_def split: list.splits)
    with ParseSPIFFE_sound p show ?thesis by blast
  qed
  ultimately show ?thesis using r by blast
qed

text \<open>One peer, verified by the authority of the first material.\<close>

definition demo_verify :: "tls_config \<Rightarrow> cert list list \<Rightarrow> bool" where
  "demo_verify cfg chs \<longleftrightarrow> (\<exists>leaf root. chs = [[leaf, root]] \<and> root \<in> set (TrustedPool cfg))"

theorem served_peers_are_trusted_witness:
  "\<exists>r0 s sv. Trust.New demo_pki id (demo_fs ''ca1'') \<lparr>CertFile = ''crt'', KeyFile = ''key'', CAFile = ''ca''\<rparr> 5 = Inr r0
     \<and> creds_reach demo_pki id demo_verify r0 s \<and> sc_conns s 0 = Some sv
     \<and> TrustsRoot id (Some (current (sc_reloader s))) (Some (last (sv_chain sv)))"
proof -
  let ?f = "\<lparr>CertFile = ''crt'', KeyFile = ''key'', CAFile = ''ca''\<rparr>"
  let ?root = "\<lparr>Raw = ''ca1'', NotBefore = 0, NotAfter = 100, IsCA = True, URIs = []\<rparr>"
  let ?peer = "\<lparr>Raw = ''peer'', NotBefore = 0, NotAfter = 100, IsCA = False, URIs = []\<rparr>"
  obtain m where m: "load_material demo_pki id (demo_fs ''ca1'') ?f 5 = Inr m" "Pool m = [?root]"
    using demo_load [of "''ca1''"] by simp
  let ?r0 = "\<lparr>rfiles = ?f, current = m, failures = 0\<rparr>"
  have n: "Trust.New demo_pki id (demo_fs ''ca1'') ?f 5 = Inr ?r0" using m(1) by (simp add: New_def)
  have v: "verifies_to_pool demo_verify" by (auto simp: verifies_to_pool_def demo_verify_def)
  let ?s0 = "NewServerCredentials ?r0"
  let ?s1 = "?s0\<lparr>sc_shaking := Map.empty(0 \<mapsto> (server_config ?r0, 0))\<rparr>"
  let ?sv = "\<lparr>sv_info = PeerAuth (PeerPrincipal (Some [])), sv_chain = [?peer, ?root], sv_since = 0\<rparr>"
  let ?s2 = "?s1\<lparr>sc_shaking := Map.empty, sc_tracker := track_add ''ca1'' 0 Map.empty, sc_conns := Map.empty(0 \<mapsto> ?sv)\<rparr>"
  have "creds_step demo_pki id demo_verify ?s0 ?s1"
    using creds_step.accepts [of ?s0 0 demo_pki id demo_verify] by (simp add: NewServerCredentials_def)
  moreover have "creds_step demo_pki id demo_verify ?s1 ?s2"
    using creds_step.serves [of ?s1 0 "server_config ?r0" 0 demo_verify "[[?peer, ?root]]" id "PeerAuth (PeerPrincipal (Some []))" "track_add ''ca1'' 0 Map.empty" demo_pki]
    by (simp add: NewServerCredentials_def demo_verify_def server_config_def m(2) ServerHandshake_Inr)
  ultimately have r: "creds_reach demo_pki id demo_verify ?r0 ?s2" by (meson creds_new creds_next)
  have sv: "sc_conns ?s2 0 = Some ?sv" by simp
  from served_peers_are_trusted [OF v n r sv]
  have "TrustsRoot id (Some (current (sc_reloader ?s2))) (Some (last (sv_chain ?sv)))" by (simp add: NewServerCredentials_def)
  with n r sv show ?thesis by (intro exI [of _ ?r0] exI [of _ ?s2] exI [of _ ?sv] conjI)
qed

end
