(* ===== verification/Metrics.thy ===== *)
theory Metrics
  imports Http
begin

text \<open>
  The request metrics of internal/transport/http/observe.go: NewMetrics and what observe adds for a
  request. A counter vector is a function of its label values; a histogram has one count per bucket and a last one for the
  rest, with the bounds of prometheus.ExponentialBuckets. Durations are nanoseconds (the code observes
  seconds as a float64).
\<close>

section \<open>The vectors\<close>

record histogram =
  h_counts :: "nat list"
  h_sum :: int

record metrics =
  m_requests :: "string \<times> string \<times> nat \<Rightarrow> nat"
  m_duration :: "string \<times> string \<Rightarrow> histogram"

definition ExponentialBuckets :: "int \<Rightarrow> int \<Rightarrow> nat \<Rightarrow> int list" where
  "ExponentialBuckets start factor n = map (\<lambda>i. start * factor ^ i) [0..<n]"

definition duration_buckets :: "int list" where
  "duration_buckets = ExponentialBuckets 5000000 2 14"

definition NewMetrics :: metrics where
  "NewMetrics = \<lparr>m_requests = (\<lambda>_. 0), m_duration = (\<lambda>_. \<lparr>h_counts = replicate 15 0, h_sum = 0\<rparr>)\<rparr>"

text \<open>Documented behaviour of a histogram: an observation is counted in the first bucket whose bound it does not exceed.\<close>

definition bucket_of :: "int \<Rightarrow> nat" where
  "bucket_of d = length (takeWhile (\<lambda>b. b < d) duration_buckets)"

definition Observe :: "int \<Rightarrow> histogram \<Rightarrow> histogram" where
  "Observe d h = h\<lparr>h_counts := (h_counts h)[bucket_of d := h_counts h ! bucket_of d + 1], h_sum := h_sum h + d\<rparr>"

text \<open>One request: the method, the route's template, the status and the time since its start.\<close>

type_synonym observation = "string \<times> string \<times> nat \<times> int"

definition observe_metrics :: "observation \<Rightarrow> metrics \<Rightarrow> metrics" where
  "observe_metrics ob m =
     (case ob of (mth, route, st, d) \<Rightarrow>
        m\<lparr>m_requests := (m_requests m)((mth, route, st) := m_requests m (mth, route, st) + 1),
          m_duration := (m_duration m)((mth, route) := Observe d (m_duration m (mth, route)))\<rparr>)"

text \<open>What a histogram exposes for bucket i: the observations up to its bound.\<close>

definition cumulative :: "histogram \<Rightarrow> nat \<Rightarrow> nat" where
  "cumulative h i = sum_list (take (Suc i) (h_counts h))"

section \<open>Buckets\<close>

lemma buckets_sorted: "sorted duration_buckets" "length duration_buckets = 14"
  by (simp_all add: duration_buckets_def ExponentialBuckets_def upt_rec)

lemma bucket_bound: "i < 14 \<Longrightarrow> bucket_of d \<le> i \<longleftrightarrow> d \<le> duration_buckets ! i"
proof
  assume i: "i < 14"
  let ?bs = duration_buckets and ?j = "bucket_of d"
  show "d \<le> ?bs ! i" if j: "?j \<le> i"
  proof -
    have "?j < length ?bs" using i j buckets_sorted(2) by simp
    then have "d \<le> ?bs ! ?j" using nth_length_takeWhile [of "\<lambda>b. b < d" ?bs] by (simp add: bucket_of_def)
    also have "\<dots> \<le> ?bs ! i" using i j buckets_sorted by (intro sorted_nth_mono) simp_all
    finally show ?thesis .
  qed
  show "?j \<le> i" if "d \<le> ?bs ! i"
  proof (rule ccontr)
    assume "\<not> ?j \<le> i"
    then have l: "i < length (takeWhile (\<lambda>b. b < d) ?bs)" by (simp add: bucket_of_def)
    then have "takeWhile (\<lambda>b. b < d) ?bs ! i < d" using set_takeWhileD [OF nth_mem [OF l]] by simp
    with that l show False by (simp add: takeWhile_nth)
  qed
qed

lemma bucket_range: "bucket_of d < 15"
  using length_takeWhile_le [of "\<lambda>b. b < d" duration_buckets] buckets_sorted(2) by (simp add: bucket_of_def)

lemma sum_take_update:
  "j < length xs \<Longrightarrow> sum_list (take n (xs[j := xs ! j + (1::nat)])) = sum_list (take n xs) + (if j < n then 1 else 0)"
proof (induction xs arbitrary: j n)
  case (Cons x xs)
  then show ?case by (cases j; cases n) auto
qed simp

lemma Observe_cumulative:
  "length (h_counts h) = 15 \<Longrightarrow> cumulative (Observe d h) i = cumulative h i + (if bucket_of d \<le> i then 1 else 0)"
  using sum_take_update [of "bucket_of d" "h_counts h" "Suc i"] bucket_range [of d] by (simp add: cumulative_def Observe_def)

section \<open>The metrics of a history of requests\<close>

abbreviation on_route :: "string \<Rightarrow> string \<Rightarrow> observation \<Rightarrow> bool" where
  "on_route mth route ob \<equiv> (case ob of (m, r, st, d) \<Rightarrow> m = mth \<and> r = route)"

lemma fold_metrics:
  defines "M obs \<equiv> fold observe_metrics obs NewMetrics"
  shows "m_requests (M obs) (mth, route, st) = length (filter (\<lambda>(m, r, s, d). m = mth \<and> r = route \<and> s = st) obs)"
    "length (h_counts (m_duration (M obs) (mth, route))) = 15"
    "cumulative (m_duration (M obs) (mth, route)) i =
       length (filter (\<lambda>ob. on_route mth route ob \<and> bucket_of (snd (snd (snd ob))) \<le> i) obs)"
    "h_sum (m_duration (M obs) (mth, route)) = sum_list (map (\<lambda>ob. snd (snd (snd ob))) (filter (on_route mth route) obs))"
proof (induction obs rule: rev_induct)
  case Nil
  show "m_requests (M []) (mth, route, st) = length (filter (\<lambda>(m, r, s, d). m = mth \<and> r = route \<and> s = st) [])"
    "length (h_counts (m_duration (M []) (mth, route))) = 15"
    "cumulative (m_duration (M []) (mth, route)) i =
       length (filter (\<lambda>ob. on_route mth route ob \<and> bucket_of (snd (snd (snd ob))) \<le> i) [])"
    "h_sum (m_duration (M []) (mth, route)) = sum_list (map (\<lambda>ob. snd (snd (snd ob))) (filter (on_route mth route) []))"
    by (simp_all add: M_def NewMetrics_def cumulative_def)
next
  case (snoc ob obs)
  obtain m r s d where ob: "ob = (m, r, s, d)" by (cases ob) auto
  have M: "M (obs @ [ob]) = observe_metrics ob (M obs)" by (simp add: M_def)
  note c = Observe_cumulative [OF snoc(2), of d i]
  show "m_requests (M (obs @ [ob])) (mth, route, st) = length (filter (\<lambda>(m, r, s, d). m = mth \<and> r = route \<and> s = st) (obs @ [ob]))"
    unfolding M using snoc(1) ob by (auto simp: observe_metrics_def)
  show "length (h_counts (m_duration (M (obs @ [ob])) (mth, route))) = 15"
    unfolding M using snoc(2) ob by (auto simp: observe_metrics_def Observe_def)
  show "cumulative (m_duration (M (obs @ [ob])) (mth, route)) i =
       length (filter (\<lambda>ob. on_route mth route ob \<and> bucket_of (snd (snd (snd ob))) \<le> i) (obs @ [ob]))"
    unfolding M using snoc(3) c ob by (auto simp: observe_metrics_def)
  show "h_sum (m_duration (M (obs @ [ob])) (mth, route)) = sum_list (map (\<lambda>ob. snd (snd (snd ob))) (filter (on_route mth route) (obs @ [ob])))"
    unfolding M using snoc(4) ob by (auto simp: observe_metrics_def Observe_def)
qed

section \<open>Properties\<close>

text \<open>
  The two metrics tell the same story of any history of requests: a counter is the number of
  requests with its labels; a histogram's count is the number of requests of its route, whatever their status, its sum
  their total time, and every bucket counts the ones that took no longer than its bound.
\<close>

theorem metrics_agree:
  fixes obs :: "observation list"
  defines "M \<equiv> fold observe_metrics obs NewMetrics"
  shows "m_requests M (mth, route, st) = length (filter (\<lambda>(m, r, s, d). m = mth \<and> r = route \<and> s = st) obs)
    \<and> cumulative (m_duration M (mth, route)) 14 = length (filter (on_route mth route) obs)
    \<and> h_sum (m_duration M (mth, route)) = sum_list (map (\<lambda>ob. snd (snd (snd ob))) (filter (on_route mth route) obs))
    \<and> (i < 14 \<longrightarrow> cumulative (m_duration M (mth, route)) i =
         length (filter (\<lambda>ob. on_route mth route ob \<and> snd (snd (snd ob)) \<le> duration_buckets ! i) obs))"
proof -
  have all: "bucket_of d \<le> 14" for d using bucket_range [of d] by simp
  show ?thesis
    unfolding M_def fold_metrics using all by (simp add: bucket_bound cong: filter_cong)
qed

theorem metrics_agree_witness:
  "cumulative (m_duration (fold observe_metrics [(''GET'', ''/x'', 200, 7000000), (''GET'', ''/x'', 503, 1)] NewMetrics) (''GET'', ''/x'')) 0 = 1"
  using metrics_agree [of "[(''GET'', ''/x'', 200, 7000000), (''GET'', ''/x'', 503, 1)]" "''GET''" "''/x''" 200 0]
  by (simp add: duration_buckets_def ExponentialBuckets_def)

end
