(* ===== verification/Spec2Isabelle.thy ===== *)
theory Spec2Isabelle
  imports Drain Resume Routes Pki Reach Rpc Canonical Wiring Peers Metrics
begin

text \<open>
  A model of anvilkit-agent-api, the public REST and SSE entry of the AnvilKit agent platform, and
  the theorems that make it correct. The service holds no business state: it authenticates a
  caller, checks and digests the request, sends one or more gRPC calls to the owning services
  (Control, Knowledge, MCP), and converts answers and errors; it streams the events of an operation;
  it rotates its own workload identity. Every theory opens with the files it models.

  \<^bold>\<open>The request path.\<close> A request enters the middleware chain of internal/transport/http/server.go
  (theory Http: \<open>engine\<close>, \<open>api_chain\<close>, the record \<open>gin\<close> is the Gin context): request identifier,
  log, error envelope, recovery, authentication (Auth: the OIDC and the fixture verifier), the strict
  body (Json: the decoder of encoding/json on lexemes and strictDecode; Digest: json.Marshal and the
  request digest; Canonical: what the digest determines), the OpenAPI validator's refusals (Validation).
  A strict handler of handlers.go (Handlers, Api) then makes one call of a port and converts the
  answer. The ports are the clients of internal/adapters: Owner (Control's messages and views),
  Gateway (what the clients share), Knowledge, Mcp, Recovery, and the verified reads of previews,
  sources and releases, which are several calls and a download (Reads, Releases). Reach composes
  handlers, ports and clients into the relation \<open>sends\<close>: which messages a request may send. Rpc gives
  the context of these calls: identifier and deadline. Errors of owners go through Errors. Routes has the
  routes of NewServer: the probes, the event stream and the operations below one middleware. \<open>operation_ctx\<close> (Http) is the context
  with which a request's operation runs, if it runs; the properties of requests are stated over it.

  \<^bold>\<open>Event streams.\<close> Events has Control's StreamEvents and the frames; Sse the handler and the producer
  goroutine of sse.go as one step relation \<open>step\<close> over the record \<open>sse\<close> (channels, handler position,
  response written so far), every select being a choice of rules; Limiter the admission bound.
  Stream_Safety proves invariants over \<open>reach\<close>, Stream_Liveness that closing ends. Streams has the route
  and all streams of the server at once, on one limiter, as the relation \<open>server_step\<close>; Drain composes it with the life of
  the process, whose drain waits for them, and shows that every fair run of a drain settles (Fairness: endless runs, weak fairness of the steps
  of one kind, rules for what then happens); Resume is a reader that opens one connection after another.

  \<^bold>\<open>The process.\<close> Config: the layered configuration and its validation. Bootstrap: the identities and
  transports the constructors open. Lifecycle: start, drain and stop of the server, the exit of a
  failed listener, and the poller of a Reloader; its field \<open>cause\<close> records, for the statements only, why the exit was first asked for. Process: the hooks that all constructors append, run in
  order and undone in reverse around that life (\<open>proc_step\<close>), the metrics listener and the tracer. Metrics: the
  request counters and the histogram. Wiring: the graph of constructors that Module gives Fx, the order in which they
  run, what each builds, with which identity the connections authenticate, and the exit code of main.go. Readiness: the cached probe. Trust: loading and reloading
  identity material, and the tracked connections, with handshakes, publications and callbacks
  as the step relation \<open>trust_step\<close>. Mounts: the files as the kubelet mounts and rotates them, a directory
  of symbolic links and the system calls on it, read by a Reloader meanwhile; Pki: the certificate authority of
  identitytest that issues what is mounted. Credentials: the TLS configurations on a Reloader; Peers: the server
  credentials as they run on these functions (\<open>creds_step\<close>), a refinement of \<open>trust_step\<close>. Workload:
  SPIFFE identities and the authorization policy.

  \<^bold>\<open>Groups of lemmas.\<close> Prelude has Go's string operations, results as sums and decimal numbers with the
  collections \<open>go_string\<close>, \<open>handler_defs\<close>, \<open>conv_defs\<close>; Regex and Patterns what the source's regular
  expressions accept; GoTime the time package's conversions. Interfaces are locales, interpreted on the
  model: \<open>verifier\<close> (Auth), \<open>owner_port\<close> (Errors), \<open>slots\<close> (Limiter), \<open>event_source\<close> (Events),
  \<open>owner_client\<close> and \<open>total_client\<close> (Gateway, interpreted for Control, Knowledge, MCP and recovery),
  \<open>bounded_calls\<close> (Rpc), \<open>rotating\<close> (Credentials), \<open>machine\<close> (Prelude, interpreted for the
  step relations of a stream, the server, the process, its pollers, the server credentials and their
  compositions). The lemmas of a component end in an invariant or a characterisation of its operations, from which its properties follow in a few lines; a property
  is preceded by its number and what it says.

  \<^bold>\<open>Widths, bounds and fuel.\<close> Go integers that can wrap are written with the wrap (\<open>uint32\<close> as a word,
  int32, 64-bit times and durations in GoTime and Auth); configuration values and durations within the validated
  bounds are integers of nanoseconds. decodeValue has fuel 2n + 1 for n lexemes, and
  \<open>decode_no_fuel_error\<close> shows that it is never used up; all other loops are structural or have a measure.
  A panic is the value None (Releases.toRelease) or \<open>OpPanic\<close>.

  \<^bold>\<open>Parameters and what is assumed of them.\<close> SHA-256 is any function; Canonical and Mounts assume that it does
  not collide on the texts compared. The scanner of encoding/json gives lexemes; Canonical assumes that they
  are complete numbers and valid UTF-8. Gin's recovery turns a panic into the panic handler's result
  (\<open>recovers\<close>); gin.New's 404 text and its redirect of trailing slashes, which passes no middleware, are in Routes. The OpenAPI validator, go-oidc, url.Parse, koanf's decoding, crypto/x509 and crypto/tls,
  the gRPC connections, the artifact store and the owners' answers are arbitrary functions or relations.
  Drain assumes of the scheduler that a select case that stays ready is taken and a goroutine that can go on does (\<open>fair_run\<close>).
  Fx and net/http enter Lifecycle by their documented behaviour: hooks in order, one stop,
  Serve returns ErrServerClosed after Shutdown; Process and Wiring have Fx run constructors in the order their results are
  needed, and Run exit with 1 on an error of New, of the start or of the stop. Resume assumes of Control that it sends the committed events behind a cursor in order, and of an
  SSE client that it takes the id field of a frame as its last event id. Mounts assumes that a certificate is
  accepted only with the key it was mounted with (\<open>own_keys\<close>) and that the digest tells the mounted files apart
  (\<open>tells_apart\<close>); Peers, that a verified chain ends in the configured pool (\<open>verifies_to_pool\<close>); Pki, that
  crypto/x509, encoding/pem and net/url read back what they wrote (\<open>mint_laws\<close>).

  \<^bold>\<open>Not modelled.\<close> The registrations with prometheus and OpenTelemetry and the sampling
  of spans (library calls without decisions of the service; the recorded span, count and log line of a
  request are in Http, the metrics in Metrics); the TLS handshakes themselves
  and certificate verification; the dialing of connections; the wire encoding of protobuf; the text of error messages that
  no client sees. Map iteration order is an arbitrary order where it is observable (Mount), and elsewhere only facts that
  do not depend on it are claimed.
\<close>

section \<open>Retries\<close>

text \<open>The command an admitted request sends, by the caller its token stands for and the document of its body.\<close>

lemma command_sent:
  assumes "operation_ctx verify scan sha limit find_route contract (new_request mth path (''Bearer '' @ t) (Some (Inr raw)) len) = Some c"
    and "handle h sha now c req = Inr (cmd, p', k)" "sends w (cmd, p', k) m"
    and "verify t = Inr p" "len \<noteq> 0" "command_id_of req = Some cid" "strictDecode (scan raw) = Inr v"
  shows "\<exists>d. CanonicalDigest sha v = Inr d \<and>
    message_command m = Some \<lparr>CmTenantId = TenantID p, CmCommandId = cid, CmActorId = ActorID p, CmRequestDigest = d\<rparr>"
  using verified_caller [OF assms(1-3)] assms(4-7) by auto

text \<open>
  C3. A retry is the same command, and nothing else is: two requests that both send a command to an owner send the
  same one exactly when they are by the same tenant and actor, have the same command identifier, and
  their bodies decode to documents that differ at most in the order of members. Owners that deduplicate
  commands therefore see a retried request once, in whatever formatting it arrives, and never
  take a changed request for a retry.
\<close>

theorem retry_is_the_same_command:
  assumes "operation_ctx verify scan sha limit find_route contract (new_request mth path (''Bearer '' @ t) (Some (Inr raw)) len) = Some c"
    and "handle h sha now c req = Inr (cmd, q, k)" "sends w (cmd, q, k) m"
    and "verify t = Inr p" "len \<noteq> 0" "command_id_of req = Some cid" "strictDecode (scan raw) = Inr v"
    and "operation_ctx verify scan sha limit find_route' contract' (new_request mth' path' (''Bearer '' @ t') (Some (Inr raw')) len') = Some c'"
    and "handle h sha now' c' req' = Inr (cmd', q', k')" "sends w (cmd', q', k') m'"
    and "verify t' = Inr p'" "len' \<noteq> 0" "command_id_of req' = Some cid'" "strictDecode (scan raw') = Inr v'"
    and "list_all (\<lambda>(off, l). scanned_lexeme l) (scan raw)" "list_all (\<lambda>(off, l). scanned_lexeme l) (scan raw')"
    and "\<forall>s t. marshal v = Inr s \<and> marshal v' = Inr t \<and> sha s = sha t \<longrightarrow> s = t"
  shows "message_command m = message_command m' \<longleftrightarrow>
    TenantID p = TenantID p' \<and> ActorID p = ActorID p' \<and> cid = cid' \<and> same_doc v v'"
proof -
  obtain d d' where "CanonicalDigest sha v = Inr d" "CanonicalDigest sha v' = Inr d'"
    and m: "message_command m = Some \<lparr>CmTenantId = TenantID p, CmCommandId = cid, CmActorId = ActorID p, CmRequestDigest = d\<rparr>"
      "message_command m' = Some \<lparr>CmTenantId = TenantID p', CmCommandId = cid', CmActorId = ActorID p', CmRequestDigest = d'\<rparr>"
    using command_sent [OF assms(1-7)] command_sent [OF assms(8-14)] by blast
  moreover have "CanonicalDigest sha v = CanonicalDigest sha v' \<longleftrightarrow> same_doc v v'"
    by (rule digest_same_doc [OF assms(7,14-17)])
  ultimately show ?thesis by auto
qed

text \<open>A request of the demo caller: its body is one lexeme, scanned and hashed by the identity.\<close>

definition demo_scan :: "string \<Rightarrow> input" where
  "demo_scan raw = [(0, LStr raw)]"

definition demo_ctx :: "string \<Rightarrow> gin" where
  "demo_ctx raw = (new_request ''POST'' ''/x'' ''Bearer k'' (Some (Inr raw)) 1)
     \<lparr>k_principal := Some demo_caller, k_digest := Some (''sha256:'' @ quote raw)\<rparr>"

lemma demo_request:
  assumes "length raw \<le> 10"
  shows "operation_ctx (\<lambda>_. Inr demo_caller) demo_scan (\<lambda>s. s) 10 (\<lambda>_. Some ()) (\<lambda>_ _. None)
      (new_request ''POST'' ''/x'' (''Bearer '' @ ''k'') (Some (Inr raw)) 1) = Some (demo_ctx raw)"
    and "strictDecode (demo_scan raw) = Inr (JStr raw)"
    and "handle \<lparr>transferWindow = 0, preparationProfile = []\<rparr> (\<lambda>s. s) 0 (demo_ctx raw) (CreateSnapshotReq cid [raw])
      = Inr (Some (command_from (demo_ctx raw) cid), demo_caller, PKnowledge (KnCreateSnapshot [raw]))"
    and "\<exists>m. sends demo_deployment (Some (command_from (demo_ctx raw) cid), demo_caller, PKnowledge (KnCreateSnapshot [raw])) m"
proof -
  show d: "strictDecode (demo_scan raw) = Inr (JStr raw)" by (simp add: strictDecode_iff demo_scan_def)
  have "CanonicalDigest (\<lambda>s. s) (JStr raw) = Inr (''sha256:'' @ quote raw)" by (simp add: CanonicalDigest_def marshal_def)
  then have "admitted_ctx (\<lambda>_. Inr demo_caller) demo_scan (\<lambda>s. s) 10 (new_request ''POST'' ''/x'' (''Bearer '' @ ''k'') (Some (Inr raw)) 1) (demo_ctx raw)"
    unfolding admitted_ctx_def
    by (intro exI [of _ demo_caller] exI [of _ "''k''"] conjI disjI2 exI [of _ raw] exI [of _ "JStr raw"] exI [of _ "''sha256:'' @ quote raw"])
       (use assms d in \<open>simp_all add: demo_ctx_def\<close>, simp_all add: new_request_def)
  then show "operation_ctx (\<lambda>_. Inr demo_caller) demo_scan (\<lambda>s. s) 10 (\<lambda>_. Some ()) (\<lambda>_ _. None)
      (new_request ''POST'' ''/x'' (''Bearer '' @ ''k'') (Some (Inr raw)) 1) = Some (demo_ctx raw)"
    by (subst operation_ctx_gate(1)) (simp_all add: requestValidator_def, simp add: new_request_def)
  have p: "principal_of (demo_ctx raw) = demo_caller" by (simp add: principal_of_def demo_ctx_def)
  then show "handle \<lparr>transferWindow = 0, preparationProfile = []\<rparr> (\<lambda>s. s) 0 (demo_ctx raw) (CreateSnapshotReq cid [raw])
      = Inr (Some (command_from (demo_ctx raw) cid), demo_caller, PKnowledge (KnCreateSnapshot [raw]))"
    by (simp add: h_CreateSnapshot_def mutate_eq)
  show "\<exists>m. sends demo_deployment (Some (command_from (demo_ctx raw) cid), demo_caller, PKnowledge (KnCreateSnapshot [raw])) m"
    using to_knowledge [of demo_deployment "Some (command_from (demo_ctx raw) cid)" demo_caller "KnCreateSnapshot [raw]"]
    by (simp add: demo_deployment_def) blast
qed

theorem retry_is_the_same_command_witness:
  "\<exists>m m'. sends demo_deployment (Some (command_from (demo_ctx ''a'') ''c1''), demo_caller, PKnowledge (KnCreateSnapshot [''a''])) m
     \<and> sends demo_deployment (Some (command_from (demo_ctx ''b'') ''c1''), demo_caller, PKnowledge (KnCreateSnapshot [''b''])) m'
     \<and> message_command m \<noteq> message_command m'"
proof -
  have len: "length ''a'' \<le> 10" "length ''b'' \<le> 10" by simp_all
  note a = demo_request [OF len(1)] and b = demo_request [OF len(2)]
  obtain m m' where m: "sends demo_deployment (Some (command_from (demo_ctx ''a'') ''c1''), demo_caller, PKnowledge (KnCreateSnapshot [''a''])) m"
    "sends demo_deployment (Some (command_from (demo_ctx ''b'') ''c1''), demo_caller, PKnowledge (KnCreateSnapshot [''b''])) m'"
    using a(4) b(4) by blast
  have k: "(1::int) \<noteq> 0" by simp
  have l: "list_all (\<lambda>(off, l). scanned_lexeme l) (demo_scan ''a'')" "list_all (\<lambda>(off, l). scanned_lexeme l) (demo_scan ''b'')"
    by code_simp+
  have "message_command m = message_command m' \<longleftrightarrow> TenantID demo_caller = TenantID demo_caller \<and> ActorID demo_caller = ActorID demo_caller
      \<and> ''c1'' = ''c1'' \<and> same_doc (JStr ''a'') (JStr ''b'')"
    by (rule retry_is_the_same_command [OF a(1) a(3) m(1) refl k command_id_of.simps(11) a(2) b(1) b(3) m(2) refl k command_id_of.simps(11) b(2) l]) simp
  moreover have "\<not> same_doc (JStr ''a'') (JStr ''b'')" by simp
  ultimately show ?thesis using m by blast
qed

end
